(* ===== verification/Prelude.thy ===== *)
theory Prelude
  imports
    Main
    "HOL-Library.Word"
    "HOL-Library.AList"
    "HOL-Library.Char_ord"
    "HOL-Library.List_Lexorder"
    "HOL-Library.Sublist"
    "HOL-Library.Multiset"
begin

text \<open>
  Shared vocabulary of the development: the types that every component uses (byte strings,
  durations), two's complement wrap-around at 64 bits, the collections of rewrite rules that
  the component theories extend, and generic lemmas on lists, maps and association lists.
\<close>

unbundle bit_operations_syntax

section \<open>Types\<close>

text \<open>
  A Go \<^verbatim>\<open>string\<close> and a Go \<^verbatim>\<open>[]byte\<close> are both sequences of bytes; one HOL \<^typ>\<open>char\<close> is
  one byte, and the conversions \<^verbatim>\<open>string(b)\<close>, \<^verbatim>\<open>[]byte(s)\<close> are the identity.
\<close>

type_synonym bytes = string

text \<open>A \<^verbatim>\<open>time.Duration\<close> or a clock reading, in nanoseconds: an \<^verbatim>\<open>int64\<close>, kept in range by \<open>wrap64\<close>.\<close>

type_synonym duration = int

section \<open>Rule collections\<close>

named_theorems frame_simps \<open>fields that an operation leaves alone\<close>
named_theorems os_simps \<open>effects of file-system calls on lookups\<close>
named_theorems fmt_simps \<open>evaluation of the formatting and scanning routines\<close>

section \<open>Signed 64-bit wrap-around\<close>

definition wrap64 :: "int \<Rightarrow> int" where
  "wrap64 x = (x + 2 ^ 63) mod 2 ^ 64 - 2 ^ 63"

lemma wrap64_id: "- (2 ^ 63) \<le> x \<Longrightarrow> x < 2 ^ 63 \<Longrightarrow> wrap64 x = x"
  by (simp add: wrap64_def)

lemma wrap64_range: "- (2 ^ 63) \<le> wrap64 x \<and> wrap64 x < 2 ^ 63"
proof -
  have "0 \<le> (x + 2 ^ 63) mod 2 ^ 64" and "(x + 2 ^ 63) mod 2 ^ 64 < (2 ^ 64 :: int)"
    by (simp_all only: pos_mod_sign pos_mod_bound zero_less_power zero_less_numeral)
  then show ?thesis by (simp add: wrap64_def)
qed

section \<open>Lists and association lists\<close>

lemma takeWhile_dropWhile_eq:
  "(\<And>x. x \<in> set xs \<Longrightarrow> P x) \<Longrightarrow> (ys = [] \<or> \<not> P (hd ys)) \<Longrightarrow>
   takeWhile P (xs @ ys) = xs \<and> dropWhile P (xs @ ys) = ys"
  by (cases ys) (auto simp: takeWhile_append2 takeWhile_append dropWhile_append)

lemma dropWhile_hd_False: "xs = [] \<or> \<not> P (hd xs) \<Longrightarrow> dropWhile P xs = xs"
  by (cases xs) auto

lemma map_of_update_same [simp]: "map_of (AList.update k v al) k = Some v"
  by (simp add: update_conv')

lemma map_of_update_other [simp]: "k' \<noteq> k \<Longrightarrow> map_of (AList.update k v al) k' = map_of al k'"
  by (simp add: update_conv')

lemma map_of_delete_same [simp]: "map_of (AList.delete k al) k = None"
  by (simp add: delete_conv')

lemma map_of_filter_keys:
  "map_of (filter (\<lambda>(k, v). P k) al) k = (if P k then map_of al k else None)"
  by (induction al) auto

end
