(* ===== verification/Go_Errors.thy ===== *)
theory Go_Errors
  imports Prelude
begin

text \<open>
  The error values of the program (\<^verbatim>\<open>s3/errors.go\<close>) together with the error values it
  receives from the standard library, goleveldb and the AWS SDK, and the ways it inspects them:
  \<^verbatim>\<open>errors.Is\<close>, \<^verbatim>\<open>errors.As\<close>, \<open>IsRetryable\<close> and \<open>isNotFoundError\<close>.
\<close>

section \<open>Error values\<close>

text \<open>
  The first group are the sentinels of \<^verbatim>\<open>errors.go\<close>. \<open>RetryableError e\<close> is the struct of that
  name, \<open>Wrapf m e\<close> the value of \<^verbatim>\<open>fmt.Errorf("m: %w", e)\<close>, \<open>NewError m\<close> an error with a text
  and no cause. \<open>StorageErrClosed\<close> is goleveldb's \<^verbatim>\<open>storage.ErrClosed\<close>, \<open>OsErrNotExist\<close> is
  \<^verbatim>\<open>os.ErrNotExist\<close>, \<open>OsError\<close> any other failure of a system call, \<open>NoSuchKey\<close> and \<open>NotFound\<close>
  the two SDK types that \<open>isNotFoundError\<close> looks for, \<open>OtherError\<close> any other SDK error.
  \<open>GoPanic\<close> is no error value of the program: it marks a run-time panic.
\<close>

datatype error =
    ErrLockNotFound | ErrLockHeld | ErrLockAcquireFailed | ErrFileTooLarge | ErrInvalidFile
  | ErrClosed | ErrRetryExhausted | ErrLockLost | ErrPendingChecksumMatch
  | RetryableError error
  | Wrapf string error
  | NewError string
  | StorageErrClosed
  | OsErrNotExist
  | OsError string
  | ContextCanceled
  | ContextDeadlineExceeded
  | NoSuchKey
  | NotFound
  | OtherError string
  | GoPanic string

text \<open>\<open>errors.Unwrap\<close>: \<open>RetryableError\<close> has an \<open>Unwrap\<close> method, and so has a \<^verbatim>\<open>%w\<close> value.\<close>

fun Unwrap :: "error \<Rightarrow> error option" where
  "Unwrap (RetryableError e) = Some e"
| "Unwrap (Wrapf m e) = Some e"
| "Unwrap _ = None"

text \<open>The chain that \<^verbatim>\<open>errors.Is\<close> and \<^verbatim>\<open>errors.As\<close> walk: the error and what it unwraps to.\<close>

fun error_chain :: "error \<Rightarrow> error list" where
  "error_chain (RetryableError e) = RetryableError e # error_chain e"
| "error_chain (Wrapf m e) = Wrapf m e # error_chain e"
| "error_chain e = [e]"

definition errors_Is :: "error \<Rightarrow> error \<Rightarrow> bool" where
  "errors_Is e target = (target \<in> set (error_chain e))"

fun is_RetryableError :: "error \<Rightarrow> bool" where
  "is_RetryableError (RetryableError e) = True"
| "is_RetryableError _ = False"

definition IsRetryable :: "error \<Rightarrow> bool" where
  "IsRetryable e = list_ex is_RetryableError (error_chain e)"

definition isNotFoundError :: "error \<Rightarrow> bool" where
  "isNotFoundError e = list_ex (\<lambda>x. x = NoSuchKey \<or> x = NotFound) (error_chain e)"

text \<open>\<^verbatim>\<open>os.IsNotExist\<close> looks at the error itself and not at what it wraps.\<close>

definition os_IsNotExist :: "error \<Rightarrow> bool" where
  "os_IsNotExist e = (e = OsErrNotExist)"

section \<open>Facts about chains\<close>

lemma error_chain_unwrap:
  "error_chain e = e # (case Unwrap e of None \<Rightarrow> [] | Some e' \<Rightarrow> error_chain e')"
  by (cases e) auto

lemma errors_Is_refl [simp]: "errors_Is e e"
  by (subst errors_Is_def, subst error_chain_unwrap) simp

lemma errors_Is_wrap [simp]:
  "errors_Is (Wrapf m e) t \<longleftrightarrow> t = Wrapf m e \<or> errors_Is e t"
  "errors_Is (RetryableError e) t \<longleftrightarrow> t = RetryableError e \<or> errors_Is e t"
  by (auto simp: errors_Is_def)

lemma IsRetryable_simps [simp]:
  "IsRetryable (RetryableError e)"
  "IsRetryable (Wrapf m e) = IsRetryable e"
  "\<not> IsRetryable NoSuchKey" "\<not> IsRetryable NotFound"
  "\<not> IsRetryable ContextCanceled" "\<not> IsRetryable ContextDeadlineExceeded"
  "\<not> IsRetryable (OtherError m)" "\<not> IsRetryable ErrFileTooLarge"
  by (simp_all add: IsRetryable_def)

lemma isNotFoundError_simps [simp]:
  "isNotFoundError NoSuchKey" "isNotFoundError NotFound"
  "isNotFoundError (RetryableError e) = isNotFoundError e"
  "isNotFoundError (Wrapf m e) = isNotFoundError e"
  "\<not> isNotFoundError ErrRetryExhausted" "\<not> isNotFoundError OsErrNotExist"
  "\<not> isNotFoundError ContextCanceled" "\<not> isNotFoundError ContextDeadlineExceeded"
  "\<not> isNotFoundError (OtherError m)" "\<not> isNotFoundError (NewError m)" "\<not> isNotFoundError (GoPanic m)"
  by (simp_all add: isNotFoundError_def)

lemma errors_Is_atom [simp]:
  "errors_Is ContextCanceled t \<longleftrightarrow> t = ContextCanceled"
  "errors_Is ContextDeadlineExceeded t \<longleftrightarrow> t = ContextDeadlineExceeded"
  "errors_Is ErrRetryExhausted t \<longleftrightarrow> t = ErrRetryExhausted"
  "errors_Is ErrLockLost t \<longleftrightarrow> t = ErrLockLost"
  "errors_Is ErrLockHeld t \<longleftrightarrow> t = ErrLockHeld"
  "errors_Is OsErrNotExist t \<longleftrightarrow> t = OsErrNotExist"
  "errors_Is NoSuchKey t \<longleftrightarrow> t = NoSuchKey"
  "errors_Is NotFound t \<longleftrightarrow> t = NotFound"
  "errors_Is (OtherError m) t \<longleftrightarrow> t = OtherError m"
  "errors_Is (NewError m) t \<longleftrightarrow> t = NewError m"
  by (auto simp: errors_Is_def)

text \<open>Wrapping never hides a sentinel from \<^verbatim>\<open>errors.Is\<close>.\<close>

lemma errors_Is_chain: "errors_Is e t \<Longrightarrow> errors_Is (Wrapf m e) t"
  by simp

end
