(* ===== verification/Retry.thy ===== *)
theory Retry
  imports Go_Errors
begin

text \<open>
  \<^verbatim>\<open>s3/retry.go\<close>: \<open>WithRetry\<close>, \<open>calcBackoff\<close> and \<open>sleepCtx\<close>. Contexts are data (a context is
  the background, the storage's cancellable context, or a deadline on top of another one); the
  clock, the cancel flag, the random source and the outcome of a \<^verbatim>\<open>select\<close> between a context
  and a timer belong to the environment, which the record \<open>runtime\<close> gives as functions on the
  state \<^typ>\<open>'w\<close> of the outside world.
\<close>

section \<open>Contexts and the run-time environment\<close>

datatype go_context = Background | StorageCtx | WithTimeout go_context int

text \<open>
  \<open>SelectAfter ctx d w\<close> lets time pass until the timer \<open>d\<close> fires or the context is done, and says
  whether the \<^verbatim>\<open>Done\<close> branch was taken. \<open>Canceled\<close> tells whether the cancel function of the
  storage context has been called, \<open>CancelCtx\<close> calls it.
\<close>

record 'w runtime =
  Now :: "'w \<Rightarrow> int"
  Canceled :: "'w \<Rightarrow> bool"
  CancelCtx :: "'w \<Rightarrow> 'w"
  SelectAfter :: "go_context \<Rightarrow> duration \<Rightarrow> 'w \<Rightarrow> bool \<times> 'w"
  Draw :: "'w \<Rightarrow> nat \<times> 'w"

fun ctxErr :: "'w runtime \<Rightarrow> go_context \<Rightarrow> 'w \<Rightarrow> error option" where
  "ctxErr rt Background w = None"
| "ctxErr rt StorageCtx w = (if Canceled rt w then Some ContextCanceled else None)"
| "ctxErr rt (WithTimeout c deadline) w =
     (case ctxErr rt c w of Some e \<Rightarrow> Some e
      | None \<Rightarrow> if deadline \<le> Now rt w then Some ContextDeadlineExceeded else None)"

text \<open>\<^verbatim>\<open>context.WithTimeout(ctx, d)\<close>, called when the world is \<open>w\<close>.\<close>

definition ctxWithTimeout :: "'w runtime \<Rightarrow> go_context \<Rightarrow> duration \<Rightarrow> 'w \<Rightarrow> go_context" where
  "ctxWithTimeout rt c d w = WithTimeout c (Now rt w + d)"

section \<open>Backoff\<close>

text \<open>\<open>time.Duration(1<<uint(n))\<close> at 64 bits, and \<open>rand.Int63n\<close>, which panics (\<open>None\<close>) for \<open>n <= 0\<close>.\<close>

definition shl64 :: "nat \<Rightarrow> int" where
  "shl64 n = wrap64 (2 ^ n)"

definition Int63n :: "'w runtime \<Rightarrow> int \<Rightarrow> 'w \<Rightarrow> int option \<times> 'w" where
  "Int63n rt n w =
     (if n \<le> 0 then (None, w) else case Draw rt w of (r, w1) \<Rightarrow> (Some (int r mod n), w1))"

definition calcBackoff :: "'w runtime \<Rightarrow> duration \<Rightarrow> nat \<Rightarrow> 'w \<Rightarrow> duration option \<times> 'w" where
  "calcBackoff rt baseDelay attempt w =
     (let expDelay = wrap64 (baseDelay * shl64 attempt);
          expDelay = (if expDelay \<le> 0 then baseDelay else expDelay)
      in Int63n rt expDelay w)"

definition sleepCtx :: "'w runtime \<Rightarrow> go_context \<Rightarrow> duration \<Rightarrow> 'w \<Rightarrow> error option \<times> 'w" where
  "sleepCtx rt ctx delay w =
     (case SelectAfter rt ctx delay w of
        (True, w1) \<Rightarrow> (ctxErr rt ctx w1, w1)
      | (False, w1) \<Rightarrow> (None, w1))"

section \<open>The retry loop\<close>

text \<open>\<open>Panicked\<close> is a run-time panic of \<open>rand.Int63n\<close>; \<open>Returned\<close> carries the returned error.\<close>

datatype retry_outcome = Returned "error option" | Panicked

text \<open>One unrolling of the loop: \<open>left\<close> attempts remain, \<open>attempt\<close> have been made.\<close>

fun retry_loop ::
  "'w runtime \<Rightarrow> go_context \<Rightarrow> duration \<Rightarrow> ('w \<Rightarrow> error option \<times> 'w) \<Rightarrow> nat \<Rightarrow> nat \<Rightarrow> 'w \<Rightarrow> retry_outcome \<times> 'w"
where
  "retry_loop rt ctx baseDelay fn 0 attempt w = (Returned (Some (RetryableError ErrRetryExhausted)), w)"
| "retry_loop rt ctx baseDelay fn (Suc left) attempt w =
     (case ctxErr rt ctx w of Some e \<Rightarrow> (Returned (Some e), w) | None \<Rightarrow>
       (case fn w of
          (None, w1) \<Rightarrow> (Returned None, w1)
        | (Some e, w1) \<Rightarrow>
            if \<not> IsRetryable e then (Returned (Some e), w1)
            else if left = 0 then retry_loop rt ctx baseDelay fn left (Suc attempt) w1
            else (case calcBackoff rt baseDelay attempt w1 of
                (None, w2) \<Rightarrow> (Panicked, w2)
              | (Some delay, w2) \<Rightarrow>
                  (case sleepCtx rt ctx delay w2 of
                     (Some e, w3) \<Rightarrow> (Returned (Some e), w3)
                   | (None, w3) \<Rightarrow> retry_loop rt ctx baseDelay fn left (Suc attempt) w3))))"

definition WithRetry ::
  "'w runtime \<Rightarrow> go_context \<Rightarrow> int \<Rightarrow> duration \<Rightarrow> ('w \<Rightarrow> error option \<times> 'w) \<Rightarrow> 'w \<Rightarrow> retry_outcome \<times> 'w"
where
  "WithRetry rt ctx maxAttempts baseDelay fn w = retry_loop rt ctx baseDelay fn (nat maxAttempts) 0 w"

section \<open>Backoff bounds\<close>

lemma calcBackoff_panic_iff:
  "fst (calcBackoff rt b n w) = None \<longleftrightarrow> b \<le> 0 \<and> wrap64 (b * shl64 n) \<le> 0"
  by (auto simp: calcBackoff_def Int63n_def Let_def split: prod.splits)

lemma calcBackoff_Some:
  assumes "0 < b"
  shows "\<exists>d w'. calcBackoff rt b n w = (Some d, w')"
  using assms by (auto simp: calcBackoff_def Int63n_def Let_def split: prod.splits)

text \<open>
  C39: for a positive base delay the backoff never panics and is never negative; as long as
  \<open>baseDelay * 2^attempt\<close> fits in 63 bits it is below that product, and once the product has
  overflowed to zero or less it is below the base delay.
\<close>

theorem calcBackoff_bounds:
  assumes "0 < b"
  shows "\<exists>d. fst (calcBackoff rt b n w) = Some d \<and> 0 \<le> d
      \<and> (b * 2 ^ n < 2 ^ 63 \<longrightarrow> d < b * 2 ^ n)
      \<and> (wrap64 (b * shl64 n) \<le> 0 \<longrightarrow> d < b)"
proof -
  let ?e = "if wrap64 (b * shl64 n) \<le> 0 then b else wrap64 (b * shl64 n)"
  have e: "0 < ?e" using assms by simp
  obtain r w1 where dr: "Draw rt w = (r, w1)" by force
  have "fst (calcBackoff rt b n w) = Some (int r mod ?e)"
    using e dr by (auto simp: calcBackoff_def Int63n_def Let_def)
  moreover have "0 \<le> int r mod ?e" and "int r mod ?e < ?e" using e by simp_all
  moreover have "?e = b * 2 ^ n" if fit: "b * 2 ^ n < 2 ^ 63"
  proof -
    have "(2 :: int) ^ n \<le> b * 2 ^ n" using assms by simp
    with fit have "(2 :: int) ^ n < 2 ^ 63" by (rule le_less_trans [rotated])
    moreover have "- (2 ^ 63) \<le> (2 :: int) ^ n" by (rule order_trans [of _ 0]) simp_all
    ultimately have "shl64 n = 2 ^ n" unfolding shl64_def by (intro wrap64_id)
    moreover have "wrap64 (b * 2 ^ n) = b * 2 ^ n"
      using fit assms order_trans [of "- (2 ^ 63)" 0 "b * 2 ^ n"] by (intro wrap64_id) simp_all
    moreover have "0 < b * 2 ^ n" using assms by simp
    ultimately show ?thesis by (simp add: not_le)
  qed
  ultimately show ?thesis by auto
qed

text \<open>A run-time environment for examples: no time passes, every draw is 3, nothing is cancelled.\<close>

definition demo_rt :: "'w runtime" where
  "demo_rt = \<lparr>Now = (\<lambda>_. 0), Canceled = (\<lambda>_. False), CancelCtx = (\<lambda>w. w),
     SelectAfter = (\<lambda>_ _ w. (False, w)), Draw = (\<lambda>w. (3, w))\<rparr>"

theorem calcBackoff_bounds_witness:
  "\<exists>d. fst (calcBackoff demo_rt 10 2 ()) = Some d \<and> 0 \<le> d \<and> d < 40"
  using calcBackoff_bounds [of 10 demo_rt 2 "()"] by auto

section \<open>Behaviour of the loop\<close>

text \<open>A property of the world that every attempt and every pause keeps is kept by the loop.\<close>

lemma retry_loop_invariant:
  assumes "\<And>w r w'. I w \<Longrightarrow> fn w = (r, w') \<Longrightarrow> I w'"
    and "\<And>w. I w \<Longrightarrow> I (snd (Draw rt w))"
    and "\<And>d w. I w \<Longrightarrow> I (snd (SelectAfter rt ctx d w))"
  shows "I w \<Longrightarrow> I (snd (retry_loop rt ctx b fn k a w))"
proof (induction k arbitrary: a w)
  case 0
  then show ?case by simp
next
  case (Suc k)
  have bo: "I (snd (calcBackoff rt b a w1))" if "I w1" for w1
    using that assms(2) [OF that] by (auto simp: calcBackoff_def Int63n_def Let_def split: prod.splits)
  have sl: "I (snd (sleepCtx rt ctx d w1))" if "I w1" for d w1
    using that assms(3) [OF that, of d] by (auto simp: sleepCtx_def split: prod.splits bool.splits)
  obtain r w1 where f: "fn w = (r, w1)" by force
  have i1: "I w1" using assms(1) [OF Suc.prems f] .
  obtain d w2 where c: "calcBackoff rt b a w1 = (d, w2)" by force
  have i2: "I w2" using bo [OF i1] c by simp
  obtain e w3 where s: "sleepCtx rt ctx (the d) w2 = (e, w3)" by force
  have i3: "I w3" using sl [OF i2] s by (metis snd_conv)
  show ?case
    using Suc.prems f c s i1 i2 i3 Suc.IH [OF i1] Suc.IH [OF i3]
    by (auto split: option.splits)
qed

text \<open>
  \<open>retried k w v\<close>: from \<open>w\<close> to \<open>v\<close> the loop has gone round \<open>k\<close> times. Each time the context was alive, \<open>fn\<close>
  failed with an error that may be retried, and the pause that the backoff asked for went by.
\<close>

inductive retried ::
  "'w runtime \<Rightarrow> go_context \<Rightarrow> duration \<Rightarrow> ('w \<Rightarrow> error option \<times> 'w) \<Rightarrow> nat \<Rightarrow> 'w \<Rightarrow> 'w \<Rightarrow> bool"
  for rt ctx b fn
where
  not_yet: "retried rt ctx b fn 0 w w"
| again: "retried rt ctx b fn k w v \<Longrightarrow> ctxErr rt ctx v = None \<Longrightarrow> fn v = (Some e, v1) \<Longrightarrow> IsRetryable e \<Longrightarrow>
    calcBackoff rt b k v1 = (Some d, v2) \<Longrightarrow> sleepCtx rt ctx d v2 = (None, v3) \<Longrightarrow> retried rt ctx b fn (Suc k) w v3"

text \<open>
  The ways to end in round \<open>k\<close> of \<open>n\<close>: the context is done; the call succeeds, fails for good, or was the
  last one; or the context ends the pause.
\<close>

inductive retry_ends ::
  "'w runtime \<Rightarrow> go_context \<Rightarrow> duration \<Rightarrow> ('w \<Rightarrow> error option \<times> 'w) \<Rightarrow> nat \<Rightarrow> nat \<Rightarrow> 'w \<Rightarrow> error option \<Rightarrow> 'w \<Rightarrow> bool"
  for rt ctx b fn n k v
where
  ctx_done: "ctxErr rt ctx v = Some e \<Longrightarrow> retry_ends rt ctx b fn n k v (Some e) v"
| success: "ctxErr rt ctx v = None \<Longrightarrow> fn v = (None, v') \<Longrightarrow> retry_ends rt ctx b fn n k v None v'"
| for_good: "ctxErr rt ctx v = None \<Longrightarrow> fn v = (Some e, v') \<Longrightarrow> \<not> IsRetryable e \<Longrightarrow> retry_ends rt ctx b fn n k v (Some e) v'"
| exhausted: "ctxErr rt ctx v = None \<Longrightarrow> fn v = (Some e, v') \<Longrightarrow> IsRetryable e \<Longrightarrow> Suc k = n \<Longrightarrow>
    retry_ends rt ctx b fn n k v (Some (RetryableError ErrRetryExhausted)) v'"
| interrupted: "ctxErr rt ctx v = None \<Longrightarrow> fn v = (Some e, v1) \<Longrightarrow> IsRetryable e \<Longrightarrow> Suc k < n \<Longrightarrow>
    calcBackoff rt b k v1 = (Some d, v2) \<Longrightarrow> sleepCtx rt ctx d v2 = (Some e', v') \<Longrightarrow> retry_ends rt ctx b fn n k v (Some e') v'"

lemma retry_loop_path:
  assumes "0 < b" and "retried rt ctx b fn a w v"
  shows "\<exists>r w'. retry_loop rt ctx b fn (Suc m) a v = (Returned r, w')
     \<and> (\<exists>k u. a \<le> k \<and> k < a + Suc m \<and> retried rt ctx b fn k w u \<and> retry_ends rt ctx b fn (a + Suc m) k u r w')"
  using assms(2)
proof (induction m arbitrary: a v)
  case 0
  obtain r w1 where f: "fn v = (r, w1)" by force
  show ?case
    using f 0 by (cases "ctxErr rt ctx v"; cases r; cases "IsRetryable (the r)")
      (auto intro!: exI [of _ a] exI [of _ v] intro: retry_ends.intros)
next
  case (Suc m)
  obtain r w1 where f: "fn v = (r, w1)" by force
  obtain d w2 where c: "calcBackoff rt b a w1 = (Some d, w2)" using calcBackoff_Some [OF assms(1), of rt a w1] by blast
  obtain e w3 where s: "sleepCtx rt ctx d w2 = (e, w3)" by force
  show ?case
  proof (cases "ctxErr rt ctx v = None \<and> (\<exists>x. r = Some x \<and> IsRetryable x) \<and> e = None")
    case True
    then have "retried rt ctx b fn (Suc a) w w3" using f c s Suc.prems by (auto intro: retried.again)
    from Suc.IH [OF this] obtain r' w' k u where "retry_loop rt ctx b fn (Suc m) (Suc a) w3 = (Returned r', w')"
      "Suc a \<le> k" "k < Suc a + Suc m" "retried rt ctx b fn k w u" "retry_ends rt ctx b fn (Suc a + Suc m) k u r' w'" by blast
    then show ?thesis using True f c s by (auto intro!: exI [of _ k] exI [of _ u] simp del: retry_loop.simps simp: retry_loop.simps(2) [of _ _ _ _ "Suc m"])
  next
    case False
    have "\<exists>r' w'. retry_loop rt ctx b fn (Suc (Suc m)) a v = (Returned r', w')
        \<and> retry_ends rt ctx b fn (a + Suc (Suc m)) a v r' w'"
      using False f c s
      by (cases "ctxErr rt ctx v"; cases r; cases "IsRetryable (the r)"; cases e)
        (auto intro: retry_ends.intros simp: retry_loop.simps(2) [of _ _ _ _ "Suc m"] simp del: retry_loop.simps)
    then show ?thesis using Suc.prems by (metis le_refl less_add_same_cancel1 zero_less_Suc)
  qed
qed

lemma retry_loop_returns:
  assumes "0 < b"
  shows "\<exists>r w'. retry_loop rt ctx b fn k a w = (Returned r, w')"
proof (induction k arbitrary: a w)
  case 0
  then show ?case by simp
next
  case (Suc k)
  obtain r w1 where f: "fn w = (r, w1)" by force
  obtain d w2 where c: "calcBackoff rt b a w1 = (Some d, w2)"
    using calcBackoff_Some [OF assms, of rt a w1] by blast
  obtain e w3 where "sleepCtx rt ctx d w2 = (e, w3)" by force
  with f c show ?case using Suc.IH [of "Suc a" w1] Suc.IH [of "Suc a" w3]
    by (auto split: option.splits)
qed

text \<open>
  C38: with a positive base delay \<open>WithRetry\<close> returns. Without attempts it returns the exhaustion error and does
  nothing. Otherwise it goes round some \<open>k < maxAttempts\<close> times, in each round with a live context, a retryable
  failure of \<open>fn\<close>, the backoff of that round and an undisturbed pause, and ends in the round after them in one of
  five ways: the context is done before the call, and its error is returned; the call succeeds, and nil is
  returned; it fails for good, and its error is returned; it fails retryably as the last attempt, and the exhaustion
  error is returned; or the context ends the pause. So \<open>fn\<close> is called once in each round, never after
  a success, a failure for good or the end of the context, and at most \<open>maxAttempts\<close> times.
\<close>

theorem WithRetry_outcome:
  assumes "0 < b"
  shows "\<exists>r w'. WithRetry rt ctx n b fn w = (Returned r, w') \<and>
     (if n \<le> 0 then r = Some (RetryableError ErrRetryExhausted) \<and> w' = w
      else \<exists>k v. k < nat n \<and> retried rt ctx b fn k w v \<and> retry_ends rt ctx b fn (nat n) k v r w')"
proof (cases "nat n")
  case 0
  then show ?thesis by (simp add: WithRetry_def)
next
  case (Suc m)
  then have "\<not> n \<le> 0" and "WithRetry rt ctx n b fn w = retry_loop rt ctx b fn (Suc m) 0 w" by (simp_all add: WithRetry_def)
  with retry_loop_path [OF assms retried.not_yet [of rt ctx b fn w], of m] Suc show ?thesis by auto
qed

text \<open>A function for examples: it fails retryably until the counter reaches 2.\<close>

definition demo_fn :: "nat \<Rightarrow> error option \<times> nat" where
  "demo_fn n = (if n < 1 then Some (RetryableError (NewError ''temporary error'')) else None, Suc n)"

theorem WithRetry_outcome_witness:
  "\<exists>r w' k v. WithRetry demo_rt Background 3 10 demo_fn 0 = (Returned r, w') \<and> r = None \<and> w' = 2
     \<and> retried demo_rt Background 10 demo_fn k 0 v \<and> demo_fn v = (None, 2)"
proof -
  have run: "WithRetry demo_rt Background 3 10 demo_fn 0 = (Returned None, 2)"
    by (simp add: WithRetry_def demo_fn_def demo_rt_def numeral_eq_Suc calcBackoff_def Int63n_def
      sleepCtx_def shl64_def wrap64_def Let_def)
  then obtain k v where "retried demo_rt Background 10 demo_fn k 0 v" "retry_ends demo_rt Background 10 demo_fn (nat 3) k v None 2"
    using WithRetry_outcome [of 10 demo_rt Background 3 demo_fn 0] by auto
  then show ?thesis using run by (auto elim: retry_ends.cases)
qed

text \<open>Counting the calls: at most one per attempt, exactly one when no attempt ends the loop.\<close>

lemma calcBackoff_calls:
  "(\<And>w. calls (snd (Draw rt w)) = calls w) \<Longrightarrow> calls (snd (calcBackoff rt b a w)) = calls w"
  by (auto simp: calcBackoff_def Int63n_def Let_def split: prod.splits) (metis snd_conv)+

lemma sleepCtx_calls:
  "(\<And>d w. calls (snd (SelectAfter rt ctx d w)) = calls w) \<Longrightarrow> calls (snd (sleepCtx rt ctx d w)) = calls w"
  by (auto simp: sleepCtx_def split: prod.splits bool.splits) (metis snd_conv)+

lemma retry_loop_calls_le:
  assumes fn: "\<And>w. calls (snd (fn w)) = Suc (calls w)"
    and dr: "\<And>w. calls (snd (Draw rt w)) = calls w"
    and sel: "\<And>d w. calls (snd (SelectAfter rt ctx d w)) = calls w"
  shows "calls (snd (retry_loop rt ctx b fn k a w)) \<le> calls w + k"
proof (induction k arbitrary: a w)
  case 0
  then show ?case by simp
next
  case (Suc k)
  obtain r w1 where f: "fn w = (r, w1)" by force
  obtain d w2 where c: "calcBackoff rt b a w1 = (d, w2)" by force
  obtain e w3 where s: "sleepCtx rt ctx (the d) w2 = (e, w3)" by force
  have "calls w1 = Suc (calls w)" using fn [of w] f by simp
  moreover have "calls w2 = calls w1" using calcBackoff_calls [of calls rt, OF dr, of b a w1] c by simp
  moreover have "calls w3 = calls w2"
    using sleepCtx_calls [of calls rt ctx, OF sel, of "the d" w2] s by simp
  ultimately show ?case using f c s Suc.IH [of "Suc a" w1] Suc.IH [of "Suc a" w3]
    by (auto split: option.splits)
qed

lemma retry_loop_exhausts:
  assumes fn: "\<And>w. calls (snd (fn w)) = Suc (calls w)"
    and dr: "\<And>w. calls (snd (Draw rt w)) = calls w"
    and sel: "\<And>d w. calls (snd (SelectAfter rt ctx d w)) = calls w"
    and "0 < b" and always: "\<forall>w. \<exists>e. fst (fn w) = Some e \<and> IsRetryable e"
    and alive: "\<forall>w. ctxErr rt ctx w = None"
  shows "\<exists>w'. retry_loop rt ctx b fn k a w = (Returned (Some (RetryableError ErrRetryExhausted)), w')
    \<and> calls w' = calls w + k"
proof (induction k arbitrary: a w)
  case 0
  then show ?case by simp
next
  case (Suc k)
  obtain e w1 where f: "fn w = (Some e, w1)" "IsRetryable e" using always by (metis prod.collapse)
  obtain d w2 where c: "calcBackoff rt b a w1 = (Some d, w2)"
    using calcBackoff_Some [OF \<open>0 < b\<close>, of rt a w1] by blast
  obtain t w3 where s: "sleepCtx rt ctx d w2 = (t, w3)" by force
  have t: "t = None" using alive s by (auto simp: sleepCtx_def split: prod.splits bool.splits)
  have "calls w1 = Suc (calls w)" using fn [of w] f by simp
  moreover have "calls w2 = calls w1" using calcBackoff_calls [of calls rt, OF dr, of b a w1] c by simp
  moreover have "calls w3 = calls w2"
    using sleepCtx_calls [of calls rt ctx, OF sel, of d w2] s by simp
  moreover have "retry_loop rt ctx b fn (Suc k) a w =
      retry_loop rt ctx b fn k (Suc a) (if k = 0 then w1 else w3)"
    using f c s t alive by simp
  ultimately show ?case using Suc.IH [of "Suc a" "if k = 0 then w1 else w3"] by auto
qed

lemma WithRetry_dead:
  "ctxErr rt ctx w = Some e \<Longrightarrow> 0 < n \<Longrightarrow> WithRetry rt ctx n b fn w = (Returned (Some e), w)"
  by (cases "nat n") (simp_all add: WithRetry_def)

text \<open>
  \<open>WithRetry\<close> calls \<open>fn\<close> at most \<open>maxAttempts\<close> times (\<open>calls\<close> counts the calls in the world).
  It calls it exactly \<open>maxAttempts\<close> times when every call fails retryably and the context stays
  alive, and then returns the exhaustion error; it does not call it at all when the context is
  already done.
\<close>

theorem WithRetry_calls:
  fixes calls :: "'w \<Rightarrow> nat"
  assumes "\<And>w. calls (snd (fn w)) = Suc (calls w)"
    and "\<And>w. calls (snd (Draw rt w)) = calls w"
    and "\<And>d w. calls (snd (SelectAfter rt ctx d w)) = calls w"
    and "0 < b"
  shows "calls (snd (WithRetry rt ctx n b fn w)) \<le> calls w + nat n
    \<and> ((\<forall>w. \<exists>e. fst (fn w) = Some e \<and> IsRetryable e) \<longrightarrow> (\<forall>w. ctxErr rt ctx w = None) \<longrightarrow>
         (\<exists>w'. WithRetry rt ctx n b fn w = (Returned (Some (RetryableError ErrRetryExhausted)), w')
            \<and> calls w' = calls w + nat n))
    \<and> (\<forall>e. ctxErr rt ctx w = Some e \<longrightarrow> 0 < n \<longrightarrow> WithRetry rt ctx n b fn w = (Returned (Some e), w))"
  using retry_loop_calls_le [of calls fn rt ctx, OF assms(1-3), of b "nat n" 0 w]
    retry_loop_exhausts [of calls fn rt ctx b, OF assms, of "nat n" 0 w]
    WithRetry_dead [of rt ctx w _ n b fn]
  by (simp add: WithRetry_def)

theorem WithRetry_calls_witness:
  "snd (WithRetry demo_rt Background 3 10
      (\<lambda>k. (Some (RetryableError (NewError ''temporary error'')), Suc k)) 0) = 3"
proof -
  have "(id :: nat \<Rightarrow> nat) (snd (WithRetry demo_rt Background 3 10
      (\<lambda>k. (Some (RetryableError (NewError ''temporary error'')), Suc k)) 0)) = id 0 + nat 3"
    using WithRetry_calls [where calls = id and rt = demo_rt and ctx = Background and n = 3 and b = 10
        and fn = "\<lambda>k. (Some (RetryableError (NewError ''temporary error'')), Suc k)" and w = 0]
    by (simp add: demo_rt_def)
  then show ?thesis by simp
qed

end
