(* ===== verification/Go_Strings.thy ===== *)
theory Go_Strings
  imports Prelude
begin

text \<open>
  The parts of Go's \<^verbatim>\<open>strings\<close>, \<^verbatim>\<open>fmt\<close> and \<^verbatim>\<open>hash/crc32\<close> packages that the program calls:
  prefix, suffix and trimming functions, the verbs \<^verbatim>\<open>%d\<close>, \<^verbatim>\<open>%06d\<close>, \<^verbatim>\<open>%08x\<close> of \<^verbatim>\<open>Sprintf\<close>, the
  verbs \<^verbatim>\<open>%d\<close> and \<^verbatim>\<open>%s\<close> and literal text of \<^verbatim>\<open>Sscanf\<close>, and the IEEE CRC-32. White space is the
  ASCII white space; the multi-byte Unicode spaces are not treated as space.
  The lemmas show that scanning inverts printing and that checksum strings are injective.
\<close>

section \<open>Package strings\<close>

definition HasPrefix :: "string \<Rightarrow> string \<Rightarrow> bool" where
  "HasPrefix s p = (take (length p) s = p)"

definition HasSuffix :: "string \<Rightarrow> string \<Rightarrow> bool" where
  "HasSuffix s p = (length p \<le> length s \<and> drop (length s - length p) s = p)"

definition TrimPrefix :: "string \<Rightarrow> string \<Rightarrow> string" where
  "TrimPrefix s p = (if HasPrefix s p then drop (length p) s else s)"

definition is_space :: "char \<Rightarrow> bool" where
  "is_space c = (c = CHR '' '' \<or> (9 \<le> (of_char c :: nat) \<and> (of_char c :: nat) \<le> 13))"

definition TrimSpace :: "string \<Rightarrow> string" where
  "TrimSpace s = rev (dropWhile is_space (rev (dropWhile is_space s)))"

text \<open>\<open>strings.LastIndex(s, "/")\<close>, \<open>-1\<close> when there is none.\<close>

definition LastIndex :: "string \<Rightarrow> char \<Rightarrow> int" where
  "LastIndex s c =
     (if c \<in> set s then int (length s) - 1 - int (length (takeWhile (\<lambda>x. x \<noteq> c) (rev s))) else - 1)"

lemma HasPrefix_append [simp]: "HasPrefix (p @ s) p"
  by (simp add: HasPrefix_def)

lemma HasPrefix_iff: "HasPrefix s p \<longleftrightarrow> (\<exists>r. s = p @ r)"
  unfolding HasPrefix_def by (metis append_eq_conv_conj)

lemma HasSuffix_append [simp]: "HasSuffix (s @ p) p"
  by (simp add: HasSuffix_def)

lemma HasSuffix_iff: "HasSuffix s p \<longleftrightarrow> (\<exists>r. s = r @ p)"
  unfolding HasSuffix_def
  by (metis append_eq_conv_conj append_take_drop_id diff_diff_cancel length_append
      length_drop le_add2 diff_le_self add_diff_cancel_right')

lemma TrimPrefix_append [simp]: "TrimPrefix (p @ s) p = s"
  by (simp add: TrimPrefix_def)

lemma TrimSpace_id:
  "s = [] \<or> \<not> is_space (hd s) \<and> \<not> is_space (last s) \<Longrightarrow> TrimSpace s = s"
  by (auto simp: TrimSpace_def dropWhile_hd_False hd_rev)

lemma TrimSpace_newline:
  assumes "s \<noteq> []" and "\<not> is_space (hd s)" and "\<not> is_space (last s)"
  shows "TrimSpace (s @ [CHR 0x0A]) = s"
proof -
  have "dropWhile is_space (s @ [CHR 0x0A]) = s @ [CHR 0x0A]"
    using assms by (intro dropWhile_hd_False) simp
  moreover have "dropWhile is_space (rev (s @ [CHR 0x0A])) = rev s"
    using assms by (simp add: is_space_def dropWhile_hd_False hd_rev)
  ultimately show ?thesis by (simp add: TrimSpace_def)
qed

section \<open>Decimal numbers\<close>

definition is_digit :: "char \<Rightarrow> bool" where
  "is_digit c = (48 \<le> (of_char c :: nat) \<and> (of_char c :: nat) \<le> 57)"

definition digit_char :: "nat \<Rightarrow> char" where
  "digit_char d = ''0123456789'' ! d"

fun digits10 :: "nat \<Rightarrow> string" where
  "digits10 n = (if n < 10 then [digit_char n] else digits10 (n div 10) @ [digit_char (n mod 10)])"

declare digits10.simps [simp del]

definition dec_value :: "string \<Rightarrow> nat" where
  "dec_value s = foldl (\<lambda>a c. 10 * a + (of_char c - 48)) 0 s"

lemma of_digit_char: "d < 10 \<Longrightarrow> (of_char (digit_char d) :: nat) = 48 + d"
proof -
  assume "d < 10"
  then have "d \<in> set [0, 1, 2, 3, 4, 5, 6, 7, 8, 9]" by simp presburger
  moreover have "\<forall>d \<in> set [0, 1, 2, 3, 4, 5, 6, 7, 8, 9]. (of_char (digit_char d) :: nat) = 48 + d"
    by (simp add: digit_char_def)
  ultimately show ?thesis by (rule bspec [rotated])
qed

lemma is_digit_digit_char [simp]: "d < 10 \<Longrightarrow> is_digit (digit_char d)"
  by (simp add: is_digit_def of_digit_char)

lemma is_digit_not_space: "is_digit c \<Longrightarrow> \<not> is_space c"
  by (auto simp: is_digit_def is_space_def)

lemma digits10_not_Nil [simp]: "digits10 n \<noteq> []"
  by (subst digits10.simps) simp

lemma digits10_digits: "c \<in> set (digits10 n) \<Longrightarrow> is_digit c"
proof (induction n rule: digits10.induct)
  case (1 n)
  then show ?case by (subst (asm) (2) digits10.simps) (auto split: if_splits)
qed

lemma dec_value_append_digit: "dec_value (s @ [c]) = 10 * dec_value s + (of_char c - 48)"
  by (simp add: dec_value_def)

lemma dec_value_digits10: "dec_value (digits10 n) = n"
proof (induction n rule: digits10.induct)
  case (1 n)
  show ?case
  proof (cases "n < 10")
    case True
    then show ?thesis by (subst digits10.simps) (simp add: dec_value_def of_digit_char)
  next
    case False
    with 1 have "dec_value (digits10 (n div 10)) = n div 10" by simp
    with False show ?thesis
      by (subst digits10.simps) (simp add: dec_value_append_digit of_digit_char)
  qed
qed

lemma dec_value_zeros: "dec_value (replicate k (CHR ''0'') @ s) = dec_value s"
  by (induction k) (simp_all add: dec_value_def)

text \<open>\<open>%d\<close> and \<open>%06d\<close>: the width counts the sign, and zeros are inserted after it.\<close>

definition fmt_d :: "int \<Rightarrow> string" where
  "fmt_d n = (if n < 0 then CHR ''-'' # digits10 (nat (- n)) else digits10 (nat n))"

definition pad0 :: "nat \<Rightarrow> string \<Rightarrow> string" where
  "pad0 w s = replicate (w - length s) (CHR ''0'') @ s"

definition fmt_06d :: "int \<Rightarrow> string" where
  "fmt_06d n = (if n < 0 then CHR ''-'' # pad0 5 (digits10 (nat (- n))) else pad0 6 (digits10 (nat n)))"

lemma pad0_digits: "c \<in> set (pad0 w (digits10 n)) \<Longrightarrow> is_digit c"
  by (auto simp: pad0_def is_digit_def dest: digits10_digits)

lemma pad0_not_Nil [simp]: "pad0 w (digits10 n) \<noteq> []"
  by (simp add: pad0_def)

lemma dec_value_pad0 [simp]: "dec_value (pad0 w (digits10 n)) = n"
  by (simp add: pad0_def dec_value_zeros dec_value_digits10)

section \<open>Sscanf\<close>

text \<open>
  \<open>ss.SkipSpace\<close> of \<^verbatim>\<open>fmt/scan.go\<close> in the mode of \<open>Sscanf\<close>: white space is skipped and a newline
  is an error (\<open>None\<close>).
\<close>

fun skip_space :: "string \<Rightarrow> string option" where
  "skip_space [] = Some []"
| "skip_space (c # cs) =
     (if c = CHR 0x0A then None else if is_space c then skip_space cs else Some (c # cs))"

text \<open>Verb \<open>%d\<close> into a 64-bit integer: an optional sign, at least one digit, and a range check.\<close>

definition scan_sign :: "string \<Rightarrow> bool \<times> string" where
  "scan_sign s = (case s of
     c # cs \<Rightarrow> if c = CHR ''-'' then (True, cs) else if c = CHR ''+'' then (False, cs) else (False, s)
   | [] \<Rightarrow> (False, s))"

definition scan_d :: "string \<Rightarrow> (int \<times> string) option" where
  "scan_d s = (case skip_space s of None \<Rightarrow> None | Some s1 \<Rightarrow>
     (case scan_sign s1 of (neg, s2) \<Rightarrow>
        (let ds = takeWhile is_digit s2;
             n = (if neg then - int (dec_value ds) else int (dec_value ds))
         in if ds = [] \<or> n < - (2 ^ 63) \<or> 2 ^ 63 \<le> n then None
            else Some (n, dropWhile is_digit s2))))"

text \<open>Verb \<open>%s\<close>: skip white space, then the longest run without white space, which is not empty.\<close>

definition scan_s :: "string \<Rightarrow> (string \<times> string) option" where
  "scan_s s = (case skip_space s of None \<Rightarrow> None | Some s1 \<Rightarrow>
     if s1 = [] then None
     else Some (takeWhile (\<lambda>c. \<not> is_space c) s1, dropWhile (\<lambda>c. \<not> is_space c) s1))"

text \<open>Literal text of the format (without spaces or \<^verbatim>\<open>%\<close>) has to match exactly.\<close>

definition scan_lit :: "string \<Rightarrow> string \<Rightarrow> string option" where
  "scan_lit l s = (if HasPrefix s l then Some (drop (length l) s) else None)"

lemma skip_space_id: "s = [] \<or> \<not> is_space (hd s) \<Longrightarrow> skip_space s = Some s"
  by (cases s) (auto simp: is_space_def)

lemma scan_lit_append [simp]: "scan_lit l (l @ s) = Some s"
  by (simp add: scan_lit_def)

lemma scan_s_word:
  "s \<noteq> [] \<Longrightarrow> (\<forall>c \<in> set s. \<not> is_space c) \<Longrightarrow> scan_s s = Some (s, [])"
  by (auto simp: scan_s_def skip_space_id takeWhile_eq_all_conv dropWhile_eq_Nil_conv)

lemma scan_d_digits:
  assumes "ds \<noteq> []" and digits: "\<forall>c \<in> set ds. is_digit c" and "r = [] \<or> \<not> is_digit (hd r)"
    and "int (dec_value ds) < 2 ^ 63"
  shows "scan_d (ds @ r) = Some (int (dec_value ds), r)"
    and "scan_d (CHR ''-'' # ds @ r) = Some (- int (dec_value ds), r)"
proof -
  obtain c cs where ds: "ds = c # cs" using assms(1) by (cases ds) auto
  with digits have c: "is_digit c" by simp
  then have sign: "c \<noteq> CHR ''-''" "c \<noteq> CHR ''+''" by (auto simp: is_digit_def)
  have split: "takeWhile is_digit (ds @ r) = ds \<and> dropWhile is_digit (ds @ r) = r"
    using assms by (intro takeWhile_dropWhile_eq) auto
  have skip: "skip_space (ds @ r) = Some (ds @ r)"
    using ds c by (intro skip_space_id) (auto dest: is_digit_not_space)
  have "scan_sign (ds @ r) = (False, ds @ r)"
    using ds sign by (simp add: scan_sign_def)
  with skip split assms show "scan_d (ds @ r) = Some (int (dec_value ds), r)"
    by (auto simp: scan_d_def Let_def)
  show "scan_d (CHR ''-'' # ds @ r) = Some (- int (dec_value ds), r)"
    using split assms by (auto simp: scan_d_def scan_sign_def is_space_def Let_def)
qed

lemma scan_d_fmt_06d:
  assumes "- (2 ^ 63) < n" and "n < 2 ^ 63" and r: "r = [] \<or> \<not> is_digit (hd r)"
  shows "scan_d (fmt_06d n @ r) = Some (n, r)"
proof (cases "n < 0")
  case True
  have "scan_d (CHR ''-'' # pad0 5 (digits10 (nat (- n))) @ r)
      = Some (- int (dec_value (pad0 5 (digits10 (nat (- n))))), r)"
    using assms True by (intro scan_d_digits) (auto intro: pad0_digits)
  with True show ?thesis by (simp add: fmt_06d_def)
next
  case False
  have "scan_d (pad0 6 (digits10 (nat n)) @ r)
      = Some (int (dec_value (pad0 6 (digits10 (nat n)))), r)"
    using assms False by (intro scan_d_digits) (auto intro: pad0_digits)
  with False show ?thesis by (simp add: fmt_06d_def)
qed

lemma scan_d_fmt_d:
  assumes "0 \<le> n" and "n < 2 ^ 63" and r: "r = [] \<or> \<not> is_digit (hd r)"
  shows "scan_d (fmt_d n @ r) = Some (n, r)"
proof -
  have "scan_d (digits10 (nat n) @ r) = Some (int (dec_value (digits10 (nat n))), r)"
    using assms by (intro scan_d_digits) (auto intro: digits10_digits simp: dec_value_digits10)
  then show ?thesis using assms by (simp add: fmt_d_def dec_value_digits10)
qed

lemma fmt_06d_chars: "c \<in> set (fmt_06d n) \<Longrightarrow> is_digit c \<or> c = CHR ''-''"
  by (auto simp: fmt_06d_def split: if_splits dest: pad0_digits)

lemma fmt_06d_not_Nil [simp]: "fmt_06d n \<noteq> []"
  by (simp add: fmt_06d_def)

section \<open>Checksums\<close>

text \<open>
  \<open>crc32.ChecksumIEEE\<close>: the reflected CRC-32 with polynomial \<open>0xEDB88320\<close>, one byte at a time.
  \<open>fmt_08x\<close> is the verb \<^verbatim>\<open>%08x\<close> on a \<^verbatim>\<open>uint32\<close>.
\<close>

definition crc32_step :: "32 word \<Rightarrow> 32 word" where
  "crc32_step c = (if c AND 1 = 1 then drop_bit 1 c XOR 0xEDB88320 else drop_bit 1 c)"

definition crc32_byte :: "32 word \<Rightarrow> char \<Rightarrow> 32 word" where
  "crc32_byte c b =
     crc32_step (crc32_step (crc32_step (crc32_step
       (crc32_step (crc32_step (crc32_step (crc32_step (c XOR of_char b))))))))"

definition ChecksumIEEE :: "bytes \<Rightarrow> 32 word" where
  "ChecksumIEEE d = NOT (foldl crc32_byte 0xFFFFFFFF d)"

definition hex_char :: "nat \<Rightarrow> char" where
  "hex_char d = ''0123456789abcdef'' ! d"

definition fmt_08x :: "32 word \<Rightarrow> string" where
  "fmt_08x w = map (\<lambda>i. hex_char (unat w div 16 ^ i mod 16)) [7, 6, 5, 4, 3, 2, 1, 0]"

lemma of_hex_char: "d < 16 \<Longrightarrow> (of_char (hex_char d) :: nat) = (if d < 10 then 48 + d else 87 + d)"
proof -
  assume "d < 16"
  then have "d \<in> set [0, 1, 2, 3, 4, 5, 6, 7, 8, 9, 10, 11, 12, 13, 14, 15]"
    by simp presburger
  moreover have "\<forall>d \<in> set [0, 1, 2, 3, 4, 5, 6, 7, 8, 9, 10, 11, 12, 13, 14, 15].
      (of_char (hex_char d) :: nat) = (if d < 10 then 48 + d else 87 + d)"
    by (simp add: hex_char_def)
  ultimately show ?thesis by (rule bspec [rotated])
qed

lemma hex_char_inj:
  assumes "a < 16" and "b < 16" and "hex_char a = hex_char b"
  shows "a = b"
proof -
  have "(of_char (hex_char a) :: nat) = of_char (hex_char b)" using assms(3) by simp
  then show ?thesis
    unfolding of_hex_char [OF assms(1)] of_hex_char [OF assms(2)] by (simp split: if_splits)
qed

lemma hex_char_not_space: "d < 16 \<Longrightarrow> \<not> is_space (hex_char d)"
proof -
  assume d: "d < 16"
  have "hex_char d \<noteq> CHR '' ''"
  proof
    assume "hex_char d = CHR '' ''"
    then have "(of_char (hex_char d) :: nat) = 32" by simp
    then show False unfolding of_hex_char [OF d] by (simp split: if_splits)
  qed
  then show ?thesis unfolding is_space_def of_hex_char [OF d] by (simp split: if_splits)
qed

lemma fmt_08x_not_space: "c \<in> set (fmt_08x w) \<Longrightarrow> \<not> is_space c"
  by (auto simp: fmt_08x_def hex_char_not_space)

lemma TrimSpace_fmt_08x [simp]: "TrimSpace (fmt_08x w) = fmt_08x w"
proof (rule TrimSpace_id)
  have "fmt_08x w \<noteq> []" by (simp add: fmt_08x_def)
  then show "fmt_08x w = [] \<or> \<not> is_space (hd (fmt_08x w)) \<and> \<not> is_space (last (fmt_08x w))"
    using fmt_08x_not_space hd_in_set last_in_set by blast
qed

lemma nibbles_inj:
  fixes m n :: nat
  assumes "m < 16 ^ k" and "n < 16 ^ k" and "\<forall>i < k. m div 16 ^ i mod 16 = n div 16 ^ i mod 16"
  shows "m = n"
  using assms
proof (induction k arbitrary: m n)
  case 0
  then show ?case by simp
next
  case (Suc k)
  have "m div 16 = n div 16"
  proof (rule Suc.IH)
    show "m div 16 < 16 ^ k" and "n div 16 < 16 ^ k" using Suc.prems by simp_all
    show "\<forall>i < k. m div 16 div 16 ^ i mod 16 = n div 16 div 16 ^ i mod 16"
      using Suc.prems(3) by (auto simp: div_mult2_eq dest: spec[of _ "Suc _"])
  qed
  moreover have "m mod 16 = n mod 16"
    using Suc.prems(3) by (auto dest: spec[of _ 0])
  ultimately show ?case by (metis div_mult_mod_eq)
qed

text \<open>Two checksum files have the same text exactly when the checksums are equal.\<close>

lemma fmt_08x_inj: "fmt_08x v = fmt_08x w \<longleftrightarrow> v = w"
proof
  assume eq: "fmt_08x v = fmt_08x w"
  have d: "unat v div 16 ^ i mod 16 = unat w div 16 ^ i mod 16" if "i < 8" for i
  proof -
    have "i \<in> set [7, 6, 5, 4, 3, 2, 1, 0 :: nat]" using that by auto
    moreover have "\<forall>i \<in> set [7, 6, 5, 4, 3, 2, 1, 0 :: nat].
        hex_char (unat v div 16 ^ i mod 16) = hex_char (unat w div 16 ^ i mod 16)"
      using eq unfolding fmt_08x_def map_eq_conv .
    ultimately have "hex_char (unat v div 16 ^ i mod 16) = hex_char (unat w div 16 ^ i mod 16)"
      by blast
    then show ?thesis by (rule hex_char_inj [rotated 2]) simp_all
  qed
  have "unat v = unat w"
  proof (rule nibbles_inj [of _ 8])
    show "unat v < 16 ^ 8" and "unat w < 16 ^ 8"
      using unsigned_less [of v] unsigned_less [of w] by simp_all
  qed (use d in blast)
  then show "v = w" by (simp only: word_unat_eq_iff)
qed simp

section \<open>Evaluation\<close>

lemma replicate_numeral: "replicate (numeral k) x = x # replicate (pred_numeral k) x"
  by (simp add: numeral_eq_Suc)

lemmas fmt_eval [fmt_simps] =
  fmt_06d_def fmt_d_def pad0_def digits10.simps digit_char_def replicate_numeral
  scan_d_def scan_sign_def scan_s_def scan_lit_def is_space_def is_digit_def dec_value_def
  HasPrefix_def HasSuffix_def TrimPrefix_def TrimSpace_def

lemmas crc_eval [fmt_simps] =
  ChecksumIEEE_def crc32_byte_def crc32_step_def fmt_08x_def hex_char_def

end
