(* ===== verification/File_Names.thy ===== *)
theory File_Names
  imports Go_Strings
begin

text \<open>
  File descriptors and object names. \<open>file_desc\<close> is goleveldb's \<^verbatim>\<open>storage.FileDesc\<close>; its
  \<^verbatim>\<open>String\<close> method is not part of the repository, so it is a parameter \<open>fdString\<close> of the
  development, and the locale \<open>file_naming\<close> states what goleveldb documents about it. The
  functions of the repository are \<open>parseFileDesc\<close> (\<^verbatim>\<open>storage.go\<close>), \<open>parseS3Key\<close> and
  \<open>isMetadataKey\<close> (\<^verbatim>\<open>client.go\<close>). The lemmas relate them: parsing inverts naming, names are
  injective, and which names the metadata test and the \<^verbatim>\<open>.cksum\<close> test accept.
\<close>

section \<open>File descriptors\<close>

text \<open>\<open>TypeOther\<close> stands for every other value of the integer type \<^verbatim>\<open>FileType\<close>.\<close>

datatype file_type = TypeManifest | TypeJournal | TypeTable | TypeTemp | TypeOther int

record file_desc =
  fd_Type :: file_type
  fd_Num :: int

abbreviation FileDesc :: "file_type \<Rightarrow> int \<Rightarrow> file_desc" where
  "FileDesc t n \<equiv> \<lparr>fd_Type = t, fd_Num = n\<rparr>"

section \<open>Functions of the repository\<close>

text \<open>
  \<^verbatim>\<open>Sscanf\<close> stops at the end of the format, so what follows the last verb is ignored. The second
  scan sees the original string: the first one assigns to it only when it succeeds.
\<close>

definition parse_manifest :: "string \<Rightarrow> int option" where
  "parse_manifest s = (case scan_lit ''MANIFEST-'' s of None \<Rightarrow> None | Some r \<Rightarrow>
     (case scan_d r of None \<Rightarrow> None | Some (n, _) \<Rightarrow> Some n))"

definition parse_numbered :: "string \<Rightarrow> (int \<times> string) option" where
  "parse_numbered s = (case scan_d s of None \<Rightarrow> None | Some (n, r) \<Rightarrow>
     (case scan_lit ''.'' r of None \<Rightarrow> None | Some r' \<Rightarrow>
       (case scan_s r' of None \<Rightarrow> None | Some (ext, _) \<Rightarrow> Some (n, ext))))"

definition parseFileDesc :: "string \<Rightarrow> file_desc option" where
  "parseFileDesc s = (case parse_numbered s of
     Some (n, ext) \<Rightarrow>
       if ext = ''log'' then Some (FileDesc TypeJournal n)
       else if ext = ''ldb'' \<or> ext = ''sst'' then Some (FileDesc TypeTable n)
       else if ext = ''tmp'' then Some (FileDesc TypeTemp n)
       else None
   | None \<Rightarrow> (case parse_manifest s of
       Some n \<Rightarrow> Some (FileDesc TypeManifest n)
     | None \<Rightarrow> None))"

definition parseS3Key :: "string \<Rightarrow> string \<times> string" where
  "parseS3Key fullKey = (let idx = LastIndex fullKey (CHR ''/'') in
     if 0 \<le> idx then (take (nat idx) fullKey, drop (nat idx + 1) fullKey) else ('''', fullKey))"

definition isMetadataKey :: "string \<Rightarrow> bool" where
  "isMetadataKey key = (key = ''CURRENT'' \<or> key = ''LOCK'' \<or> HasPrefix key ''MANIFEST-'')"

lemmas name_eval [fmt_simps] =
  parse_manifest_def parse_numbered_def parseFileDesc_def parseS3Key_def isMetadataKey_def
  LastIndex_def

section \<open>The naming contract of goleveldb\<close>

definition known_type :: "file_type \<Rightarrow> bool" where
  "known_type t = (t \<in> {TypeManifest, TypeJournal, TypeTable, TypeTemp})"

text \<open>A descriptor of one of the four documented types, with a number that \<^verbatim>\<open>%d\<close> scans back.\<close>

definition valid_fd :: "file_desc \<Rightarrow> bool" where
  "valid_fd fd = (known_type (fd_Type fd) \<and> - (2 ^ 63) < fd_Num fd \<and> fd_Num fd < 2 ^ 63)"

fun type_ext :: "file_type \<Rightarrow> string" where
  "type_ext TypeJournal = ''log''"
| "type_ext TypeTable = ''ldb''"
| "type_ext TypeTemp = ''tmp''"
| "type_ext _ = ''''"

locale file_naming =
  fixes fdString :: "file_desc \<Rightarrow> string"
  assumes manifest_name: "fdString (FileDesc TypeManifest n) = ''MANIFEST-'' @ fmt_06d n"
    and numbered_name: "t \<in> {TypeJournal, TypeTable, TypeTemp} \<Longrightarrow>
      fdString (FileDesc t n) = fmt_06d n @ ''.'' @ type_ext t"
begin

lemma parse_numbered_name:
  assumes "t \<in> {TypeJournal, TypeTable, TypeTemp}" and "- (2 ^ 63) < n" and "n < 2 ^ 63"
  shows "parse_numbered (fdString (FileDesc t n)) = Some (n, type_ext t)"
proof -
  have scan: "scan_d (fmt_06d n @ ''.'' @ type_ext t) = Some (n, ''.'' @ type_ext t)"
    using assms by (intro scan_d_fmt_06d) (auto simp: is_digit_def)
  have lit: "scan_lit ''.'' (''.'' @ type_ext t) = Some (type_ext t)"
    by (rule scan_lit_append)
  have ext: "scan_s (type_ext t) = Some (type_ext t, [])"
    using assms(1) by (intro scan_s_word) (auto simp: is_space_def)
  show ?thesis
    unfolding numbered_name [OF assms(1)] parse_numbered_def scan by (simp only: lit ext option.case prod.case)
qed

lemma parse_manifest_name:
  assumes "- (2 ^ 63) < n" and "n < 2 ^ 63"
  shows "parse_manifest (fdString (FileDesc TypeManifest n)) = Some n"
    and "parse_numbered (fdString (FileDesc TypeManifest n)) = None"
proof -
  have "scan_d (fmt_06d n) = Some (n, [])"
    using scan_d_fmt_06d [OF assms, of "[]"] by simp
  then show "parse_manifest (fdString (FileDesc TypeManifest n)) = Some n"
    by (simp add: parse_manifest_def manifest_name scan_lit_def HasPrefix_def)
  show "parse_numbered (fdString (FileDesc TypeManifest n)) = None"
    by (simp add: parse_numbered_def manifest_name scan_d_def scan_sign_def is_space_def is_digit_def)
qed

lemma parse_name: "valid_fd fd \<Longrightarrow> parseFileDesc (fdString fd) = Some fd"
  using parse_numbered_name [of "fd_Type fd" "fd_Num fd"] parse_manifest_name [of "fd_Num fd"]
  by (cases fd) (auto simp: valid_fd_def known_type_def parseFileDesc_def)

lemma name_inj: "valid_fd a \<Longrightarrow> valid_fd b \<Longrightarrow> fdString a = fdString b \<Longrightarrow> a = b"
  using parse_name by (metis option.inject)

lemma name_chars:
  assumes "valid_fd fd" and "c \<in> set (fdString fd)"
  shows "c \<noteq> CHR ''/''" and "\<not> is_space c"
proof -
  obtain t n where fd: "fd = FileDesc t n" by (cases fd) auto
  have "c \<in> set ''MANIFEST-.logdbtmp'' \<or> is_digit c"
    using assms fd by (auto simp: valid_fd_def known_type_def manifest_name numbered_name
        dest!: fmt_06d_chars)
  then show "c \<noteq> CHR ''/''" and "\<not> is_space c"
    by (auto simp: is_digit_def is_space_def)
qed

lemma name_not_Nil: "valid_fd fd \<Longrightarrow> fdString fd \<noteq> []"
  by (cases fd) (auto simp: valid_fd_def known_type_def manifest_name numbered_name)

lemma name_metadata: "valid_fd fd \<Longrightarrow> isMetadataKey (fdString fd) \<longleftrightarrow> fd_Type fd = TypeManifest"
proof -
  assume v: "valid_fd fd"
  obtain t n where fd: "fd = FileDesc t n" by (cases fd) auto
  show ?thesis
  proof (cases "t = TypeManifest")
    case True
    then show ?thesis using fd by (simp add: isMetadataKey_def manifest_name HasPrefix_def)
  next
    case False
    with v fd have t: "t \<in> {TypeJournal, TypeTable, TypeTemp}"
      by (auto simp: valid_fd_def known_type_def)
    obtain c cs where cs: "fmt_06d n = c # cs" by (cases "fmt_06d n") auto
    then have "is_digit c \<or> c = CHR ''-''" using fmt_06d_chars [of c n] by simp
    then have "c \<noteq> CHR ''M''" and "c \<noteq> CHR ''C''" and "c \<noteq> CHR ''L''"
      by (auto simp: is_digit_def)
    then show ?thesis using False fd numbered_name [OF t] cs
      by (simp add: isMetadataKey_def HasPrefix_def)
  qed
qed

lemma name_not_meta_file: "valid_fd fd \<Longrightarrow> fdString fd \<noteq> ''CURRENT'' \<and> fdString fd \<noteq> ''LOCK''"
proof -
  assume v: "valid_fd fd"
  have "parseFileDesc ''CURRENT'' = None" and "parseFileDesc ''LOCK'' = None"
    by (simp_all add: fmt_simps)
  with parse_name [OF v] show ?thesis by auto
qed

lemma name_not_cksum: "valid_fd fd \<Longrightarrow> \<not> HasSuffix (fdString fd) ''.cksum''"
proof
  assume v: "valid_fd fd" and "HasSuffix (fdString fd) ''.cksum''"
  then obtain r where r: "fdString fd = r @ ''.cksum''" by (auto simp: HasSuffix_iff)
  obtain t n where fd: "fd = FileDesc t n" by (cases fd) auto
  have "last (fdString fd) = CHR ''m''" using r by simp
  moreover have "CHR ''u'' \<in> set (fdString fd)" using r by simp
  ultimately show False
    using v fd by (auto simp: valid_fd_def known_type_def manifest_name numbered_name is_digit_def
        dest!: fmt_06d_chars)
qed

end

text \<open>The concrete naming of goleveldb v1.0.0, which provides the contract.\<close>

fun leveldb_String :: "file_desc \<Rightarrow> string" where
  "leveldb_String fd = (case fd_Type fd of
     TypeManifest \<Rightarrow> ''MANIFEST-'' @ fmt_06d (fd_Num fd)
   | TypeJournal \<Rightarrow> fmt_06d (fd_Num fd) @ ''.log''
   | TypeTable \<Rightarrow> fmt_06d (fd_Num fd) @ ''.ldb''
   | TypeTemp \<Rightarrow> fmt_06d (fd_Num fd) @ ''.tmp''
   | TypeOther t \<Rightarrow> fmt_d t @ ''-'' @ fmt_d (fd_Num fd))"

interpretation ldb: file_naming leveldb_String
  by unfold_locales auto

section \<open>What the scanner accepts beyond the names\<close>

text \<open>
  The text after a manifest number is not looked at, so the checksum companion of a pending
  manifest parses as the manifest itself; that of a table does not parse at all.
\<close>

lemma parse_manifest_suffix:
  assumes "- (2 ^ 63) < n" and "n < 2 ^ 63" and "r = [] \<or> \<not> is_digit (hd r)"
  shows "parseFileDesc (''MANIFEST-'' @ fmt_06d n @ r) = Some (FileDesc TypeManifest n)"
proof -
  have "scan_d (fmt_06d n @ r) = Some (n, r)" using assms by (rule scan_d_fmt_06d)
  then have "parse_manifest (''MANIFEST-'' @ fmt_06d n @ r) = Some n"
    by (simp add: parse_manifest_def scan_lit_def HasPrefix_def)
  moreover have "parse_numbered (''MANIFEST-'' @ fmt_06d n @ r) = None"
    by (simp add: parse_numbered_def scan_d_def scan_sign_def is_space_def is_digit_def)
  ultimately show ?thesis by (simp add: parseFileDesc_def)
qed

lemma parseS3Key_nested:
  assumes "CHR ''/'' \<notin> set name"
  shows "parseS3Key (dir @ ''/'' @ name) = (dir, name)"
proof -
  have "takeWhile (\<lambda>x. x \<noteq> CHR ''/'') (rev name @ CHR ''/'' # rev dir) = rev name"
    using assms by (subst takeWhile_append2) auto
  then have "LastIndex (dir @ ''/'' @ name) (CHR ''/'') = int (length dir)"
    by (simp add: LastIndex_def)
  then show ?thesis by (simp add: parseS3Key_def)
qed

end
