(* ===== verification/Client_API.thy ===== *)
theory Client_API
  imports Retry File_Names
begin

text \<open>
  \<^verbatim>\<open>s3/interface.go\<close>: the operations that \<open>S3Storage\<close> and \<open>S3Lock\<close> call on a client, as a record
  of functions on the outside world \<^typ>\<open>'w\<close>, and the contract the callers rely on. The contract is
  stated over \<open>view\<close>, the objects under the configured path: a call that returns nil had its
  effect; a call that returns an error had its effect or none (a request may be carried out
  although its answer is lost); reading changes nothing.
\<close>

section \<open>The interface\<close>

text \<open>
  A Go result \<^verbatim>\<open>error\<close> is \<open>None\<close> for nil; a result \<^verbatim>\<open>(T, error)\<close> is a sum. \<open>api_List\<close> and
  \<open>api_Copy\<close> are the methods \<^verbatim>\<open>List\<close> and \<^verbatim>\<open>Copy\<close>.
\<close>

record 'w S3ClientAPI =
  api_PutBytes :: "go_context \<Rightarrow> string \<Rightarrow> bytes \<Rightarrow> 'w \<Rightarrow> error option \<times> 'w"
  api_PutBytesIfNotExists :: "go_context \<Rightarrow> string \<Rightarrow> bytes \<Rightarrow> 'w \<Rightarrow> (error + bool) \<times> 'w"
  api_GetBytes :: "go_context \<Rightarrow> string \<Rightarrow> 'w \<Rightarrow> (error + bytes) \<times> 'w"
  api_Remove :: "go_context \<Rightarrow> string \<Rightarrow> 'w \<Rightarrow> error option \<times> 'w"
  api_Exists :: "go_context \<Rightarrow> string \<Rightarrow> 'w \<Rightarrow> (error + bool) \<times> 'w"
  api_List :: "go_context \<Rightarrow> 'w \<Rightarrow> (error + file_desc list) \<times> 'w"
  api_Copy :: "go_context \<Rightarrow> string \<Rightarrow> string \<Rightarrow> 'w \<Rightarrow> error option \<times> 'w"
  api_ListNames :: "go_context \<Rightarrow> string \<Rightarrow> 'w \<Rightarrow> (error + string list) \<times> 'w"

text \<open>The descriptors that a listing of a set of keys reports: those of the last path components.\<close>

definition listed_fds :: "(string \<Rightarrow> bytes option) \<Rightarrow> file_desc set" where
  "listed_fds v = {fd. \<exists>k. v k \<noteq> None \<and> parseFileDesc (snd (parseS3Key k)) = Some fd}"

section \<open>The contract\<close>

locale s3_api =
  fixes api :: "'w S3ClientAPI"
    and view :: "'w \<Rightarrow> string \<Rightarrow> bytes option"
  assumes put_nil: "api_PutBytes api c k d w = (None, w') \<Longrightarrow> view w' = (view w)(k \<mapsto> d)"
    and put_err: "api_PutBytes api c k d w = (Some e, w') \<Longrightarrow>
      view w' = view w \<or> view w' = (view w)(k \<mapsto> d)"
    and ifnot_ok: "api_PutBytesIfNotExists api c k d w = (Inr b, w') \<Longrightarrow>
      b = (view w k = None) \<and> view w' = (if b then (view w)(k \<mapsto> d) else view w)"
    and ifnot_err: "api_PutBytesIfNotExists api c k d w = (Inl e, w') \<Longrightarrow>
      view w' = view w \<or> view w' = (view w)(k \<mapsto> d)"
    and get_view: "api_GetBytes api c k w = (r, w') \<Longrightarrow> view w' = view w"
    and get_data: "api_GetBytes api c k w = (Inr d, w') \<Longrightarrow> view w k = Some d"
    and get_missing: "api_GetBytes api c k w = (Inl e, w') \<Longrightarrow>
      errors_Is e OsErrNotExist \<or> isNotFoundError e \<Longrightarrow> view w k = None"
    and remove_nil: "api_Remove api c k w = (None, w') \<Longrightarrow> view w' = (view w)(k := None)"
    and remove_err: "api_Remove api c k w = (Some e, w') \<Longrightarrow>
      view w' = view w \<or> view w' = (view w)(k := None)"
    and exists_view: "api_Exists api c k w = (x, w') \<Longrightarrow> view w' = view w"
    and exists_ok: "api_Exists api c k w = (Inr b, w') \<Longrightarrow> b = (view w k \<noteq> None)"
    and list_view: "api_List api c w = (l, w') \<Longrightarrow> view w' = view w"
    and list_ok: "api_List api c w = (Inr fds, w') \<Longrightarrow> set fds = listed_fds (view w)"
    and copy_nil: "api_Copy api c k k' w = (None, w') \<Longrightarrow>
      view w k \<noteq> None \<and> view w' = (view w)(k' := view w k)"
    and copy_err: "api_Copy api c k k' w = (Some e, w') \<Longrightarrow>
      view w' = view w \<or> (view w k \<noteq> None \<and> view w' = (view w)(k' := view w k))"
    and names_view: "api_ListNames api c p w = (n, w') \<Longrightarrow> view w' = view w"
    and names_ok: "api_ListNames api c p w = (Inr ks, w') \<Longrightarrow>
      distinct ks \<and> set ks = {k. view w k \<noteq> None \<and> k \<noteq> [] \<and> HasPrefix k p}"
begin

text \<open>A call about one key leaves every other key alone, whatever it returns.\<close>

lemma put_other: "api_PutBytes api c k d w = (r, w') \<Longrightarrow> k' \<noteq> k \<Longrightarrow> view w' k' = view w k'"
  using put_nil put_err by (cases r) fastforce+

lemma remove_other: "api_Remove api c k w = (r, w') \<Longrightarrow> k' \<noteq> k \<Longrightarrow> view w' k' = view w k'"
  using remove_nil remove_err by (cases r) fastforce+

lemma copy_other: "api_Copy api c k k'' w = (r, w') \<Longrightarrow> k' \<noteq> k'' \<Longrightarrow> view w' k' = view w k'"
  using copy_nil copy_err by (cases r) fastforce+

text \<open>After a put the key holds the old or the new data, after a removal the old data or nothing.\<close>

lemma put_at: "api_PutBytes api c k d w = (r, w') \<Longrightarrow>
    view w' k = Some d \<or> r \<noteq> None \<and> view w' k = view w k"
  using put_nil put_err by (cases r) fastforce+

lemma remove_at: "api_Remove api c k w = (r, w') \<Longrightarrow>
    view w' k = None \<or> r \<noteq> None \<and> view w' k = view w k"
  using remove_nil remove_err by (cases r) fastforce+

lemma put_keeps: "api_PutBytes api c k d w = (r, w') \<Longrightarrow> view w k = Some d \<Longrightarrow> view w' = view w"
  using put_nil put_err by (cases r) (metis fun_upd_triv)+

lemma get_present: "api_GetBytes api c k w = (Inr d, w') \<Longrightarrow> view w k \<noteq> None"
  by (simp add: get_data)

end

end
