(* ===== verification/Go_Path.thy ===== *)
theory Go_Path
  imports Go_Strings
begin

text \<open>
  Package \<^verbatim>\<open>path/filepath\<close> on Unix, as far as the program calls it: \<open>Clean\<close>, \<open>Join\<close> and \<open>Dir\<close>.
  Directories of the program come out of \<open>Join\<close>, so they are clean; the lemmas say that a plain
  file name under a clean directory is the directory, a slash and the name.
\<close>

section \<open>Components\<close>

fun split_path :: "string \<Rightarrow> string list" where
  "split_path [] = [[]]"
| "split_path (c # cs) =
     (if c = CHR ''/'' then [] # split_path cs
      else (case split_path cs of [] \<Rightarrow> [[c]] | x # xs \<Rightarrow> (c # x) # xs))"

fun join_path :: "string list \<Rightarrow> string" where
  "join_path [] = []"
| "join_path [x] = x"
| "join_path (x # xs) = x @ CHR ''/'' # join_path xs"

text \<open>One component against the stack of components kept so far (innermost first).\<close>

definition clean_step :: "bool \<Rightarrow> string list \<Rightarrow> string \<Rightarrow> string list" where
  "clean_step rooted st c =
     (if c = '''' \<or> c = ''.'' then st
      else if c = ''..'' then
        (if st \<noteq> [] \<and> hd st \<noteq> ''..'' then tl st else if rooted then st else ''..'' # st)
      else c # st)"

definition is_rooted :: "string \<Rightarrow> bool" where
  "is_rooted p = (p \<noteq> [] \<and> hd p = CHR ''/'')"

definition clean_stack :: "string \<Rightarrow> string list" where
  "clean_stack p = foldl (clean_step (is_rooted p)) [] (split_path p)"

definition filepath_Clean :: "string \<Rightarrow> string" where
  "filepath_Clean p =
     (let body = join_path (rev (clean_stack p))
      in if is_rooted p then CHR ''/'' # body else if body = [] then ''.'' else body)"

definition filepath_Join :: "string list \<Rightarrow> string" where
  "filepath_Join es = (case dropWhile (\<lambda>e. e = []) es of [] \<Rightarrow> '''' | es' \<Rightarrow> filepath_Clean (join_path es'))"

definition filepath_Dir :: "string \<Rightarrow> string" where
  "filepath_Dir p = filepath_Clean (take (nat (LastIndex p (CHR ''/'') + 1)) p)"

lemmas path_eval [fmt_simps] =
  filepath_Clean_def filepath_Join_def filepath_Dir_def clean_stack_def clean_step_def
  is_rooted_def LastIndex_def

section \<open>Plain names under clean directories\<close>

definition plain_name :: "string \<Rightarrow> bool" where
  "plain_name n = (n \<noteq> [] \<and> n \<noteq> ''.'' \<and> n \<noteq> ''..'' \<and> CHR ''/'' \<notin> set n)"

definition clean_dir :: "string \<Rightarrow> bool" where
  "clean_dir d = (filepath_Clean d = d \<and> d \<noteq> ''/'' \<and> d \<noteq> ''.'')"

lemma split_path_plain: "CHR ''/'' \<notin> set n \<Longrightarrow> split_path n = [n]"
  by (induction n) auto

lemma split_path_not_Nil [simp]: "split_path p \<noteq> []"
  by (cases p) (auto split: list.splits)

lemma split_path_append: "split_path (d @ CHR ''/'' # n) = split_path d @ split_path n"
proof (induction d)
  case Nil
  then show ?case by simp
next
  case (Cons c d)
  then show ?case by (cases "split_path d") auto
qed

lemma join_path_snoc: "xs \<noteq> [] \<Longrightarrow> join_path (xs @ [n]) = join_path xs @ CHR ''/'' # n"
proof (induction xs rule: join_path.induct)
  case (3 x y xs)
  then show ?case by simp
qed simp_all

lemma clean_dir_not_Nil: "clean_dir d \<Longrightarrow> d \<noteq> []"
  by (auto simp: clean_dir_def path_eval)

lemma clean_stack_append:
  assumes "plain_name n" and "d \<noteq> []"
  shows "clean_stack (d @ CHR ''/'' # n) = n # clean_stack d"
proof -
  have "is_rooted (d @ CHR ''/'' # n) = is_rooted d" using assms(2) by (simp add: is_rooted_def)
  moreover have "split_path n = [n]" using assms(1) by (simp add: plain_name_def split_path_plain)
  ultimately show ?thesis
    using assms(1) by (simp add: clean_stack_def split_path_append clean_step_def plain_name_def)
qed

lemma clean_dir_stack: "clean_dir d \<Longrightarrow> clean_stack d \<noteq> []"
  by (auto simp: clean_dir_def filepath_Clean_def split: if_splits)

lemma clean_dir_body:
  assumes "clean_dir d"
  shows "d = (if is_rooted d then CHR ''/'' # join_path (rev (clean_stack d)) else join_path (rev (clean_stack d)))"
proof -
  have eq: "filepath_Clean d = d" and ne: "d \<noteq> ''.''" using assms by (simp_all add: clean_dir_def)
  show ?thesis
    by (subst (1) eq [symmetric]) (use eq ne in \<open>auto simp: filepath_Clean_def Let_def split: if_splits\<close>)
qed

lemma Clean_append:
  assumes d: "clean_dir d" and n: "plain_name n"
  shows "filepath_Clean (d @ CHR ''/'' # n) = d @ CHR ''/'' # n"
proof -
  have "d \<noteq> []" using d by (rule clean_dir_not_Nil)
  then have st: "clean_stack (d @ CHR ''/'' # n) = n # clean_stack d"
    and r: "is_rooted (d @ CHR ''/'' # n) = is_rooted d"
    using n by (simp_all add: clean_stack_append is_rooted_def)
  have body: "join_path (rev (clean_stack d) @ [n]) = join_path (rev (clean_stack d)) @ CHR ''/'' # n"
    using clean_dir_stack [OF d] by (simp add: join_path_snoc)
  show ?thesis
    using clean_dir_body [OF d] by (simp add: filepath_Clean_def st r body Let_def split: if_splits)
qed

lemma Join_plain:
  assumes "clean_dir d" and "plain_name n"
  shows "filepath_Join [d, n] = d @ CHR ''/'' # n"
  using assms by (simp add: filepath_Join_def clean_dir_not_Nil Clean_append)

lemma Dir_plain:
  assumes d: "clean_dir d" and n: "plain_name n"
  shows "filepath_Dir (d @ CHR ''/'' # n) = d"
proof -
  have "takeWhile (\<lambda>x. x \<noteq> CHR ''/'') (rev n @ CHR ''/'' # rev d) = rev n"
    using n by (subst takeWhile_append2) (auto simp: plain_name_def)
  then have idx: "LastIndex (d @ CHR ''/'' # n) (CHR ''/'') = int (length d)"
    by (simp add: LastIndex_def)
  have "clean_stack (d @ ''/'') = clean_stack d"
    using clean_dir_not_Nil [OF d]
    by (simp add: clean_stack_def split_path_append is_rooted_def clean_step_def)
  then have "filepath_Clean (d @ ''/'') = filepath_Clean d"
    using clean_dir_not_Nil [OF d] by (simp add: filepath_Clean_def is_rooted_def)
  then show ?thesis using d by (simp add: filepath_Dir_def idx clean_dir_def nat_add_distrib)
qed

lemma clean_dir_append: "clean_dir d \<Longrightarrow> plain_name n \<Longrightarrow> clean_dir (d @ CHR ''/'' # n)"
  using clean_dir_not_Nil [of d] Clean_append [of d n]
  by (auto simp: clean_dir_def plain_name_def append_eq_Cons_conv)

lemma Join_inj:
  "clean_dir d \<Longrightarrow> plain_name m \<Longrightarrow> plain_name n \<Longrightarrow> filepath_Join [d, m] = filepath_Join [d, n] \<longleftrightarrow> m = n"
  by (simp add: Join_plain)

text \<open>The checksum companion of a plain name is a plain name.\<close>

lemma plain_name_append: "plain_name n \<Longrightarrow> CHR ''/'' \<notin> set s \<Longrightarrow> 2 < length (n @ s) \<Longrightarrow> plain_name (n @ s)"
  by (auto simp: plain_name_def Cons_eq_append_conv append_eq_Cons_conv)

end
