(* ===== verification/Go_OS.thy ===== *)
theory Go_OS
  imports Go_Path Go_Errors
begin

text \<open>
  The local machine: a file system with an outcome for every system call, and the calls of Go's
  \<^verbatim>\<open>os\<close> package that the program makes. A system call may fail (\<open>OsErr\<close>) or stop half-way
  (\<open>OsShort n\<close>), as the list \<open>faults\<close> says; the empty list is a machine where nothing fails.
  \<open>disk_trace\<close> records every state the disk goes through, so that a statement about all of its
  members is a statement about a crash at any moment.
\<close>

section \<open>State\<close>

datatype fs_node = Dir | File bytes

type_synonym fs_table = "(string \<times> fs_node) list"

datatype os_outcome = OsOk | OsErr | OsShort nat

record host =
  fs :: fs_table
  faults :: "os_outcome list"
  rands :: "nat list"
  disk_trace :: "fs_table list"

definition node_at :: "host \<Rightarrow> string \<Rightarrow> fs_node option" where
  "node_at h p = map_of (fs h) p"

definition data_at :: "host \<Rightarrow> string \<Rightarrow> bytes option" where
  "data_at h p = (case node_at h p of Some (File d) \<Rightarrow> Some d | _ \<Rightarrow> None)"

definition dir_exists :: "host \<Rightarrow> string \<Rightarrow> bool" where
  "dir_exists h p = (p = ''/'' \<or> p = ''.'' \<or> node_at h p = Some Dir)"

definition next_fault :: "host \<Rightarrow> os_outcome \<times> host" where
  "next_fault h = (case faults h of [] \<Rightarrow> (OsOk, h) | f # fl \<Rightarrow> (f, h\<lparr>faults := fl\<rparr>))"

definition set_fs :: "fs_table \<Rightarrow> host \<Rightarrow> host" where
  "set_fs t h = h\<lparr>fs := t, disk_trace := disk_trace h @ [t]\<rparr>"

definition put_node :: "string \<Rightarrow> fs_node \<Rightarrow> host \<Rightarrow> host" where
  "put_node p n h = set_fs (AList.update p n (fs h)) h"

definition del_node :: "string \<Rightarrow> host \<Rightarrow> host" where
  "del_node p h = set_fs (AList.delete p (fs h)) h"

section \<open>Directories\<close>

definition dir_prefix :: "string \<Rightarrow> string" where
  "dir_prefix p = (if p = ''/'' then p else if p = ''.'' then '''' else p @ ''/'')"

text \<open>The name of a direct child of a directory, and whether a path lies below another.\<close>

definition child_name :: "string \<Rightarrow> string \<Rightarrow> string option" where
  "child_name p q =
     (let n = drop (length (dir_prefix p)) q
      in if HasPrefix q (dir_prefix p) \<and> n \<noteq> [] \<and> CHR ''/'' \<notin> set n then Some n else None)"

definition under :: "string \<Rightarrow> string \<Rightarrow> bool" where
  "under p q = (q = p \<or> HasPrefix q (dir_prefix p))"

definition child_names :: "host \<Rightarrow> string \<Rightarrow> string list" where
  "child_names h p = sort (remdups (List.map_filter (\<lambda>(q, _). child_name p q) (fs h)))"

definition ancestors :: "string \<Rightarrow> string list" where
  "ancestors p = map (\<lambda>i. take i p) (filter (\<lambda>i. p ! i = CHR ''/'') [1..<length p]) @ [p]"

section \<open>System calls\<close>

definition os_ReadFile :: "string \<Rightarrow> host \<Rightarrow> (error + bytes) \<times> host" where
  "os_ReadFile p h = (case next_fault h of (f, h1) \<Rightarrow>
     if f \<noteq> OsOk then (Inl (OsError ''read''), h1)
     else (case node_at h1 p of
         Some (File d) \<Rightarrow> (Inr d, h1)
       | Some Dir \<Rightarrow> (Inl (OsError ''is a directory''), h1)
       | None \<Rightarrow> (Inl OsErrNotExist, h1)))"

text \<open>\<open>os.Stat\<close>; the value is the size and whether the path is a directory.\<close>

definition os_Stat :: "string \<Rightarrow> host \<Rightarrow> (error + int \<times> bool) \<times> host" where
  "os_Stat p h = (case next_fault h of (f, h1) \<Rightarrow>
     if f \<noteq> OsOk then (Inl (OsError ''stat''), h1)
     else (case node_at h1 p of
         Some (File d) \<Rightarrow> (Inr (int (length d), False), h1)
       | Some Dir \<Rightarrow> (Inr (0, True), h1)
       | None \<Rightarrow> (Inl OsErrNotExist, h1)))"

text \<open>
  \<open>os.WriteFile\<close> truncates the file and then writes, so it is not atomic: the disk goes through
  an empty file, and a failing write leaves a part of the data.
\<close>

definition os_WriteFile :: "string \<Rightarrow> bytes \<Rightarrow> host \<Rightarrow> (error + unit) \<times> host" where
  "os_WriteFile p d h = (case next_fault h of (f, h1) \<Rightarrow>
     if f = OsErr then (Inl (OsError ''open''), h1)
     else if node_at h1 p = Some Dir then (Inl (OsError ''is a directory''), h1)
     else if \<not> dir_exists h1 (filepath_Dir p) then (Inl OsErrNotExist, h1)
     else (case f of
         OsShort n \<Rightarrow> (Inl (OsError ''write''), put_node p (File (take n d)) (put_node p (File []) h1))
       | _ \<Rightarrow> (Inr (), put_node p (File d) (put_node p (File []) h1))))"

definition os_Remove :: "string \<Rightarrow> host \<Rightarrow> (error + unit) \<times> host" where
  "os_Remove p h = (case next_fault h of (f, h1) \<Rightarrow>
     if f \<noteq> OsOk then (Inl (OsError ''remove''), h1)
     else (case node_at h1 p of
         None \<Rightarrow> (Inl OsErrNotExist, h1)
       | Some (File d) \<Rightarrow> (Inr (), del_node p h1)
       | Some Dir \<Rightarrow>
           if child_names h1 p \<noteq> [] then (Inl (OsError ''directory not empty''), h1)
           else (Inr (), del_node p h1)))"

text \<open>\<open>os.Rename\<close> of a file, one atomic change; the program renames no directory.\<close>

definition os_Rename :: "string \<Rightarrow> string \<Rightarrow> host \<Rightarrow> (error + unit) \<times> host" where
  "os_Rename p q h = (case next_fault h of (f, h1) \<Rightarrow>
     if f \<noteq> OsOk then (Inl (OsError ''rename''), h1)
     else (case node_at h1 p of
         None \<Rightarrow> (Inl OsErrNotExist, h1)
       | Some Dir \<Rightarrow> (Inl (OsError ''is a directory''), h1)
       | Some (File d) \<Rightarrow>
           if node_at h1 q = Some Dir then (Inl (OsError ''file exists''), h1)
           else if \<not> dir_exists h1 (filepath_Dir q) then (Inl OsErrNotExist, h1)
           else if p = q then (Inr (), h1)
           else (Inr (), set_fs (AList.update q (File d) (AList.delete p (fs h1))) h1)))"

text \<open>\<open>os.RemoveAll\<close>: no error for a missing path; a failure may leave some files deleted.\<close>

definition os_RemoveAll :: "string \<Rightarrow> host \<Rightarrow> (error + unit) \<times> host" where
  "os_RemoveAll p h = (case next_fault h of (f, h1) \<Rightarrow>
     (case f of
        OsOk \<Rightarrow> (Inr (), set_fs (filter (\<lambda>(q, _). \<not> under p q) (fs h1)) h1)
      | OsErr \<Rightarrow> (Inl (OsError ''unlink''), h1)
      | OsShort n \<Rightarrow>
          (let gone = take n (map fst (filter (\<lambda>(q, v). under p q \<and> v \<noteq> Dir) (fs h1)))
           in (Inl (OsError ''unlink''), set_fs (filter (\<lambda>(q, _). q \<notin> set gone) (fs h1)) h1))))"

definition os_MkdirAll :: "string \<Rightarrow> host \<Rightarrow> (error + unit) \<times> host" where
  "os_MkdirAll p h = (case next_fault h of (f, h1) \<Rightarrow>
     if f \<noteq> OsOk then (Inl (OsError ''mkdir''), h1)
     else if list_ex (\<lambda>q. data_at h1 q \<noteq> None) (ancestors p) then (Inl (OsError ''not a directory''), h1)
     else (Inr (), fold (\<lambda>q g. if dir_exists g q then g else put_node q Dir g) (ancestors p) h1))"

text \<open>\<open>os.ReadDir\<close>: the entries sorted by name, each with its \<open>IsDir\<close> flag.\<close>

definition os_ReadDir :: "string \<Rightarrow> host \<Rightarrow> (error + (string \<times> bool) list) \<times> host" where
  "os_ReadDir p h = (case next_fault h of (f, h1) \<Rightarrow>
     if f \<noteq> OsOk then (Inl (OsError ''readdir''), h1)
     else if dir_exists h1 p then
       (Inr (map (\<lambda>n. (n, node_at h1 (dir_prefix p @ n) = Some Dir)) (child_names h1 p)), h1)
     else if node_at h1 p = None then (Inl OsErrNotExist, h1)
     else (Inl (OsError ''not a directory''), h1))"

text \<open>
  \<open>os.CreateTemp(dir, prefix + "*")\<close>: random numbers are drawn until the name is free. Go gives up
  after 10000 tries; here the supply \<open>rands\<close> is what can be drawn.
\<close>

definition temp_path :: "string \<Rightarrow> string \<Rightarrow> nat \<Rightarrow> string" where
  "temp_path dir pre r = filepath_Join [dir, pre @ digits10 r]"

definition os_CreateTemp :: "string \<Rightarrow> string \<Rightarrow> host \<Rightarrow> (error + string) \<times> host" where
  "os_CreateTemp dir pre h = (case next_fault h of (f, h1) \<Rightarrow>
     if f \<noteq> OsOk then (Inl (OsError ''open''), h1)
     else if \<not> dir_exists h1 dir then (Inl OsErrNotExist, h1)
     else (case dropWhile (\<lambda>r. node_at h1 (temp_path dir pre r) \<noteq> None) (rands h1) of
         [] \<Rightarrow> (Inl (OsError ''file exists''), h1)
       | r # rs \<Rightarrow> (Inr (temp_path dir pre r),
                   put_node (temp_path dir pre r) (File []) (h1\<lparr>rands := rs\<rparr>))))"

text \<open>\<open>Write\<close> and \<open>Close\<close> of a freshly created file, named here by its path.\<close>

definition file_Write :: "string \<Rightarrow> bytes \<Rightarrow> host \<Rightarrow> (error + unit) \<times> host" where
  "file_Write p d h = (case next_fault h of (f, h1) \<Rightarrow>
     (case f of
        OsErr \<Rightarrow> (Inl (OsError ''write''), h1)
      | OsShort n \<Rightarrow> (Inl (OsError ''write''), put_node p (File (take n d)) h1)
      | OsOk \<Rightarrow> (Inr (), put_node p (File d) h1)))"

definition file_Close :: "host \<Rightarrow> (error + unit) \<times> host" where
  "file_Close h = (case next_fault h of (f, h1) \<Rightarrow>
     if f \<noteq> OsOk then (Inl (OsError ''close''), h1) else (Inr (), h1))"

lemmas os_call_defs =
  os_ReadFile_def os_Stat_def os_WriteFile_def os_Remove_def os_Rename_def os_RemoveAll_def
  os_MkdirAll_def os_ReadDir_def os_CreateTemp_def file_Write_def file_Close_def

lemmas host_eval [fmt_simps] =
  os_call_defs next_fault_def set_fs_def put_node_def del_node_def node_at_def data_at_def
  dir_exists_def dir_prefix_def child_name_def child_names_def under_def ancestors_def temp_path_def

section \<open>Basic facts\<close>

lemma next_fault_simps [simp]:
  "fs (snd (next_fault h)) = fs h" "rands (snd (next_fault h)) = rands h"
  "disk_trace (snd (next_fault h)) = disk_trace h"
  "faults h = [] \<Longrightarrow> next_fault h = (OsOk, h)"
  by (auto simp: next_fault_def split: list.splits)

lemma next_fault_fs: "next_fault h = (f, h1) \<Longrightarrow>
    fs h1 = fs h \<and> rands h1 = rands h \<and> disk_trace h1 = disk_trace h"
  using next_fault_simps(1-3) [of h] by simp

lemma next_fault_node: "next_fault h = (f, h1) \<Longrightarrow> node_at h1 p = node_at h p"
  by (simp add: node_at_def next_fault_fs)

lemma node_at_put_node [simp]: "node_at (put_node p n h) q = (if q = p then Some n else node_at h q)"
  by (simp add: node_at_def put_node_def set_fs_def)

lemma node_at_del_node [simp]: "node_at (del_node p h) q = (if q = p then None else node_at h q)"
  by (simp add: node_at_def del_node_def set_fs_def)

lemma node_at_set_rename:
  "p \<noteq> q \<Longrightarrow> node_at (set_fs (AList.update q n (AList.delete p (fs h))) h) x =
     (if x = q then Some n else if x = p then None else node_at h x)"
  by (simp add: node_at_def set_fs_def update_conv' delete_conv')

lemma faults_put_node [simp]:
  "faults (put_node p n h) = faults h" "rands (put_node p n h) = rands h"
  "faults (del_node p h) = faults h" "rands (del_node p h) = rands h"
  "faults (set_fs t h) = faults h" "rands (set_fs t h) = rands h"
  by (simp_all add: put_node_def del_node_def set_fs_def)

lemma data_at_Some: "data_at h p = Some d \<longleftrightarrow> node_at h p = Some (File d)"
  by (auto simp: data_at_def split: option.splits fs_node.splits)

lemma dir_exists_put_file:
  "node_at h p \<noteq> Some Dir \<Longrightarrow> dir_exists (put_node p (File d) h) q = (dir_exists h q \<and> (q = p \<longrightarrow> q = ''/'' \<or> q = ''.''))"
  by (auto simp: dir_exists_def)

text \<open>Reading never changes the disk.\<close>

lemma read_fs [frame_simps]:
  "fs (snd (os_ReadFile p h)) = fs h"
  "fs (snd (os_Stat p h)) = fs h"
  "fs (snd (os_ReadDir p h)) = fs h"
  "fs (snd (file_Close h)) = fs h"
  by (auto simp: os_call_defs next_fault_fs Let_def split: prod.splits option.splits fs_node.splits)

lemma read_node [os_simps]:
  "node_at (snd (os_ReadFile p h)) q = node_at h q"
  "node_at (snd (os_Stat p h)) q = node_at h q"
  "node_at (snd (os_ReadDir p h)) q = node_at h q"
  "node_at (snd (file_Close h)) q = node_at h q"
  by (simp_all add: node_at_def frame_simps)

text \<open>A call that names a path changes no other path.\<close>

lemma other_WriteFile: "q \<noteq> p \<Longrightarrow> node_at (snd (os_WriteFile p d h)) q = node_at h q"
  by (auto simp: os_WriteFile_def next_fault_node split: prod.splits os_outcome.splits)

lemma other_Remove: "q \<noteq> p \<Longrightarrow> node_at (snd (os_Remove p h)) q = node_at h q"
  by (auto simp: os_Remove_def next_fault_node split: prod.splits option.splits fs_node.splits)

lemma other_Rename: "q \<noteq> p \<Longrightarrow> q \<noteq> p' \<Longrightarrow> node_at (snd (os_Rename p p' h)) q = node_at h q"
  by (auto simp: os_Rename_def next_fault_node node_at_set_rename
      split: prod.splits option.splits fs_node.splits)

lemma other_Write: "q \<noteq> p \<Longrightarrow> node_at (snd (file_Write p d h)) q = node_at h q"
  by (auto simp: file_Write_def next_fault_node split: prod.splits os_outcome.splits)

lemmas other_node [os_simps] = other_WriteFile other_Remove other_Rename other_Write

text \<open>Results of the calls.\<close>

lemma os_ReadFile_Inr: "os_ReadFile p h = (Inr d, h') \<Longrightarrow> node_at h p = Some (File d)"
  by (auto simp: os_ReadFile_def next_fault_node split: prod.splits if_splits option.splits fs_node.splits)

lemma os_WriteFile_Inr: "os_WriteFile p d h = (Inr u, h') \<Longrightarrow> node_at h' p = Some (File d)"
  by (auto simp: os_WriteFile_def split: prod.splits if_splits os_outcome.splits)

lemma os_Remove_Inr: "os_Remove p h = (Inr u, h') \<Longrightarrow> node_at h' p = None"
  by (auto simp: os_Remove_def split: prod.splits if_splits option.splits fs_node.splits)

lemma os_Remove_Inl: "os_Remove p h = (Inl e, h') \<Longrightarrow> node_at h' q = node_at h q"
  by (auto simp: os_Remove_def next_fault_node split: prod.splits if_splits option.splits fs_node.splits)

lemma os_Rename_Inl: "os_Rename p p' h = (Inl e, h') \<Longrightarrow> node_at h' q = node_at h q"
  by (auto simp: os_Rename_def next_fault_node split: prod.splits if_splits option.splits fs_node.splits)

lemma os_Rename_Inr:
  "os_Rename p p' h = (Inr u, h') \<Longrightarrow> p \<noteq> p' \<Longrightarrow>
   \<exists>d. node_at h p = Some (File d) \<and> node_at h' p' = Some (File d) \<and> node_at h' p = None"
  by (auto simp: os_Rename_def next_fault_node node_at_set_rename
      split: prod.splits if_splits option.splits fs_node.splits)

section \<open>A machine without faults\<close>

text \<open>Without faults every call is determined by the disk.\<close>

lemma ok_ReadFile: "faults h = [] \<Longrightarrow> os_ReadFile p h =
    (case node_at h p of Some (File d) \<Rightarrow> Inr d | Some Dir \<Rightarrow> Inl (OsError ''is a directory'')
     | None \<Rightarrow> Inl OsErrNotExist, h)"
  by (auto simp: os_ReadFile_def split: option.splits fs_node.splits)

lemma ok_WriteFile: "faults h = [] \<Longrightarrow> node_at h p \<noteq> Some Dir \<Longrightarrow> dir_exists h (filepath_Dir p) \<Longrightarrow>
    os_WriteFile p d h = (Inr (), put_node p (File d) (put_node p (File []) h))"
  by (simp add: os_WriteFile_def)

lemma ok_Remove_file: "faults h = [] \<Longrightarrow> node_at h p \<noteq> Some Dir \<Longrightarrow>
    os_Remove p h = (if node_at h p = None then (Inl OsErrNotExist, h) else (Inr (), del_node p h))"
  by (auto simp: os_Remove_def split: option.splits fs_node.splits)

lemma faults_frame:
  "faults h = [] \<Longrightarrow> faults (snd (os_ReadFile p h)) = []"
  "faults h = [] \<Longrightarrow> faults (snd (os_Stat p h)) = []"
  "faults h = [] \<Longrightarrow> faults (snd (os_WriteFile p d h)) = []"
  "faults h = [] \<Longrightarrow> faults (snd (os_Remove p h)) = []"
  "faults h = [] \<Longrightarrow> faults (snd (os_Rename p p' h)) = []"
  "faults h = [] \<Longrightarrow> faults (snd (os_ReadDir p h)) = []"
  by (auto simp: os_call_defs Let_def split: option.splits fs_node.splits)

end
