(* ===== verification/Config.thy ===== *)
theory Config
  imports Go_OS
begin

text \<open>
  \<^verbatim>\<open>s3/config.go\<close>: the option record, its defaults, its validation and the two local directories
  derived from it. The field \<^verbatim>\<open>Logger\<close> is left out (it only receives text); of the callback
  \<^verbatim>\<open>OnPendingWarning\<close> the model keeps whether it is set.
\<close>

section \<open>Options\<close>

definition DefaultMaxCacheSize :: int where "DefaultMaxCacheSize = 500"
definition DefaultMaxFileSize :: int where "DefaultMaxFileSize = 64 * 1024 * 1024"
definition DefaultRetryAttempts :: int where "DefaultRetryAttempts = 5"
definition DefaultRetryBaseDelay :: duration where "DefaultRetryBaseDelay = 500 * 10 ^ 6"
definition DefaultRequestTimeout :: duration where "DefaultRequestTimeout = 120 * 10 ^ 9"
definition DefaultLeaseDuration :: duration where "DefaultLeaseDuration = 60 * 10 ^ 9"
definition DefaultLeaseRenewal :: duration where "DefaultLeaseRenewal = 20 * 10 ^ 9"
definition DefaultRetryMaxDuration :: duration where "DefaultRetryMaxDuration = 0"
definition DefaultRetryFlushInterval :: duration where "DefaultRetryFlushInterval = 5 * 10 ^ 9"
definition DefaultPendingShadowPrefix :: string where "DefaultPendingShadowPrefix = ''pending_shadow''"
definition DefaultPendingMaxConcurrency :: int where "DefaultPendingMaxConcurrency = 4"

lemmas default_defs =
  DefaultMaxCacheSize_def DefaultMaxFileSize_def DefaultRetryAttempts_def DefaultRetryBaseDelay_def
  DefaultRequestTimeout_def DefaultLeaseDuration_def DefaultLeaseRenewal_def
  DefaultRetryMaxDuration_def DefaultRetryFlushInterval_def DefaultPendingShadowPrefix_def
  DefaultPendingMaxConcurrency_def

record OpenOption =
  Bucket :: string
  Path :: string
  Ak :: string
  Sk :: string
  Region :: string
  Endpoint :: string
  LocalCacheDir :: string
  MaxCacheSize :: int
  MaxFileSize :: int
  RetryMaxAttempts :: int
  RetryBaseDelay :: duration
  RequestTimeout :: duration
  LeaseDuration :: duration
  LeaseRenewal :: duration
  EnableLocalPersistence :: bool
  LocalPersistenceDir :: string
  RetryMaxDuration :: duration
  RetryFlushInterval :: duration
  PendingShadowPrefix :: string
  PendingMaxConcurrency :: int
  MaxPendingSize :: int
  OnPendingWarning :: bool

definition or_default :: "int \<Rightarrow> int \<Rightarrow> int" where
  "or_default d x = (if x \<le> 0 then d else x)"

definition ApplyDefaults :: "OpenOption \<Rightarrow> OpenOption" where
  "ApplyDefaults opt = opt
     \<lparr> MaxCacheSize := or_default DefaultMaxCacheSize (MaxCacheSize opt),
       MaxFileSize := or_default DefaultMaxFileSize (MaxFileSize opt),
       RetryMaxAttempts := or_default DefaultRetryAttempts (RetryMaxAttempts opt),
       RetryBaseDelay := or_default DefaultRetryBaseDelay (RetryBaseDelay opt),
       RequestTimeout := or_default DefaultRequestTimeout (RequestTimeout opt),
       LeaseDuration := or_default DefaultLeaseDuration (LeaseDuration opt),
       LeaseRenewal := or_default DefaultLeaseRenewal (LeaseRenewal opt),
       EnableLocalPersistence := (if \<not> EnableLocalPersistence opt then True else EnableLocalPersistence opt),
       RetryMaxDuration := or_default DefaultRetryMaxDuration (RetryMaxDuration opt),
       RetryFlushInterval := or_default DefaultRetryFlushInterval (RetryFlushInterval opt),
       PendingShadowPrefix :=
         (if PendingShadowPrefix opt = '''' then DefaultPendingShadowPrefix else PendingShadowPrefix opt),
       PendingMaxConcurrency := or_default DefaultPendingMaxConcurrency (PendingMaxConcurrency opt) \<rparr>"

definition Validate :: "OpenOption \<Rightarrow> error option" where
  "Validate opt =
     (if Bucket opt = '''' then Some (NewError ''Bucket is required'')
      else if Path opt = '''' then Some (NewError ''Path is required'')
      else if Ak opt = '''' then Some (NewError ''Ak is required'')
      else if Sk opt = '''' then Some (NewError ''Sk is required'')
      else if Region opt = '''' then Some (NewError ''Region is required'')
      else if LocalCacheDir opt = '''' then Some (NewError ''LocalCacheDir is required'')
      else None)"

definition LocalPath :: "OpenOption \<Rightarrow> string" where
  "LocalPath opt = filepath_Join [LocalCacheDir opt, Path opt]"

definition LocalPersistencePath :: "OpenOption \<Rightarrow> string" where
  "LocalPersistencePath opt =
     (if LocalPersistenceDir opt \<noteq> ''''
      then filepath_Join [LocalPersistenceDir opt, Path opt, ''pending_uploads'']
      else filepath_Join [LocalCacheDir opt, Path opt, ''pending_uploads''])"

section \<open>Defaults\<close>

text \<open>The numeric fields that every later computation divides, shifts or waits by are positive.\<close>

definition positive_options :: "OpenOption \<Rightarrow> bool" where
  "positive_options opt = list_all (\<lambda>x. 0 < x)
     [MaxCacheSize opt, MaxFileSize opt, RetryMaxAttempts opt, RetryBaseDelay opt, RequestTimeout opt,
      LeaseDuration opt, LeaseRenewal opt, RetryFlushInterval opt, PendingMaxConcurrency opt]"

lemma or_default_pos: "0 < d \<Longrightarrow> 0 < or_default d x"
  by (simp add: or_default_def)

lemma or_default_idem: "or_default d (or_default d x) = or_default d x"
  by (simp add: or_default_def)

lemma positive_options_ApplyDefaults: "positive_options (ApplyDefaults opt)"
  by (simp add: positive_options_def ApplyDefaults_def or_default_pos default_defs)

text \<open>
  \<open>ApplyDefaults\<close> makes every size, count and duration that the program computes with
  positive, changes nothing when it is applied again, keeps every positive setting, and leaves the
  required fields alone, so that \<open>Validate\<close> gives the same answer before and after it.
\<close>

theorem ApplyDefaults_correct:
  "positive_options (ApplyDefaults opt)
   \<and> ApplyDefaults (ApplyDefaults opt) = ApplyDefaults opt
   \<and> (positive_options opt \<longrightarrow> RetryMaxAttempts (ApplyDefaults opt) = RetryMaxAttempts opt
        \<and> MaxFileSize (ApplyDefaults opt) = MaxFileSize opt
        \<and> LeaseDuration (ApplyDefaults opt) = LeaseDuration opt)
   \<and> Validate (ApplyDefaults opt) = Validate opt
   \<and> LocalPath (ApplyDefaults opt) = LocalPath opt"
proof -
  have "ApplyDefaults (ApplyDefaults opt) = ApplyDefaults opt"
    by (simp add: ApplyDefaults_def or_default_idem default_defs)
  moreover have "Validate (ApplyDefaults opt) = Validate opt"
    by (simp add: ApplyDefaults_def Validate_def)
  ultimately show ?thesis
    by (simp add: positive_options_ApplyDefaults)
      (simp add: ApplyDefaults_def positive_options_def or_default_def LocalPath_def)
qed

definition demo_option :: OpenOption where
  "demo_option =
     \<lparr> Bucket = ''b'', Path = ''db'', Ak = ''ak'', Sk = ''sk'', Region = ''r'', Endpoint = '''',
       LocalCacheDir = ''/c'', MaxCacheSize = 3, MaxFileSize = 8, RetryMaxAttempts = 2,
       RetryBaseDelay = 5, RequestTimeout = 100, LeaseDuration = 60, LeaseRenewal = 20,
       EnableLocalPersistence = True, LocalPersistenceDir = '''', RetryMaxDuration = 0,
       RetryFlushInterval = 5, PendingShadowPrefix = ''sh'', PendingMaxConcurrency = 4,
       MaxPendingSize = 0, OnPendingWarning = False \<rparr>"

theorem ApplyDefaults_correct_witness:
  "positive_options demo_option \<and> MaxFileSize (ApplyDefaults demo_option) = 8"
  using ApplyDefaults_correct [of demo_option]
  by (simp add: demo_option_def positive_options_def)

text \<open>
  two options that the field comments describe as switches cannot be switched off: after
  \<open>ApplyDefaults\<close>, which every constructor calls, local persistence is always enabled and the
  shadow prefix is never empty.
\<close>

theorem persistence_and_shadow_always_on:
  "EnableLocalPersistence (ApplyDefaults (opt\<lparr>EnableLocalPersistence := False, PendingShadowPrefix := ''''\<rparr>))
   \<and> PendingShadowPrefix (ApplyDefaults (opt\<lparr>EnableLocalPersistence := False, PendingShadowPrefix := ''''\<rparr>)) \<noteq> ''''"
  by (simp add: ApplyDefaults_def DefaultPendingShadowPrefix_def)

section \<open>Validation\<close>

lemma Validate_None:
  "Validate opt = None \<longleftrightarrow>
     list_all (\<lambda>s. s \<noteq> '''') [Bucket opt, Path opt, Ak opt, Sk opt, Region opt, LocalCacheDir opt]"
  by (simp add: Validate_def)

section \<open>Directories\<close>

lemma Clean_child:
  assumes "x \<noteq> []" and "plain_name n"
  shows "filepath_Clean (x @ CHR ''/'' # n) =
    (if clean_stack x = [] then (if is_rooted x then CHR ''/'' # n else n)
     else filepath_Clean x @ CHR ''/'' # n)"
proof -
  have st: "clean_stack (x @ CHR ''/'' # n) = n # clean_stack x"
    and r: "is_rooted (x @ CHR ''/'' # n) = is_rooted x"
    using assms by (simp_all add: clean_stack_append is_rooted_def)
  show ?thesis
  proof (cases "clean_stack x = []")
    case True
    then show ?thesis using assms by (simp add: filepath_Clean_def st r plain_name_def Let_def)
  next
    case False
    then have "join_path (rev (clean_stack x)) \<noteq> [] \<or> is_rooted x \<or> hd (rev (clean_stack x)) = []"
      by (cases "rev (clean_stack x)" rule: join_path.cases) auto
    moreover have "[] \<notin> set (clean_stack x)"
    proof -
      have "[] \<notin> set (foldl (clean_step b) st cs)" if "[] \<notin> set st" for b st cs
        using that by (induction cs arbitrary: st) (auto simp: clean_step_def dest: list.set_sel(2))
      then show ?thesis by (simp add: clean_stack_def)
    qed
    then have "hd (rev (clean_stack x)) \<noteq> []"
      using False by (metis hd_in_set rev_is_Nil_conv set_rev)
    ultimately have "is_rooted x \<or> join_path (rev (clean_stack x)) \<noteq> []" by blast
    then show ?thesis
      using False join_path_snoc [of "rev (clean_stack x)" n]
      by (auto simp: filepath_Clean_def st r Let_def)
  qed
qed

text \<open>
  With the default \<open>LocalPersistenceDir\<close> the pending directory is a child of the local cache
  directory: whatever deletes the one deletes the other.
\<close>

lemma pending_under_local:
  assumes "LocalPersistenceDir opt = ''''" and "LocalCacheDir opt \<noteq> ''''"
    and "clean_dir (LocalPath opt)"
  shows "LocalPersistencePath opt = LocalPath opt @ ''/pending_uploads''"
proof -
  let ?x = "LocalCacheDir opt @ CHR ''/'' # Path opt"
  have lp: "LocalPath opt = filepath_Clean ?x"
    using assms(2) by (simp add: LocalPath_def filepath_Join_def)
  have "clean_stack ?x \<noteq> []"
  proof
    assume "clean_stack ?x = []"
    then have "LocalPath opt = ''/'' \<or> LocalPath opt = ''.''"
      by (simp add: lp filepath_Clean_def)
    with assms(3) show False by (auto simp: clean_dir_def)
  qed
  moreover have "plain_name ''pending_uploads''" by (simp add: plain_name_def)
  ultimately have "filepath_Clean (?x @ CHR ''/'' # ''pending_uploads'') = filepath_Clean ?x @ ''/pending_uploads''"
    by (subst Clean_child) simp_all
  then show ?thesis
    using assms(1,2) by (simp add: LocalPersistencePath_def filepath_Join_def lp)
qed

end
