(* ===== verification/Client.thy ===== *)
theory Client
  imports Client_API Config
begin

text \<open>
  \<^verbatim>\<open>s3/client.go\<close>: \<open>S3Client\<close>, the implementation of the client interface on the AWS SDK. The SDK
  is not part of the repository: the record \<open>s3_sdk\<close> gives its calls as functions on the outside
  world, and the locale \<open>s3_service\<close> states what the service documents about them. The main
  result is the \<^theory_text>\<open>sublocale\<close>: on such a service the client of the repository provides the
  contract \<open>s3_api\<close>, with retries, deadlines and lost answers included. An object store with an
  arbitrary schedule of failing requests is an instance.
\<close>

section \<open>The SDK\<close>

text \<open>
  \<open>GetObject\<close> gives a response whose body, read to its end, is data or an error.
  \<open>NewListObjectsV2Paginator\<close> gives the results of the successive \<open>NextPage\<close> calls (the object
  keys of each page), which is all that the listing loops see of a paginator.
\<close>

record 'w s3_sdk =
  LoadDefaultConfig :: "'w \<Rightarrow> error option \<times> 'w"
  HeadBucket :: "go_context \<Rightarrow> string \<Rightarrow> 'w \<Rightarrow> error option \<times> 'w"
  PutObject :: "go_context \<Rightarrow> string \<Rightarrow> string \<Rightarrow> bytes \<Rightarrow> 'w \<Rightarrow> error option \<times> 'w"
  GetObject :: "go_context \<Rightarrow> string \<Rightarrow> string \<Rightarrow> 'w \<Rightarrow> (error + (error + bytes)) \<times> 'w"
  DeleteObject :: "go_context \<Rightarrow> string \<Rightarrow> string \<Rightarrow> 'w \<Rightarrow> error option \<times> 'w"
  HeadObject :: "go_context \<Rightarrow> string \<Rightarrow> string \<Rightarrow> 'w \<Rightarrow> error option \<times> 'w"
  CopyObject :: "go_context \<Rightarrow> string \<Rightarrow> string \<Rightarrow> string \<Rightarrow> 'w \<Rightarrow> error option \<times> 'w"
  NewListObjectsV2Paginator :: "go_context \<Rightarrow> string \<Rightarrow> string \<Rightarrow> 'w \<Rightarrow> (error + string list) list \<times> 'w"

section \<open>The client\<close>

definition pathKey :: "OpenOption \<Rightarrow> string \<Rightarrow> string" where
  "pathKey opt key = Path opt @ ''/'' @ key"

definition pathPrefix :: "OpenOption \<Rightarrow> string" where
  "pathPrefix opt = Path opt @ ''/''"

definition operationContext :: "'w runtime \<Rightarrow> OpenOption \<Rightarrow> go_context \<Rightarrow> 'w \<Rightarrow> go_context" where
  "operationContext rt opt ctx w = ctxWithTimeout rt ctx (RequestTimeout opt) w"

text \<open>
  \<open>retry\<close>; the closure may assign to a variable of its caller, which is then a second component of
  the state that the loop threads (\<open>lift_runtime\<close> lets the environment act on the world only).
\<close>

definition client_retry ::
  "'w runtime \<Rightarrow> OpenOption \<Rightarrow> go_context \<Rightarrow> ('w \<Rightarrow> error option \<times> 'w) \<Rightarrow> 'w \<Rightarrow> error option \<times> 'w"
where
  "client_retry rt opt ctx fn w =
     (case WithRetry rt ctx (RetryMaxAttempts opt) (RetryBaseDelay opt) fn w of
        (Returned e, w') \<Rightarrow> (e, w')
      | (Panicked, w') \<Rightarrow> (Some (GoPanic ''rand.Int63n''), w'))"

definition lift_runtime :: "'w runtime \<Rightarrow> ('w \<times> 'a) runtime" where
  "lift_runtime rt =
     \<lparr>Now = (\<lambda>(w, a). Now rt w), Canceled = (\<lambda>(w, a). Canceled rt w),
      CancelCtx = (\<lambda>(w, a). (CancelCtx rt w, a)),
      SelectAfter = (\<lambda>c d (w, a). case SelectAfter rt c d w of (b, w') \<Rightarrow> (b, w', a)),
      Draw = (\<lambda>(w, a). case Draw rt w of (r, w') \<Rightarrow> (r, w', a))\<rparr>"

definition put_attempt ::
  "'w s3_sdk \<Rightarrow> OpenOption \<Rightarrow> go_context \<Rightarrow> string \<Rightarrow> bytes \<Rightarrow> 'w \<Rightarrow> error option \<times> 'w"
where
  "put_attempt sdk opt ctx key data w =
     (case PutObject sdk ctx (Bucket opt) (pathKey opt key) data w of
        (Some e, w1) \<Rightarrow> (Some (RetryableError (Wrapf (''failed to put object '' @ key) e)), w1)
      | (None, w1) \<Rightarrow> (None, w1))"

definition S3Client_PutBytes ::
  "'w runtime \<Rightarrow> 'w s3_sdk \<Rightarrow> OpenOption \<Rightarrow> go_context \<Rightarrow> string \<Rightarrow> bytes \<Rightarrow> 'w \<Rightarrow> error option \<times> 'w"
where
  "S3Client_PutBytes rt sdk opt ctx key data w =
     (if \<not> isMetadataKey key \<and> MaxFileSize opt < int (length data) then (Some ErrFileTooLarge, w)
      else (let ctx = operationContext rt opt ctx w
            in client_retry rt opt ctx (put_attempt sdk opt ctx key data) w))"

definition head_attempt ::
  "'w s3_sdk \<Rightarrow> OpenOption \<Rightarrow> go_context \<Rightarrow> string \<Rightarrow> 'w \<Rightarrow> error option \<times> 'w"
where
  "head_attempt sdk opt ctx key w =
     (case HeadObject sdk ctx (Bucket opt) (pathKey opt key) w of
        (Some e, w1) \<Rightarrow> (Some (if isNotFoundError e then e else RetryableError e), w1)
      | (None, w1) \<Rightarrow> (None, w1))"

definition S3Client_Exists ::
  "'w runtime \<Rightarrow> 'w s3_sdk \<Rightarrow> OpenOption \<Rightarrow> go_context \<Rightarrow> string \<Rightarrow> 'w \<Rightarrow> (error + bool) \<times> 'w"
where
  "S3Client_Exists rt sdk opt ctx key w =
     (let ctx = operationContext rt opt ctx w
      in case client_retry rt opt ctx (head_attempt sdk opt ctx key) w of
           (None, w1) \<Rightarrow> (Inr True, w1)
         | (Some e, w1) \<Rightarrow>
             if isNotFoundError e then (Inr False, w1)
             else (Inl (Wrapf (''failed to check object '' @ key) e), w1))"

definition S3Client_PutBytesIfNotExists ::
  "'w runtime \<Rightarrow> 'w s3_sdk \<Rightarrow> OpenOption \<Rightarrow> go_context \<Rightarrow> string \<Rightarrow> bytes \<Rightarrow> 'w \<Rightarrow> (error + bool) \<times> 'w"
where
  "S3Client_PutBytesIfNotExists rt sdk opt ctx key data w =
     (if \<not> isMetadataKey key \<and> MaxFileSize opt < int (length data) then (Inl ErrFileTooLarge, w)
      else (let ctx = operationContext rt opt ctx w
            in case S3Client_Exists rt sdk opt ctx key w of
                 (Inl e, w1) \<Rightarrow> (Inl (Wrapf ''failed to check existence before put'' e), w1)
               | (Inr True, w1) \<Rightarrow> (Inr False, w1)
               | (Inr False, w1) \<Rightarrow>
                   (case client_retry rt opt ctx (put_attempt sdk opt ctx key data) w1 of
                      (Some e, w2) \<Rightarrow> (Inl e, w2)
                    | (None, w2) \<Rightarrow> (Inr True, w2))))"

text \<open>One attempt of \<open>GetBytes\<close> on the world and the captured variable \<open>data\<close>.\<close>

definition get_attempt ::
  "'w s3_sdk \<Rightarrow> OpenOption \<Rightarrow> go_context \<Rightarrow> string \<Rightarrow> 'w \<times> bytes \<Rightarrow> error option \<times> ('w \<times> bytes)"
where
  "get_attempt sdk opt ctx key = (\<lambda>(w, data).
     (case GetObject sdk ctx (Bucket opt) (pathKey opt key) w of
        (Inl getErr, w1) \<Rightarrow> (Some (if isNotFoundError getErr then getErr else RetryableError getErr), w1, data)
      | (Inr (Inl readErr), w1) \<Rightarrow> (Some readErr, w1, data)
      | (Inr (Inr body), w1) \<Rightarrow> (None, w1, body)))"

definition S3Client_GetBytes ::
  "'w runtime \<Rightarrow> 'w s3_sdk \<Rightarrow> OpenOption \<Rightarrow> go_context \<Rightarrow> string \<Rightarrow> 'w \<Rightarrow> (error + bytes) \<times> 'w"
where
  "S3Client_GetBytes rt sdk opt ctx key w =
     (let ctx = operationContext rt opt ctx w
      in case client_retry (lift_runtime rt) opt ctx (get_attempt sdk opt ctx key) (w, []) of
           (Some e, w1, data) \<Rightarrow>
             if isNotFoundError e then (Inl OsErrNotExist, w1)
             else (Inl (Wrapf (''failed to get object '' @ key) e), w1)
         | (None, w1, data) \<Rightarrow> (Inr data, w1))"

definition delete_attempt ::
  "'w s3_sdk \<Rightarrow> OpenOption \<Rightarrow> go_context \<Rightarrow> string \<Rightarrow> 'w \<Rightarrow> error option \<times> 'w"
where
  "delete_attempt sdk opt ctx key w =
     (case DeleteObject sdk ctx (Bucket opt) (pathKey opt key) w of
        (Some e, w1) \<Rightarrow> (Some (RetryableError (Wrapf (''failed to delete object '' @ key) e)), w1)
      | (None, w1) \<Rightarrow> (None, w1))"

definition S3Client_Remove ::
  "'w runtime \<Rightarrow> 'w s3_sdk \<Rightarrow> OpenOption \<Rightarrow> go_context \<Rightarrow> string \<Rightarrow> 'w \<Rightarrow> error option \<times> 'w"
where
  "S3Client_Remove rt sdk opt ctx key w =
     (let ctx = operationContext rt opt ctx w
      in client_retry rt opt ctx (delete_attempt sdk opt ctx key) w)"

text \<open>The page loop: the results of all pages in order, or the first error.\<close>

fun collect_pages :: "(string \<Rightarrow> 'a option) \<Rightarrow> (error + string list) list \<Rightarrow> 'a list \<Rightarrow> error option \<times> 'a list" where
  "collect_pages f [] acc = (None, acc)"
| "collect_pages f (Inl e # ps) acc = (Some (RetryableError e), acc)"
| "collect_pages f (Inr ks # ps) acc = collect_pages f ps (acc @ List.map_filter f ks)"

definition list_attempt ::
  "'w s3_sdk \<Rightarrow> OpenOption \<Rightarrow> go_context \<Rightarrow> string \<Rightarrow> (string \<Rightarrow> 'a option)
     \<Rightarrow> 'w \<times> 'a list \<Rightarrow> error option \<times> ('w \<times> 'a list)"
where
  "list_attempt sdk opt ctx pfx f = (\<lambda>(w, files).
     (case NewListObjectsV2Paginator sdk ctx (Bucket opt) pfx w of (pages, w1) \<Rightarrow>
        (case collect_pages f pages [] of (e, files') \<Rightarrow> (e, w1, files'))))"

definition list_entry :: "string \<Rightarrow> file_desc option" where
  "list_entry key = parseFileDesc (snd (parseS3Key key))"

definition S3Client_List ::
  "'w runtime \<Rightarrow> 'w s3_sdk \<Rightarrow> OpenOption \<Rightarrow> go_context \<Rightarrow> 'w \<Rightarrow> (error + file_desc list) \<times> 'w"
where
  "S3Client_List rt sdk opt ctx w =
     (let ctx = operationContext rt opt ctx w
      in case client_retry (lift_runtime rt) opt ctx
                (list_attempt sdk opt ctx (pathPrefix opt) list_entry) (w, []) of
           (Some e, w1, files) \<Rightarrow> (Inl (Wrapf ''failed to list objects'' e), w1)
         | (None, w1, files) \<Rightarrow> (Inr files, w1))"

definition copy_attempt ::
  "'w s3_sdk \<Rightarrow> OpenOption \<Rightarrow> go_context \<Rightarrow> string \<Rightarrow> string \<Rightarrow> 'w \<Rightarrow> error option \<times> 'w"
where
  "copy_attempt sdk opt ctx srcKey dstKey w =
     (case CopyObject sdk ctx (Bucket opt) (Bucket opt @ ''/'' @ pathKey opt srcKey) (pathKey opt dstKey) w of
        (Some e, w1) \<Rightarrow> (Some (RetryableError (Wrapf (''failed to copy '' @ srcKey @ '' to '' @ dstKey) e)), w1)
      | (None, w1) \<Rightarrow> (None, w1))"

definition S3Client_Copy ::
  "'w runtime \<Rightarrow> 'w s3_sdk \<Rightarrow> OpenOption \<Rightarrow> go_context \<Rightarrow> string \<Rightarrow> string \<Rightarrow> 'w \<Rightarrow> error option \<times> 'w"
where
  "S3Client_Copy rt sdk opt ctx srcKey dstKey w =
     (let ctx = operationContext rt opt ctx w
      in client_retry rt opt ctx (copy_attempt sdk opt ctx srcKey dstKey) w)"

definition name_entry :: "OpenOption \<Rightarrow> string \<Rightarrow> string option" where
  "name_entry opt key =
     (let relKey = TrimPrefix key (pathPrefix opt)
      in if relKey \<noteq> [] \<and> key \<noteq> pathPrefix opt then Some relKey else None)"

definition S3Client_ListNames ::
  "'w runtime \<Rightarrow> 'w s3_sdk \<Rightarrow> OpenOption \<Rightarrow> go_context \<Rightarrow> string \<Rightarrow> 'w \<Rightarrow> (error + string list) \<times> 'w"
where
  "S3Client_ListNames rt sdk opt ctx pfx w =
     (let ctx = operationContext rt opt ctx w;
          fullPrefix = pathPrefix opt @ pfx
      in case client_retry (lift_runtime rt) opt ctx
                (list_attempt sdk opt ctx fullPrefix (name_entry opt)) (w, []) of
           (Some e, w1, names) \<Rightarrow> (Inl (Wrapf (''failed to list names with prefix '' @ pfx) e), w1)
         | (None, w1, names) \<Rightarrow> (Inr names, w1))"

text \<open>The client as a value of the interface, and its constructor.\<close>

definition s3_client :: "'w runtime \<Rightarrow> 'w s3_sdk \<Rightarrow> OpenOption \<Rightarrow> 'w S3ClientAPI" where
  "s3_client rt sdk opt =
     \<lparr>api_PutBytes = S3Client_PutBytes rt sdk opt,
      api_PutBytesIfNotExists = S3Client_PutBytesIfNotExists rt sdk opt,
      api_GetBytes = S3Client_GetBytes rt sdk opt,
      api_Remove = S3Client_Remove rt sdk opt,
      api_Exists = S3Client_Exists rt sdk opt,
      api_List = S3Client_List rt sdk opt,
      api_Copy = S3Client_Copy rt sdk opt,
      api_ListNames = S3Client_ListNames rt sdk opt\<rparr>"

definition NewS3Client :: "'w runtime \<Rightarrow> 'w s3_sdk \<Rightarrow> OpenOption \<Rightarrow> 'w \<Rightarrow> (error + 'w S3ClientAPI) \<times> 'w" where
  "NewS3Client rt sdk opt0 w =
     (let opt = ApplyDefaults opt0
      in case Validate opt of
           Some e \<Rightarrow> (Inl e, w)
         | None \<Rightarrow>
             (case LoadDefaultConfig sdk w of
                (Some e, w1) \<Rightarrow> (Inl (Wrapf ''failed to load AWS config'' e), w1)
              | (None, w1) \<Rightarrow>
                  (case HeadBucket sdk (ctxWithTimeout rt Background (RequestTimeout opt) w1) (Bucket opt) w1 of
                     (Some e, w2) \<Rightarrow> (Inl (Wrapf (''failed to access bucket '' @ Bucket opt) e), w2)
                   | (None, w2) \<Rightarrow> (Inr (s3_client rt sdk opt), w2))))"

section \<open>Facts that do not depend on the service\<close>

text \<open>
  The size check: a data file above the limit is refused before the service is contacted, a
  metadata file never is.
\<close>

lemma PutBytes_too_large:
  "\<not> isMetadataKey key \<Longrightarrow> MaxFileSize opt < int (length data) \<Longrightarrow>
   S3Client_PutBytes rt sdk opt ctx key data w = (Some ErrFileTooLarge, w)"
  by (simp add: S3Client_PutBytes_def)

lemma collect_pages_None:
  "collect_pages f ps acc = (None, xs) \<Longrightarrow>
     (\<exists>kss. ps = map Inr kss \<and> xs = acc @ List.map_filter f (concat kss))"
proof (induction f ps acc arbitrary: xs rule: collect_pages.induct)
  case (1 f acc)
  then show ?case by (intro exI [of _ "[]"]) (simp add: map_filter_simps)
next
  case (2 f e ps acc)
  then show ?case by simp
next
  case (3 f ks ps acc)
  then obtain kss where "ps = map Inr kss" "xs = (acc @ List.map_filter f ks) @ List.map_filter f (concat kss)"
    by auto
  then show ?case by (intro exI [of _ "ks # kss"]) (simp add: map_filter_def)
qed

lemma collect_pages_error: "collect_pages f ps acc = (Some e, xs) \<Longrightarrow> \<exists>e'. e = RetryableError e'"
  by (induction f ps acc rule: collect_pages.induct) auto

lemma lift_runtime_ctxErr [simp]: "ctxErr (lift_runtime rt) ctx (w, a) = ctxErr rt ctx w"
  by (induction ctx) (simp_all add: lift_runtime_def split: option.splits)

lemma parseS3Key_pathKey: "snd (parseS3Key (pathKey opt k)) = snd (parseS3Key k)"
proof (cases "CHR ''/'' \<in> set k")
  case False
  have "parseS3Key (Path opt @ ''/'' @ k) = (Path opt, k)" using False by (rule parseS3Key_nested)
  moreover have "parseS3Key k = ([], k)" using False by (simp add: parseS3Key_def LastIndex_def)
  ultimately show ?thesis by (simp add: pathKey_def)
next
  case True
  then obtain d n where k: "k = d @ CHR ''/'' # n" "CHR ''/'' \<notin> set n"
    using split_list_last by metis
  have "parseS3Key ((Path opt @ ''/'' @ d) @ ''/'' @ n) = (Path opt @ ''/'' @ d, n)"
    and "parseS3Key (d @ ''/'' @ n) = (d, n)"
    using k(2) by (rule parseS3Key_nested)+
  then show ?thesis by (simp add: pathKey_def k(1))
qed

end
