(* ===== verification/Client_Contract.thy ===== *)
theory Client_Contract
  imports Client
begin

text \<open>
  The client of \<^verbatim>\<open>client.go\<close> fulfils the contract of \<^verbatim>\<open>interface.go\<close>. \<open>s3_service\<close> is what the
  object service and the SDK document; \<open>client_view\<close> maps the keys of the interface to the objects
  under the configured path. At the end an executable object store with a fault schedule
  instantiates the service.
\<close>

section \<open>Reasoning about retried requests\<close>

lemma ctxErr_cases: "ctxErr rt ctx w = Some e \<Longrightarrow> e = ContextCanceled \<or> e = ContextDeadlineExceeded"
  by (induction ctx) (auto split: option.splits if_splits)

text \<open>
  \<open>Q\<close> holds after a successful attempt, \<open>I\<close> before and after every other one, \<open>P\<close> of an error that
  ends the loop at once.
\<close>

definition final_error :: "(error \<Rightarrow> 'w \<Rightarrow> bool) \<Rightarrow> error \<Rightarrow> 'w \<Rightarrow> bool" where
  "final_error P e w = (e = RetryableError ErrRetryExhausted \<or> e = ContextCanceled
     \<or> e = ContextDeadlineExceeded \<or> P e w)"

lemma retry_loop_rule:
  assumes ok: "\<And>w w'. I w \<Longrightarrow> fn w = (None, w') \<Longrightarrow> Q w'"
    and err: "\<And>w e w'. I w \<Longrightarrow> fn w = (Some e, w') \<Longrightarrow> I w' \<and> (\<not> IsRetryable e \<longrightarrow> P e w')"
    and dr: "\<And>w. I w \<Longrightarrow> I (snd (Draw rt w))"
    and sel: "\<And>d w. I w \<Longrightarrow> I (snd (SelectAfter rt ctx d w))"
  shows "I w \<Longrightarrow> retry_loop rt ctx b fn k a w = (Returned r, w') \<Longrightarrow>
     (case r of None \<Rightarrow> Q w' | Some e \<Rightarrow> I w' \<and> final_error P e w')"
proof (induction k arbitrary: a w)
  case 0
  then show ?case by (auto simp: final_error_def)
next
  case (Suc k)
  have fe: "final_error P e x" if "ctxErr rt ctx y = Some e" for e x y
    using ctxErr_cases [OF that] by (auto simp: final_error_def)
  show ?case
  proof (cases "ctxErr rt ctx w")
    case (Some e)
    then have "r = Some e" and "w' = w" using Suc.prems(2) by simp_all
    then show ?thesis using Suc.prems(1) fe [OF Some] by simp
  next
    case alive: None
    obtain x w1 where f: "fn w = (x, w1)" by force
    show ?thesis
    proof (cases x)
      case None
      with Suc.prems alive f ok [OF Suc.prems(1)] show ?thesis by auto
    next
      case (Some e)
      with f have i1: "I w1" and p: "\<not> IsRetryable e \<longrightarrow> P e w1"
        using err [OF Suc.prems(1)] by auto
      obtain d w2 where c: "calcBackoff rt b a w1 = (d, w2)" by force
      have i2: "I w2"
        using c dr [OF i1] i1 by (auto simp: calcBackoff_def Int63n_def Let_def split: prod.splits if_splits)
      obtain t w3 where s: "sleepCtx rt ctx (the d) w2 = (t, w3)" by force
      have i3: "I w3"
        using s sel [OF i2, of "the d"] by (auto simp: sleepCtx_def split: prod.splits bool.splits)
      have t: "final_error P e' x" if "t = Some e'" for e' x
        using s that fe by (auto simp: sleepCtx_def split: prod.splits bool.splits)
      show ?thesis
        using Suc.prems alive f Some c s t i1 p i3 Suc.IH [OF i1, of "Suc a"] Suc.IH [OF i3, of "Suc a"]
        by (auto simp: final_error_def split: if_splits option.splits)
    qed
  qed
qed

lemma client_retry_rule:
  assumes "\<And>w w'. I w \<Longrightarrow> fn w = (None, w') \<Longrightarrow> Q w'"
    and "\<And>w e w'. I w \<Longrightarrow> fn w = (Some e, w') \<Longrightarrow> I w' \<and> (\<not> IsRetryable e \<longrightarrow> P e w')"
    and "\<And>w. I w \<Longrightarrow> I (snd (Draw rt w))"
    and "\<And>d w. I w \<Longrightarrow> I (snd (SelectAfter rt ctx d w))"
    and "0 < RetryBaseDelay opt"
    and "I w" and "client_retry rt opt ctx fn w = (r, w')"
  shows "case r of None \<Rightarrow> Q w' | Some e \<Rightarrow> I w' \<and> final_error P e w'"
proof -
  obtain x y where l: "retry_loop rt ctx (RetryBaseDelay opt) fn (nat (RetryMaxAttempts opt)) 0 w = (Returned x, y)"
    using retry_loop_returns [OF assms(5), of rt ctx fn "nat (RetryMaxAttempts opt)" 0 w] by blast
  moreover have "r = x" and "w' = y" using l assms(7) by (simp_all add: client_retry_def WithRetry_def)
  ultimately have "retry_loop rt ctx (RetryBaseDelay opt) fn (nat (RetryMaxAttempts opt)) 0 w = (Returned r, w')"
    by simp
  with assms(1-4) \<open>I w\<close> show ?thesis
    using retry_loop_rule [of I fn Q P rt ctx w "RetryBaseDelay opt" "nat (RetryMaxAttempts opt)" 0 r w']
    by blast
qed

lemma lift_quiet:
  "(\<And>w. I w \<Longrightarrow> I (snd (Draw rt w))) \<Longrightarrow> I (fst wa) \<Longrightarrow> I (fst (snd (Draw (lift_runtime rt) wa)))"
proof -
  assume q: "\<And>w. I w \<Longrightarrow> I (snd (Draw rt w))" and i: "I (fst wa)"
  obtain r w' where d: "Draw rt (fst wa) = (r, w')" by force
  then have "I w'" using q [OF i] by simp
  with d show ?thesis by (cases wa) (simp add: lift_runtime_def)
qed

lemma lift_quiet_select:
  "(\<And>d w. I w \<Longrightarrow> I (snd (SelectAfter rt ctx d w))) \<Longrightarrow> I (fst wa) \<Longrightarrow>
     I (fst (snd (SelectAfter (lift_runtime rt) ctx d wa)))"
proof -
  assume q: "\<And>d w. I w \<Longrightarrow> I (snd (SelectAfter rt ctx d w))" and i: "I (fst wa)"
  obtain r w' where d: "SelectAfter rt ctx d (fst wa) = (r, w')" by force
  then have "I w'" using q [OF i, of d] by simp
  with d show ?thesis by (cases wa) (simp add: lift_runtime_def)
qed

section \<open>The service\<close>

definition client_view :: "('w \<Rightarrow> string \<Rightarrow> bytes option) \<Rightarrow> OpenOption \<Rightarrow> 'w \<Rightarrow> string \<Rightarrow> bytes option" where
  "client_view objs opt w k = objs w (pathKey opt k)"

text \<open>
  What the service promises, for the configured bucket: \<open>objs w\<close> are its objects. A put, copy or
  delete that is acknowledged happened; one that is not may have happened. Only a missing object
  makes a read fail with one of the two not-found types, and no SDK error wraps \<^verbatim>\<open>os.ErrNotExist\<close>.
  A listing gives every key with the prefix once. Waiting and random numbers leave the objects alone.
\<close>

locale s3_service =
  fixes rt :: "'w runtime" and sdk :: "'w s3_sdk" and objs :: "'w \<Rightarrow> string \<Rightarrow> bytes option"
    and opt :: OpenOption
  assumes base_delay: "0 < RetryBaseDelay opt"
    and quiet_draw: "objs (snd (Draw rt w)) = objs w"
    and quiet_select: "objs (snd (SelectAfter rt c d w)) = objs w"
    and sdk_put_ok: "PutObject sdk c (Bucket opt) k x w = (None, w') \<Longrightarrow> objs w' = (objs w)(k \<mapsto> x)"
    and sdk_put_err: "PutObject sdk c (Bucket opt) k x w = (Some e, w') \<Longrightarrow>
      objs w' = objs w \<or> objs w' = (objs w)(k \<mapsto> x)"
    and sdk_get_objs: "GetObject sdk c (Bucket opt) k w = (r, w') \<Longrightarrow> objs w' = objs w"
    and sdk_get_ok: "GetObject sdk c (Bucket opt) k w = (Inr (Inr x), w') \<Longrightarrow> objs w k = Some x"
    and sdk_get_missing: "GetObject sdk c (Bucket opt) k w = (Inl e, w') \<Longrightarrow>
      \<not> errors_Is e OsErrNotExist \<and> (isNotFoundError e \<longrightarrow> objs w k = None)"
    and sdk_read_error: "GetObject sdk c (Bucket opt) k w = (Inr (Inl e), w') \<Longrightarrow>
      \<not> errors_Is e OsErrNotExist \<and> \<not> isNotFoundError e"
    and sdk_delete_ok: "DeleteObject sdk c (Bucket opt) k w = (None, w') \<Longrightarrow> objs w' = (objs w)(k := None)"
    and sdk_delete_err: "DeleteObject sdk c (Bucket opt) k w = (Some e, w') \<Longrightarrow>
      objs w' = objs w \<or> objs w' = (objs w)(k := None)"
    and sdk_head_objs: "HeadObject sdk c (Bucket opt) k w = (h, w') \<Longrightarrow> objs w' = objs w"
    and sdk_head_ok: "HeadObject sdk c (Bucket opt) k w = (None, w') \<Longrightarrow> objs w k \<noteq> None"
    and sdk_head_missing: "HeadObject sdk c (Bucket opt) k w = (Some e, w') \<Longrightarrow> isNotFoundError e \<Longrightarrow>
      objs w k = None"
    and sdk_copy_ok: "CopyObject sdk c (Bucket opt) (Bucket opt @ CHR ''/'' # k) k' w = (None, w') \<Longrightarrow>
      objs w k \<noteq> None \<and> objs w' = (objs w)(k' := objs w k)"
    and sdk_copy_err: "CopyObject sdk c (Bucket opt) (Bucket opt @ CHR ''/'' # k) k' w = (Some e, w') \<Longrightarrow>
      objs w' = objs w \<or> (objs w k \<noteq> None \<and> objs w' = (objs w)(k' := objs w k))"
    and sdk_pages_objs: "NewListObjectsV2Paginator sdk c (Bucket opt) p w = (pages, w') \<Longrightarrow> objs w' = objs w"
    and sdk_pages_ok: "NewListObjectsV2Paginator sdk c (Bucket opt) p w = (map Inr kss, w') \<Longrightarrow>
      distinct (concat kss) \<and> set (concat kss) = {k. objs w k \<noteq> None \<and> HasPrefix k p}"

lemma pathKey_inj [simp]: "pathKey opt k = pathKey opt k' \<longleftrightarrow> k = k'"
  by (simp add: pathKey_def)

lemma set_map_filter_iff: "y \<in> set (List.map_filter f ks) \<longleftrightarrow> (\<exists>k \<in> set ks. f k = Some y)"
  by (force simp: map_filter_def)

section \<open>Each operation\<close>

context s3_service
begin

lemma view_upd:
  "objs w' = (objs w)(pathKey opt k := x) \<Longrightarrow> client_view objs opt w' = (client_view objs opt w)(k := x)"
  by (auto simp: client_view_def fun_eq_iff)

lemma view_same: "objs w' = objs w \<Longrightarrow> client_view objs opt w' = client_view objs opt w"
  by (simp add: client_view_def fun_eq_iff)

lemma put_retry:
  assumes "client_retry rt opt ctx (put_attempt sdk opt ctx k x) w = (r, w')"
  shows "case r of None \<Rightarrow> objs w' = (objs w)(pathKey opt k \<mapsto> x)
    | Some e \<Rightarrow> objs w' = objs w \<or> objs w' = (objs w)(pathKey opt k \<mapsto> x)"
proof -
  let ?I = "\<lambda>u. objs u = objs w \<or> objs u = (objs w)(pathKey opt k \<mapsto> x)"
  let ?Q = "\<lambda>u. objs u = (objs w)(pathKey opt k \<mapsto> x)"
  have "case r of None \<Rightarrow> ?Q w' | Some e \<Rightarrow> ?I w' \<and> final_error (\<lambda>_ _. True) e w'"
  proof (rule client_retry_rule [OF _ _ _ _ base_delay _ assms])
    show "?Q u'" if "?I u" "put_attempt sdk opt ctx k x u = (None, u')" for u u'
      using that by (auto simp: put_attempt_def split: prod.splits option.splits dest: sdk_put_ok)
    show "?I u' \<and> (\<not> IsRetryable e \<longrightarrow> True)"
      if "?I u" "put_attempt sdk opt ctx k x u = (Some e, u')" for u e u'
      using that by (auto simp: put_attempt_def split: prod.splits option.splits dest: sdk_put_err)
  qed (auto simp: quiet_draw quiet_select)
  then show ?thesis by (auto split: option.splits)
qed

lemma client_put:
  assumes "S3Client_PutBytes rt sdk opt c k x w = (r, w')"
  shows "case r of None \<Rightarrow> objs w' = (objs w)(pathKey opt k \<mapsto> x)
    | Some e \<Rightarrow> objs w' = objs w \<or> objs w' = (objs w)(pathKey opt k \<mapsto> x)"
  using assms put_retry by (auto simp: S3Client_PutBytes_def Let_def split: if_splits)

lemma client_remove:
  assumes "S3Client_Remove rt sdk opt c k w = (r, w')"
  shows "case r of None \<Rightarrow> objs w' = (objs w)(pathKey opt k := None)
    | Some e \<Rightarrow> objs w' = objs w \<or> objs w' = (objs w)(pathKey opt k := None)"
proof -
  let ?I = "\<lambda>u. objs u = objs w \<or> objs u = (objs w)(pathKey opt k := None)"
  let ?Q = "\<lambda>u. objs u = (objs w)(pathKey opt k := None)"
  let ?c = "operationContext rt opt c w"
  have r: "client_retry rt opt ?c (delete_attempt sdk opt ?c k) w = (r, w')"
    using assms by (simp add: S3Client_Remove_def Let_def)
  have "case r of None \<Rightarrow> ?Q w' | Some e \<Rightarrow> ?I w' \<and> final_error (\<lambda>_ _. True) e w'"
  proof (rule client_retry_rule [OF _ _ _ _ base_delay _ r])
    show "?Q u'" if "?I u" "delete_attempt sdk opt ?c k u = (None, u')" for u u'
      using that by (auto simp: delete_attempt_def split: prod.splits option.splits dest: sdk_delete_ok)
    show "?I u' \<and> (\<not> IsRetryable e \<longrightarrow> True)"
      if "?I u" "delete_attempt sdk opt ?c k u = (Some e, u')" for u e u'
      using that by (auto simp: delete_attempt_def split: prod.splits option.splits dest: sdk_delete_err)
  qed (auto simp: quiet_draw quiet_select)
  then show ?thesis by (auto split: option.splits)
qed

lemma client_copy:
  assumes "S3Client_Copy rt sdk opt c k k' w = (r, w')"
  shows "case r of
      None \<Rightarrow> objs w (pathKey opt k) \<noteq> None \<and> objs w' = (objs w)(pathKey opt k' := objs w (pathKey opt k))
    | Some e \<Rightarrow> objs w' = objs w \<or> (objs w (pathKey opt k) \<noteq> None
        \<and> objs w' = (objs w)(pathKey opt k' := objs w (pathKey opt k)))"
proof -
  let ?done = "\<lambda>u. objs w (pathKey opt k) \<noteq> None \<and> objs u = (objs w)(pathKey opt k' := objs w (pathKey opt k))"
  let ?I = "\<lambda>u. objs u = objs w \<or> ?done u"
  let ?c = "operationContext rt opt c w"
  have r: "client_retry rt opt ?c (copy_attempt sdk opt ?c k k') w = (r, w')"
    using assms by (simp add: S3Client_Copy_def Let_def)
  have "case r of None \<Rightarrow> ?done w' | Some e \<Rightarrow> ?I w' \<and> final_error (\<lambda>_ _. True) e w'"
  proof (rule client_retry_rule [OF _ _ _ _ base_delay _ r])
    show "?done u'" if i: "?I u" and a: "copy_attempt sdk opt ?c k k' u = (None, u')" for u u'
    proof -
      have "objs u (pathKey opt k) \<noteq> None \<and> objs u' = (objs u)(pathKey opt k' := objs u (pathKey opt k))"
        using a by (auto simp: copy_attempt_def split: prod.splits option.splits dest: sdk_copy_ok)
      with i show ?thesis by (auto split: if_splits)
    qed
    show "?I u' \<and> (\<not> IsRetryable e \<longrightarrow> True)"
      if i: "?I u" and a: "copy_attempt sdk opt ?c k k' u = (Some e, u')" for u e u'
    proof -
      have "objs u' = objs u \<or> objs u (pathKey opt k) \<noteq> None
          \<and> objs u' = (objs u)(pathKey opt k' := objs u (pathKey opt k))"
        using a by (auto simp: copy_attempt_def split: prod.splits option.splits dest: sdk_copy_err)
      with i show ?thesis by (auto split: if_splits)
    qed
  qed (auto simp: quiet_draw quiet_select)
  then show ?thesis by (auto split: option.splits)
qed

text \<open>
  Operations that only read: the objects stay as they are, and the value captured by the closure is
  what the last attempt stored in it.
\<close>

lemma read_retry:
  assumes ok: "\<And>u a u' a'. objs u = objs w \<Longrightarrow> fn (u, a) = (None, u', a') \<Longrightarrow> objs u' = objs w \<and> Q a'"
    and err: "\<And>u a e u' a'. objs u = objs w \<Longrightarrow> fn (u, a) = (Some e, u', a') \<Longrightarrow>
      objs u' = objs w \<and> (\<not> IsRetryable e \<longrightarrow> P e)"
    and r: "client_retry (lift_runtime rt) opt ctx fn (w, a0) = (r, w', a)"
  shows "objs w' = objs w \<and> (case r of None \<Rightarrow> Q a | Some e \<Rightarrow> final_error (\<lambda>e _. P e) e ())"
proof -
  have "case r of None \<Rightarrow> objs (fst (w', a)) = objs w \<and> Q (snd (w', a))
      | Some e \<Rightarrow> objs (fst (w', a)) = objs w \<and> final_error (\<lambda>e _. P e) e (w', a)"
  proof (rule client_retry_rule [where I = "\<lambda>x. objs (fst x) = objs w", OF _ _ _ _ base_delay _ r])
    fix x :: "'w \<times> 'b" and d
    show "objs (fst (snd (Draw (lift_runtime rt) x))) = objs w" if "objs (fst x) = objs w"
      using that by (intro lift_quiet [where I = "\<lambda>u. objs u = objs w"]) (simp_all add: quiet_draw)
    show "objs (fst (snd (SelectAfter (lift_runtime rt) ctx d x))) = objs w" if "objs (fst x) = objs w"
      using that by (intro lift_quiet_select [where I = "\<lambda>u. objs u = objs w"]) (simp_all add: quiet_select)
  next
    fix x x'
    show "objs (fst x') = objs w \<and> Q (snd x')" if "objs (fst x) = objs w" "fn x = (None, x')"
      using that ok [of "fst x" "snd x" "fst x'" "snd x'"] by simp
    show "objs (fst x') = objs w \<and> (\<not> IsRetryable e \<longrightarrow> P e)"
      if "objs (fst x) = objs w" "fn x = (Some e, x')" for e
      using that err [of "fst x" "snd x" e "fst x'" "snd x'"] by simp
  qed simp
  then show ?thesis by (auto simp: final_error_def split: option.splits)
qed

lemma client_exists:
  assumes "S3Client_Exists rt sdk opt c k w = (r, w')"
  shows "objs w' = objs w \<and> (\<forall>b. r = Inr b \<longrightarrow> b = (objs w (pathKey opt k) \<noteq> None))"
proof -
  let ?c = "operationContext rt opt c w"
  obtain x u where x: "client_retry rt opt ?c (head_attempt sdk opt ?c k) w = (x, u)" by force
  have "case x of None \<Rightarrow> objs u = objs w \<and> objs w (pathKey opt k) \<noteq> None
      | Some e \<Rightarrow> objs u = objs w \<and> final_error (\<lambda>e _. isNotFoundError e \<longrightarrow> objs w (pathKey opt k) = None) e u"
  proof (rule client_retry_rule [where I = "\<lambda>u. objs u = objs w", OF _ _ _ _ base_delay _ x])
    show "objs u' = objs w \<and> objs w (pathKey opt k) \<noteq> None"
      if "objs u = objs w" "head_attempt sdk opt ?c k u = (None, u')" for u u'
      using that sdk_head_objs [of ?c "pathKey opt k" u] sdk_head_ok [of ?c "pathKey opt k" u]
      by (auto simp: head_attempt_def split: prod.splits option.splits)
    show "objs u' = objs w \<and> (\<not> IsRetryable e \<longrightarrow> isNotFoundError e \<longrightarrow> objs w (pathKey opt k) = None)"
      if "objs u = objs w" "head_attempt sdk opt ?c k u = (Some e, u')" for u e u'
      using that sdk_head_objs [of ?c "pathKey opt k" u] sdk_head_missing [of ?c "pathKey opt k" u]
      by (auto simp: head_attempt_def split: prod.splits option.splits if_splits)
  qed (auto simp: quiet_draw quiet_select)
  then show ?thesis using assms x
    by (auto simp: S3Client_Exists_def Let_def final_error_def split: option.splits if_splits)
qed

lemma client_get:
  assumes "S3Client_GetBytes rt sdk opt c k w = (r, w')"
  shows "objs w' = objs w \<and> (case r of Inr x \<Rightarrow> objs w (pathKey opt k) = Some x
    | Inl e \<Rightarrow> errors_Is e OsErrNotExist \<or> isNotFoundError e \<longrightarrow> objs w (pathKey opt k) = None)"
proof -
  let ?c = "operationContext rt opt c w"
  let ?P = "\<lambda>e. \<not> errors_Is e OsErrNotExist \<and> (isNotFoundError e \<longrightarrow> objs w (pathKey opt k) = None)"
  obtain x u a where x: "client_retry (lift_runtime rt) opt ?c (get_attempt sdk opt ?c k) (w, []) = (x, u, a)"
    by (metis prod.collapse)
  have "objs u = objs w \<and> (case x of None \<Rightarrow> objs w (pathKey opt k) = Some a
      | Some e \<Rightarrow> final_error (\<lambda>e _. ?P e) e ())"
  proof (rule read_retry [OF _ _ x])
    show "objs u' = objs w \<and> objs w (pathKey opt k) = Some a'"
      if "objs u = objs w" "get_attempt sdk opt ?c k (u, a) = (None, u', a')" for u a u' a'
      using that sdk_get_objs [of ?c "pathKey opt k" u] sdk_get_ok [of ?c "pathKey opt k" u]
      by (auto simp: get_attempt_def split: prod.splits sum.splits)
    show "objs u' = objs w \<and> (\<not> IsRetryable e \<longrightarrow> ?P e)"
      if "objs u = objs w" "get_attempt sdk opt ?c k (u, a) = (Some e, u', a')" for u a e u' a'
      using that sdk_get_objs [of ?c "pathKey opt k" u] sdk_get_missing [of ?c "pathKey opt k" u]
        sdk_read_error [of ?c "pathKey opt k" u]
      by (auto simp: get_attempt_def split: prod.splits sum.splits if_splits)
  qed
  then show ?thesis using assms x
    by (auto simp: S3Client_GetBytes_def Let_def final_error_def split: option.splits if_splits)
qed

lemma client_list_pages:
  assumes "client_retry (lift_runtime rt) opt ctx (list_attempt sdk opt ctx p f) (w, []) = (r, w', xs)"
  shows "objs w' = objs w \<and> (r = None \<longrightarrow> (\<exists>ks. xs = List.map_filter f ks \<and> distinct ks
     \<and> set ks = {k. objs w k \<noteq> None \<and> HasPrefix k p}))"
proof -
  let ?Q = "\<lambda>xs. \<exists>ks. xs = List.map_filter f ks \<and> distinct ks \<and> set ks = {k. objs w k \<noteq> None \<and> HasPrefix k p}"
  have "objs w' = objs w \<and> (case r of None \<Rightarrow> ?Q xs | Some e \<Rightarrow> final_error (\<lambda>_ _. True) e ())"
  proof (rule read_retry [OF _ _ assms])
    show "objs u' = objs w \<and> ?Q a'"
      if i: "objs u = objs w" and a: "list_attempt sdk opt ctx p f (u, a) = (None, u', a')" for u a u' a'
    proof -
      obtain pages where pg: "NewListObjectsV2Paginator sdk ctx (Bucket opt) p u = (pages, u')"
        and cp: "collect_pages f pages [] = (None, a')"
        using a by (auto simp: list_attempt_def split: prod.splits)
      obtain kss where "pages = map Inr kss" and "a' = List.map_filter f (concat kss)"
        using collect_pages_None [OF cp] by auto
      with pg sdk_pages_ok [of ctx p u kss u'] sdk_pages_objs [OF pg] i show ?thesis by auto
    qed
    show "objs u' = objs w \<and> (\<not> IsRetryable e \<longrightarrow> True)"
      if "objs u = objs w" "list_attempt sdk opt ctx p f (u, a) = (Some e, u', a')" for u a e u' a'
      using that by (auto simp: list_attempt_def split: prod.splits dest: sdk_pages_objs)
  qed
  then show ?thesis by auto
qed

lemma client_list:
  assumes "S3Client_List rt sdk opt c w = (r, w')"
  shows "objs w' = objs w \<and> (\<forall>fds. r = Inr fds \<longrightarrow> set fds = listed_fds (client_view objs opt w))"
proof -
  let ?c = "operationContext rt opt c w"
  obtain x u xs where x: "client_retry (lift_runtime rt) opt ?c
      (list_attempt sdk opt ?c (pathPrefix opt) list_entry) (w, []) = (x, u, xs)"
    by (metis prod.collapse)
  have "set xs = listed_fds (client_view objs opt w)" if none: "x = None"
  proof -
    obtain ks where xs: "xs = List.map_filter list_entry ks"
      and ks: "set ks = {k. objs w k \<noteq> None \<and> HasPrefix k (pathPrefix opt)}"
      using client_list_pages [OF x] none by auto
    have img: "set ks = pathKey opt ` {k. client_view objs opt w k \<noteq> None}"
      unfolding ks by (auto simp: HasPrefix_iff pathPrefix_def pathKey_def client_view_def)
    have "fd \<in> set xs \<longleftrightarrow> fd \<in> listed_fds (client_view objs opt w)" for fd
      by (simp add: xs set_map_filter_iff img listed_fds_def list_entry_def parseS3Key_pathKey)
    then show ?thesis by blast
  qed
  then show ?thesis using assms x client_list_pages [OF x]
    by (auto simp: S3Client_List_def Let_def split: option.splits)
qed

lemma client_names:
  assumes "S3Client_ListNames rt sdk opt c p w = (r, w')"
  shows "objs w' = objs w \<and> (\<forall>ks. r = Inr ks \<longrightarrow> distinct ks
     \<and> set ks = {k. client_view objs opt w k \<noteq> None \<and> k \<noteq> [] \<and> HasPrefix k p})"
proof -
  let ?c = "operationContext rt opt c w"
  obtain x u xs where x: "client_retry (lift_runtime rt) opt ?c
      (list_attempt sdk opt ?c (pathPrefix opt @ p) (name_entry opt)) (w, []) = (x, u, xs)"
    by (metis prod.collapse)
  have "distinct xs \<and> set xs = {k. client_view objs opt w k \<noteq> None \<and> k \<noteq> [] \<and> HasPrefix k p}" if none: "x = None"
  proof -
    obtain ks where xs: "xs = List.map_filter (name_entry opt) ks" and d: "distinct ks"
      and ks: "set ks = {k. objs w k \<noteq> None \<and> HasPrefix k (pathPrefix opt @ p)}"
      using client_list_pages [OF x] none by auto
    have entry: "name_entry opt (pathKey opt k) = (if k = [] then None else Some k)" for k
      by (simp add: name_entry_def pathKey_def pathPrefix_def TrimPrefix_def HasPrefix_def)
    have img: "set ks = pathKey opt ` {k. client_view objs opt w k \<noteq> None \<and> HasPrefix k p}"
      unfolding ks by (auto simp: HasPrefix_iff pathPrefix_def pathKey_def client_view_def)
    have "k \<in> set xs \<longleftrightarrow> client_view objs opt w k \<noteq> None \<and> k \<noteq> [] \<and> HasPrefix k p" for k
      by (auto simp: xs set_map_filter_iff img entry)
    then have "set xs = {k. client_view objs opt w k \<noteq> None \<and> k \<noteq> [] \<and> HasPrefix k p}" by blast
    moreover have "distinct xs"
    proof -
      have "inj_on (\<lambda>x. the (name_entry opt x)) {x \<in> set ks. name_entry opt x \<noteq> None}"
        unfolding img by (auto simp: inj_on_def entry split: if_splits)
      then show ?thesis unfolding xs map_filter_def using d by (simp add: distinct_map comp_def)
    qed
    ultimately show ?thesis by simp
  qed
  then show ?thesis using assms x client_list_pages [OF x]
    by (auto simp: S3Client_ListNames_def Let_def split: option.splits)
qed

lemma client_ifnot:
  assumes "S3Client_PutBytesIfNotExists rt sdk opt c k x w = (r, w')"
  shows "case r of
      Inr b \<Rightarrow> b = (objs w (pathKey opt k) = None) \<and> objs w' = (if b then (objs w)(pathKey opt k \<mapsto> x) else objs w)
    | Inl e \<Rightarrow> objs w' = objs w \<or> objs w' = (objs w)(pathKey opt k \<mapsto> x)"
proof (cases "\<not> isMetadataKey k \<and> MaxFileSize opt < int (length x)")
  case True
  with assms show ?thesis by (auto simp: S3Client_PutBytesIfNotExists_def)
next
  case False
  let ?c = "operationContext rt opt c w"
  obtain b u where b: "S3Client_Exists rt sdk opt ?c k w = (b, u)" by force
  obtain e v where e: "client_retry rt opt ?c (put_attempt sdk opt ?c k x) u = (e, v)" by force
  show ?thesis
    using assms False b e client_exists [OF b] put_retry [OF e]
    by (auto simp: S3Client_PutBytesIfNotExists_def Let_def split: sum.splits bool.splits option.splits)
qed

end

text \<open>The client provides the contract that the storage and the lock rely on.\<close>

sublocale s3_service \<subseteq> client: s3_api "s3_client rt sdk opt" "client_view objs opt"
proof (unfold_locales, goal_cases)
  case (1 c k d w w')
  then show ?case using client_put [of c k d w None w'] by (auto simp: s3_client_def dest: view_upd view_same)
next
  case (2 c k d w e w')
  then show ?case using client_put [of c k d w "Some e" w'] by (auto simp: s3_client_def dest: view_upd view_same)
next
  case (3 c k d w b w')
  then show ?case using client_ifnot [of c k d w "Inr b" w']
    by (cases b) (auto simp: s3_client_def client_view_def dest: view_upd view_same)
next
  case (4 c k d w e w')
  then show ?case using client_ifnot [of c k d w "Inl e" w'] by (auto simp: s3_client_def dest: view_upd view_same)
next
  case (5 c k w r w')
  then show ?case using client_get [of c k w r w'] by (auto simp: s3_client_def dest: view_upd view_same)
next
  case (6 c k w d w')
  then show ?case using client_get [of c k w "Inr d" w'] by (auto simp: s3_client_def client_view_def)
next
  case (7 c k w e w')
  then show ?case using client_get [of c k w "Inl e" w'] by (auto simp: s3_client_def client_view_def)
next
  case (8 c k w w')
  then show ?case using client_remove [of c k w None w'] by (auto simp: s3_client_def dest: view_upd view_same)
next
  case (9 c k w e w')
  then show ?case using client_remove [of c k w "Some e" w'] by (auto simp: s3_client_def dest: view_upd view_same)
next
  case (10 c k w x w')
  then show ?case using client_exists [of c k w x w'] by (auto simp: s3_client_def dest: view_upd view_same)
next
  case (11 c k w b w')
  then show ?case using client_exists [of c k w "Inr b" w'] by (auto simp: s3_client_def client_view_def)
next
  case (12 c w l w')
  then show ?case using client_list [of c w l w'] by (auto simp: s3_client_def dest: view_upd view_same)
next
  case (13 c w fds w')
  then show ?case using client_list [of c w "Inr fds" w'] by (auto simp: s3_client_def)
next
  case (14 c k k' w w')
  then show ?case using client_copy [of c k k' w None w']
    by (auto simp: s3_client_def client_view_def fun_eq_iff)
next
  case (15 c k k' w e w')
  then show ?case using client_copy [of c k k' w "Some e" w']
    by (auto simp: s3_client_def client_view_def fun_eq_iff)
next
  case (16 c p w n w')
  then show ?case using client_names [of c p w n w'] by (auto simp: s3_client_def dest: view_upd view_same)
next
  case (17 c p w ks w')
  then show ?case using client_names [of c p w "Inr ks" w'] by (auto simp: s3_client_def)
qed

section \<open>An object store with a fault schedule\<close>

text \<open>
  A store that executes: a table of objects, a clock, a cancel flag, and one outcome per request. A
  request is answered, rejected before it has an effect, or carried out with its answer lost. A
  request under a context that is done fails with the error of the context; an empty schedule
  answers everything. Waiting advances the clock.
\<close>

datatype sdk_outcome = Answered | Rejected | AnswerLost

record sim_world =
  sim_table :: "(string \<times> bytes) list"
  sim_outcomes :: "sdk_outcome list"
  sim_clock :: int
  sim_canceled :: bool

definition sim_objs :: "sim_world \<Rightarrow> string \<Rightarrow> bytes option" where
  "sim_objs w = map_of (sim_table w)"

definition sim_rt :: "sim_world runtime" where
  "sim_rt = \<lparr>Now = sim_clock, Canceled = sim_canceled, CancelCtx = sim_canceled_update (\<lambda>_. True),
     SelectAfter = (\<lambda>c d w. (False, w\<lparr>sim_clock := sim_clock w + d\<rparr>)), Draw = (\<lambda>w. (0, w))\<rparr>"

definition sim_outcome :: "go_context \<Rightarrow> sim_world \<Rightarrow> (error + sdk_outcome) \<times> sim_world" where
  "sim_outcome c w =
     (case ctxErr sim_rt c w of Some e \<Rightarrow> (Inl e, w)
      | None \<Rightarrow> (case sim_outcomes w of [] \<Rightarrow> (Inr Answered, w)
          | Rejected # os \<Rightarrow> (Inl (OtherError ''rejected''), w\<lparr>sim_outcomes := os\<rparr>)
          | x # os \<Rightarrow> (Inr x, w\<lparr>sim_outcomes := os\<rparr>)))"

text \<open>A request that writes: its effect on the table, and nil only if the answer arrives.\<close>

definition sim_write ::
  "go_context \<Rightarrow> ((string \<times> bytes) list \<Rightarrow> (string \<times> bytes) list) \<Rightarrow> sim_world \<Rightarrow> error option \<times> sim_world"
where
  "sim_write c f w =
     (case sim_outcome c w of
        (Inl e, w1) \<Rightarrow> (Some e, w1)
      | (Inr x, w1) \<Rightarrow> (if x = Answered then None else Some (OtherError ''connection reset''),
                       w1\<lparr>sim_table := f (sim_table w1)\<rparr>))"

definition sim_get :: "go_context \<Rightarrow> string \<Rightarrow> sim_world \<Rightarrow> (error + (error + bytes)) \<times> sim_world" where
  "sim_get c k w =
     (case sim_outcome c w of
        (Inl e, w1) \<Rightarrow> (Inl e, w1)
      | (Inr x, w1) \<Rightarrow> (case sim_objs w1 k of
            None \<Rightarrow> (Inl NoSuchKey, w1)
          | Some d \<Rightarrow> (Inr (if x = Answered then Inr d else Inl (OtherError ''unexpected EOF'')), w1)))"

definition sim_head :: "go_context \<Rightarrow> string \<Rightarrow> sim_world \<Rightarrow> error option \<times> sim_world" where
  "sim_head c k w =
     (case sim_outcome c w of
        (Inl e, w1) \<Rightarrow> (Some e, w1)
      | (Inr x, w1) \<Rightarrow> (if x \<noteq> Answered then Some (OtherError ''connection reset'')
                       else if sim_objs w1 k = None then Some NotFound else None, w1))"

definition sim_copy :: "go_context \<Rightarrow> string \<Rightarrow> string \<Rightarrow> sim_world \<Rightarrow> error option \<times> sim_world" where
  "sim_copy c src dst w =
     (case sim_objs w src of
        None \<Rightarrow> (case sim_outcome c w of (Inl e, w1) \<Rightarrow> (Some e, w1) | (Inr x, w1) \<Rightarrow> (Some NoSuchKey, w1))
      | Some d \<Rightarrow> sim_write c (AList.update dst d) w)"

text \<open>The pages hold one key each; a lost answer breaks off after the first page.\<close>

definition sim_pages :: "go_context \<Rightarrow> string \<Rightarrow> sim_world \<Rightarrow> (error + string list) list \<times> sim_world" where
  "sim_pages c p w =
     (case sim_outcome c w of
        (Inl e, w1) \<Rightarrow> ([Inl e], w1)
      | (Inr x, w1) \<Rightarrow>
          (let pages = map (\<lambda>k. Inr [k]) (filter (\<lambda>k. HasPrefix k p) (remdups (map fst (sim_table w1))))
           in (if x = Answered then pages else take 1 pages @ [Inl (OtherError ''connection reset'')], w1)))"

definition sim_sdk :: "sim_world s3_sdk" where
  "sim_sdk =
     \<lparr>LoadDefaultConfig = (\<lambda>w. (None, w)), HeadBucket = (\<lambda>c b w. sim_write c (\<lambda>t. t) w),
      PutObject = (\<lambda>c b k x. sim_write c (AList.update k x)),
      GetObject = (\<lambda>c b. sim_get c),
      DeleteObject = (\<lambda>c b k. sim_write c (AList.delete k)),
      HeadObject = (\<lambda>c b. sim_head c),
      CopyObject = (\<lambda>c b src. sim_copy c (TrimPrefix src (b @ ''/''))),
      NewListObjectsV2Paginator = (\<lambda>c b. sim_pages c)\<rparr>"

lemmas sim_defs = sim_sdk_def sim_rt_def sim_write_def sim_get_def sim_head_def sim_copy_def sim_pages_def

lemma sim_outcome_frame:
  "sim_outcome c w = (r, w') \<Longrightarrow> sim_table w' = sim_table w"
  by (auto simp: sim_outcome_def split: option.splits list.splits sdk_outcome.splits)

lemma sim_outcome_error:
  "sim_outcome c w = (Inl e, w') \<Longrightarrow> \<not> isNotFoundError e \<and> \<not> errors_Is e OsErrNotExist"
  by (auto simp: sim_outcome_def split: option.splits list.splits sdk_outcome.splits dest: ctxErr_cases)

lemma sim_write_effect:
  assumes "sim_write c f w = (r, w')"
  shows "sim_table w' = f (sim_table w) \<or> r \<noteq> None \<and> sim_table w' = sim_table w"
  using assms sim_outcome_frame [of c w]
  by (auto simp: sim_write_def split: prod.splits sum.splits if_splits)

lemma sim_get_effect:
  assumes "sim_get c k w = (r, w')"
  shows "sim_objs w' = sim_objs w" and "r = Inr (Inr d) \<Longrightarrow> sim_objs w k = Some d"
    and "r = Inl e \<Longrightarrow> \<not> errors_Is e OsErrNotExist \<and> (isNotFoundError e \<longrightarrow> sim_objs w k = None)"
    and "r = Inr (Inl e) \<Longrightarrow> \<not> errors_Is e OsErrNotExist \<and> \<not> isNotFoundError e"
  using assms sim_outcome_frame [of c w] sim_outcome_error [of c w]
  by (auto simp: sim_get_def sim_objs_def split: prod.splits sum.splits if_splits option.splits)

lemma sim_head_effect:
  assumes "sim_head c k w = (r, w')"
  shows "sim_objs w' = sim_objs w" and "r = None \<Longrightarrow> sim_objs w k \<noteq> None"
    and "r = Some e \<Longrightarrow> isNotFoundError e \<Longrightarrow> sim_objs w k = None"
  using assms sim_outcome_frame [of c w] sim_outcome_error [of c w]
  by (auto simp: sim_head_def sim_objs_def split: prod.splits sum.splits if_splits option.splits)

lemma sim_copy_effect:
  assumes "sim_copy c k k' w = (r, w')"
  shows "sim_objs w k \<noteq> None \<and> sim_objs w' = (sim_objs w)(k' := sim_objs w k)
    \<or> r \<noteq> None \<and> sim_objs w' = sim_objs w"
proof (cases "sim_objs w k")
  case None
  then show ?thesis using assms sim_outcome_frame [of c w]
    by (auto simp: sim_copy_def sim_objs_def split: prod.splits sum.splits)
next
  case (Some d)
  then show ?thesis using assms sim_write_effect [of c "AList.update k' d" w r w']
    by (auto simp: sim_copy_def sim_objs_def update_conv')
qed

lemma sim_pages_effect:
  assumes "sim_pages c p w = (pages, w')"
  shows "sim_objs w' = sim_objs w"
    and "pages = map Inr kss \<Longrightarrow> distinct (concat kss) \<and> set (concat kss) = {k. sim_objs w k \<noteq> None \<and> HasPrefix k p}"
proof -
  let ?ks = "filter (\<lambda>k. HasPrefix k p) (remdups (map fst (sim_table w)))"
  obtain r w1 where o: "sim_outcome c w = (r, w1)" by force
  note frame = sim_outcome_frame [OF o]
  show "sim_objs w' = sim_objs w"
    using assms o frame by (auto simp: sim_pages_def sim_objs_def Let_def split: sum.splits)
  assume m: "pages = map Inr kss"
  then have no_error: "\<forall>x \<in> set pages. \<not> isl x" by auto
  have "r = Inr Answered"
    using assms o no_error by (auto simp: sim_pages_def Let_def ball_Un split: sum.splits if_splits)
  then have "pages = map (\<lambda>k. Inr [k]) ?ks"
    using assms o frame by (simp add: sim_pages_def Let_def)
  then have "map Inr kss = (map Inr (map (\<lambda>k. [k]) ?ks) :: (error + string list) list)" using m by simp
  then have "kss = map (\<lambda>k. [k]) ?ks" by (rule map_injective) (simp add: inj_on_def)
  then have "concat kss = ?ks" by simp
  then show "distinct (concat kss) \<and> set (concat kss) = {k. sim_objs w k \<noteq> None \<and> HasPrefix k p}"
    by (auto simp: sim_objs_def map_of_eq_None_iff)
qed

text \<open>The store provides the service, for every client that was built with \<open>ApplyDefaults\<close>.\<close>

interpretation sim: s3_service sim_rt sim_sdk sim_objs "ApplyDefaults opt" for opt
proof (unfold_locales, goal_cases)
  case 1
  then show ?case
    using positive_options_ApplyDefaults [of opt] by (simp add: positive_options_def)
next
  case (2 w)
  then show ?case by (simp add: sim_rt_def)
next
  case (3 c d w)
  then show ?case by (simp add: sim_rt_def sim_objs_def)
next
  case (4 c k x w w')
  then show ?case using sim_write_effect [of c "AList.update k x" w None w']
    by (auto simp: sim_sdk_def sim_objs_def update_conv')
next
  case (5 c k x w e w')
  then show ?case using sim_write_effect [of c "AList.update k x" w "Some e" w']
    by (auto simp: sim_sdk_def sim_objs_def update_conv')
next
  case (6 c k w r w')
  then show ?case by (auto simp: sim_sdk_def dest: sim_get_effect(1))
next
  case (7 c k w x w')
  then show ?case by (auto simp: sim_sdk_def dest: sim_get_effect(2))
next
  case (8 c k w e w')
  then show ?case by (auto simp: sim_sdk_def dest: sim_get_effect(3))
next
  case (9 c k w e w')
  then show ?case by (auto simp: sim_sdk_def dest: sim_get_effect(4))
next
  case (10 c k w w')
  then show ?case using sim_write_effect [of c "AList.delete k" w None w']
    by (auto simp: sim_sdk_def sim_objs_def delete_conv')
next
  case (11 c k w e w')
  then show ?case using sim_write_effect [of c "AList.delete k" w "Some e" w']
    by (auto simp: sim_sdk_def sim_objs_def delete_conv')
next
  case (12 c k w h w')
  then show ?case by (auto simp: sim_sdk_def dest: sim_head_effect(1))
next
  case (13 c k w w')
  then show ?case by (auto simp: sim_sdk_def dest: sim_head_effect(2))
next
  case (14 c k w e w')
  then show ?case by (auto simp: sim_sdk_def dest: sim_head_effect(3))
next
  case (15 c k k' w w')
  then show ?case using sim_copy_effect [of c k k' w None w']
    by (auto simp: sim_sdk_def TrimPrefix_def HasPrefix_def)
next
  case (16 c k k' w e w')
  then show ?case using sim_copy_effect [of c k k' w "Some e" w']
    by (auto simp: sim_sdk_def TrimPrefix_def HasPrefix_def)
next
  case (17 c p w pages w')
  then show ?case by (auto simp: sim_sdk_def dest: sim_pages_effect(1))
next
  case (18 c p w kss w')
  then show ?case using sim_pages_effect(2) [of c p w "map Inr kss" w' kss] by (simp add: sim_sdk_def)
qed

context s3_service
begin

lemma provides: "s3_api (s3_client rt sdk opt) (client_view objs opt)"
  by (rule client.s3_api_axioms)

end

section \<open>Properties\<close>

text \<open>A world for examples: two objects, and a first request whose answer is lost.\<close>

definition demo_world :: sim_world where
  "demo_world = \<lparr>sim_table = [(''db/CURRENT'', ''MANIFEST-000002''), (''other/x'', ''q'')],
     sim_outcomes = [AnswerLost], sim_clock = 0, sim_canceled = False\<rparr>"

text \<open>
  C18: on a service that behaves as documented, the client of the repository provides the contract
  of \<open>S3ClientAPI\<close>: whatever requests are refused, lost or retried, a call that returns nil had
  exactly its effect on the keys of this database, and a call that fails had its effect or none.
\<close>

theorem client_provides_contract:
  assumes "s3_service rt sdk objs opt"
  shows "s3_api (s3_client rt sdk opt) (client_view objs opt)"
  using assms by (rule s3_service.provides)

theorem client_provides_contract_witness:
  "s3_api (s3_client sim_rt sim_sdk (ApplyDefaults demo_option)) (client_view sim_objs (ApplyDefaults demo_option))"
  by (rule client_provides_contract) (rule sim.s3_service_axioms)

text \<open>
  \<open>PutBytes\<close> refuses a data file above \<open>MaxFileSize\<close> before it contacts the service. Any
  other call writes exactly one object, the one at \<open>Path/key\<close>: with the new data when nil is
  returned, with the old or the new data otherwise. The objects of every other database in the
  bucket stay as they are.
\<close>

theorem PutBytes_effect:
  assumes "s3_service rt sdk objs opt"
  shows "case S3Client_PutBytes rt sdk opt c k x w of (r, w') \<Rightarrow>
      if \<not> isMetadataKey k \<and> MaxFileSize opt < int (length x) then r = Some ErrFileTooLarge \<and> w' = w
      else (r = None \<longrightarrow> objs w' = (objs w)(Path opt @ ''/'' @ k \<mapsto> x))
         \<and> (objs w' = objs w \<or> objs w' = (objs w)(Path opt @ ''/'' @ k \<mapsto> x))"
  using s3_service.client_put [OF assms, of c k x w]
  by (auto simp: PutBytes_too_large pathKey_def split: prod.splits option.splits)

lemma demo_options [simp]: "ApplyDefaults demo_option = demo_option"
  by (simp add: ApplyDefaults_def demo_option_def or_default_def default_defs)

text \<open>The first answer is lost, the retry succeeds.\<close>

theorem PutBytes_effect_witness:
  "fst (S3Client_PutBytes sim_rt sim_sdk demo_option Background ''LOCK'' ''me'' demo_world) = None
   \<and> sim_objs (snd (S3Client_PutBytes sim_rt sim_sdk demo_option Background ''LOCK'' ''me'' demo_world))
       = (sim_objs demo_world)(''db/LOCK'' \<mapsto> ''me'')"
proof -
  have s: "s3_service sim_rt sim_sdk sim_objs demo_option"
    using sim.s3_service_axioms [of demo_option] by simp
  have r: "fst (S3Client_PutBytes sim_rt sim_sdk demo_option Background ''LOCK'' ''me'' demo_world) = None"
    by (simp add: S3Client_PutBytes_def isMetadataKey_def HasPrefix_def client_retry_def WithRetry_def
        operationContext_def ctxWithTimeout_def demo_option_def demo_world_def sim_defs sim_outcome_def
        put_attempt_def numeral_eq_Suc calcBackoff_def Int63n_def sleepCtx_def shl64_def wrap64_def Let_def)
  show ?thesis
    using PutBytes_effect [OF s, where c = Background and k = "''LOCK''" and x = "''me''" and w = demo_world] r
    by (auto simp: demo_option_def isMetadataKey_def split: prod.splits)
qed

text \<open>
  \<open>PutBytesIfNotExists\<close> returns true exactly when the object was absent, and has written it
  then; when it returns false nothing changed.
\<close>

theorem PutBytesIfNotExists_effect:
  assumes "s3_service rt sdk objs opt"
  shows "case S3Client_PutBytesIfNotExists rt sdk opt c k x w of (r, w') \<Rightarrow>
      (case r of
         Inr b \<Rightarrow> b = (objs w (Path opt @ ''/'' @ k) = None)
           \<and> objs w' = (if b then (objs w)(Path opt @ ''/'' @ k \<mapsto> x) else objs w)
       | Inl e \<Rightarrow> objs w' = objs w \<or> objs w' = (objs w)(Path opt @ ''/'' @ k \<mapsto> x))"
  using s3_service.client_ifnot [OF assms, of c k x w]
  by (auto simp: pathKey_def split: prod.splits sum.splits)

theorem PutBytesIfNotExists_effect_witness:
  "case S3Client_PutBytesIfNotExists sim_rt sim_sdk demo_option Background ''CURRENT'' ''x'' demo_world of
     (r, w') \<Rightarrow> r = Inr False \<longrightarrow> sim_objs w' = sim_objs demo_world"
proof -
  have "s3_service sim_rt sim_sdk sim_objs demo_option"
    using sim.s3_service_axioms [of demo_option] by simp
  from PutBytesIfNotExists_effect [OF this, where c = Background and k = "''CURRENT''" and x = "''x''" and w = demo_world]
  show ?thesis by (auto split: prod.splits)
qed

text \<open>
  \<open>GetBytes\<close> changes no object, returns the stored bytes on success, and reports a missing
  file (\<^verbatim>\<open>os.ErrNotExist\<close>, in either of the two forms that its callers test for) only if the
  object is missing: no refused or lost request is taken for an absent file.
\<close>

theorem GetBytes_effect:
  assumes "s3_service rt sdk objs opt"
  shows "case S3Client_GetBytes rt sdk opt c k w of (r, w') \<Rightarrow> objs w' = objs w \<and>
      (case r of
         Inr x \<Rightarrow> objs w (Path opt @ ''/'' @ k) = Some x
       | Inl e \<Rightarrow> errors_Is e OsErrNotExist \<or> isNotFoundError e \<longrightarrow> objs w (Path opt @ ''/'' @ k) = None)"
  using s3_service.client_get [OF assms, of c k w]
  by (auto simp: pathKey_def split: prod.splits sum.splits)

theorem GetBytes_effect_witness:
  "fst (S3Client_GetBytes sim_rt sim_sdk demo_option Background ''000001.log'' demo_world) = Inl OsErrNotExist
   \<and> sim_objs demo_world ''db/000001.log'' = None"
proof -
  have s: "s3_service sim_rt sim_sdk sim_objs demo_option"
    using sim.s3_service_axioms [of demo_option] by simp
  have r: "fst (S3Client_GetBytes sim_rt sim_sdk demo_option Background ''000001.log'' demo_world)
      = Inl OsErrNotExist"
    by (simp add: S3Client_GetBytes_def client_retry_def WithRetry_def lift_runtime_def sim_objs_def
        operationContext_def ctxWithTimeout_def demo_option_def demo_world_def sim_defs sim_outcome_def
        get_attempt_def pathKey_def numeral_eq_Suc calcBackoff_def Int63n_def sleepCtx_def shl64_def
        wrap64_def Let_def)
  show ?thesis
    using GetBytes_effect [OF s, where c = Background and k = "''000001.log''" and w = demo_world] r
    by (auto simp: demo_option_def split: prod.splits)
qed

text \<open>
  \<open>List\<close> drops the directory of a key before it parses the name, so it also reports every
  descriptor that occurs below the database's prefix, such as one that only exists as a shadow
  copy \<open>pending_shadow/000001.ldb\<close>, although no object has the reported name.
\<close>

theorem List_reports_nested_keys:
  assumes "s3_service rt sdk objs opt" and "objs w (Path opt @ ''/'' @ sh @ ''/'' @ leveldb_String fd) \<noteq> None"
    and "valid_fd fd" and "S3Client_List rt sdk opt c w = (Inr fds, w')"
  shows "fd \<in> set fds"
proof -
  have n: "CHR ''/'' \<notin> set (leveldb_String fd)" using ldb.name_chars(1) [OF assms(3)] by blast
  have "client_view objs opt w (sh @ ''/'' @ leveldb_String fd) \<noteq> None"
    using assms(2) by (simp add: client_view_def pathKey_def)
  moreover have "parseFileDesc (snd (parseS3Key (sh @ ''/'' @ leveldb_String fd))) = Some fd"
    by (simp only: parseS3Key_nested [OF n] snd_conv ldb.parse_name [OF assms(3)])
  ultimately have "fd \<in> listed_fds (client_view objs opt w)" unfolding listed_fds_def by blast
  then show ?thesis using s3_service.client_list [OF assms(1,4)] by simp
qed

definition shadow_world :: sim_world where
  "shadow_world = \<lparr>sim_table = [(''db/sh/000001.ldb'', ''x'')], sim_outcomes = [], sim_clock = 0,
     sim_canceled = False\<rparr>"

theorem List_reports_nested_keys_witness:
  "\<exists>fds w'. S3Client_List sim_rt sim_sdk demo_option Background shadow_world = (Inr fds, w')
     \<and> FileDesc TypeTable 1 \<in> set fds \<and> sim_objs shadow_world ''db/000001.ldb'' = None"
proof -
  have s: "s3_service sim_rt sim_sdk sim_objs demo_option"
    using sim.s3_service_axioms [of demo_option] by simp
  obtain fds w' where l: "S3Client_List sim_rt sim_sdk demo_option Background shadow_world = (Inr fds, w')"
    by (simp add: S3Client_List_def client_retry_def WithRetry_def lift_runtime_def list_attempt_def
        operationContext_def ctxWithTimeout_def demo_option_def shadow_world_def sim_defs sim_outcome_def
        pathPrefix_def HasPrefix_def numeral_eq_Suc Let_def)
  have "leveldb_String (FileDesc TypeTable 1) = ''000001.ldb''" by (simp add: fmt_simps)
  then have o: "sim_objs shadow_world (Path demo_option @ ''/'' @ ''sh'' @ ''/'' @ leveldb_String (FileDesc TypeTable 1))
      \<noteq> None"
    by (simp add: sim_objs_def shadow_world_def demo_option_def)
  have "FileDesc TypeTable 1 \<in> set fds"
    using List_reports_nested_keys [OF s o _ l] by (simp add: valid_fd_def known_type_def)
  with l show ?thesis by (auto simp: sim_objs_def shadow_world_def)
qed

end
