(* ===== verification/Local_Files.thy ===== *)
theory Local_Files
  imports Go_OS
begin

text \<open>
  \<open>atomicWriteFile\<close> of \<^verbatim>\<open>storage.go\<close>: write a temporary file in the same directory, then rename it
  over the target. The theorems say what its comment promises: at every moment of the call, and
  whichever system call fails, the target is the complete old file or the complete new one, and
  no other file of the directory changes.
\<close>

section \<open>The function\<close>

definition atomicWriteFile :: "string \<Rightarrow> bytes \<Rightarrow> host \<Rightarrow> (error + unit) \<times> host" where
  "atomicWriteFile path data h =
     (case os_CreateTemp (filepath_Dir path) ''.tmp-'' h of
        (Inl e, h1) \<Rightarrow> (Inl (Wrapf ''create temp'' e), h1)
      | (Inr tmpPath, h1) \<Rightarrow>
          (case file_Write tmpPath data h1 of
             (Inl e, h2) \<Rightarrow> (Inl (Wrapf ''write temp'' e), snd (os_Remove tmpPath (snd (file_Close h2))))
           | (Inr _, h2) \<Rightarrow>
               (case file_Close h2 of
                  (Inl e, h3) \<Rightarrow> (Inl (Wrapf ''close temp'' e), snd (os_Remove tmpPath h3))
                | (Inr _, h3) \<Rightarrow>
                    (case os_Rename tmpPath path h3 of
                       (Inl e, h4) \<Rightarrow> (Inl (Wrapf ''rename'' e), snd (os_Remove tmpPath h4))
                     | (Inr _, h4) \<Rightarrow> (Inr (), h4)))))"

section \<open>Disk traces\<close>

text \<open>Every disk state that the step from \<open>h\<close> to \<open>h'\<close> adds satisfies \<open>P\<close>.\<close>

definition disk_keeps :: "(fs_table \<Rightarrow> bool) \<Rightarrow> host \<Rightarrow> host \<Rightarrow> bool" where
  "disk_keeps P h h' = (\<forall>t \<in> set (disk_trace h'). t \<in> set (disk_trace h) \<or> P t)"

lemma disk_keeps_refl [simp]: "disk_keeps P h h"
  by (simp add: disk_keeps_def)

lemma disk_keeps_trans: "disk_keeps P h h1 \<Longrightarrow> disk_keeps P h1 h2 \<Longrightarrow> disk_keeps P h h2"
  by (auto simp: disk_keeps_def)

lemma disk_keeps_cong: "disk_trace h1 = disk_trace h \<Longrightarrow> disk_keeps P h1 h2 = disk_keeps P h h2"
  by (simp add: disk_keeps_def)

lemma disk_keeps_fault [simp]: "disk_keeps P h (snd (next_fault h))"
  by (simp add: disk_keeps_def)

lemma disk_keeps_next: "next_fault h = (f, h1) \<Longrightarrow> disk_keeps P h1 h2 = disk_keeps P h h2"
  by (simp add: disk_keeps_def next_fault_fs)

lemma disk_keeps_put_node:
  "(q \<noteq> p \<Longrightarrow> P (AList.update p n (fs h))) \<Longrightarrow> q \<noteq> p \<Longrightarrow> disk_keeps P h (put_node p n h)"
  by (simp add: disk_keeps_def put_node_def set_fs_def)

definition keeps_at :: "string \<Rightarrow> host \<Rightarrow> host \<Rightarrow> bool" where
  "keeps_at q h h' = (node_at h' q = node_at h q \<and> disk_keeps (\<lambda>t. map_of t q = node_at h q) h h')"

lemma keeps_at_refl [simp]: "keeps_at q h h"
  by (simp add: keeps_at_def)

lemma keeps_at_trans: "keeps_at q h h1 \<Longrightarrow> keeps_at q h1 h2 \<Longrightarrow> keeps_at q h h2"
  by (auto simp: keeps_at_def intro: disk_keeps_trans)

lemma keeps_at_next: "next_fault h = (f, h1) \<Longrightarrow> keeps_at q h1 h2 = keeps_at q h h2"
  by (simp add: keeps_at_def disk_keeps_next next_fault_node)

lemma keeps_at_put [simp]: "q \<noteq> p \<Longrightarrow> keeps_at q h (put_node p n h)"
  by (simp add: keeps_at_def disk_keeps_def put_node_def set_fs_def node_at_def)

lemma keeps_at_del [simp]: "q \<noteq> p \<Longrightarrow> keeps_at q h (del_node p h)"
  by (simp add: keeps_at_def disk_keeps_def del_node_def set_fs_def node_at_def)

lemma keeps_at_faults [simp]: "keeps_at q (h\<lparr>rands := rs\<rparr>) h' = keeps_at q h h'"
  by (simp add: keeps_at_def disk_keeps_def node_at_def)

lemma keeps_at_rename:
  "q \<noteq> p \<Longrightarrow> q \<noteq> p' \<Longrightarrow> keeps_at q h (set_fs (AList.update p' n (AList.delete p (fs h))) h)"
  by (simp add: keeps_at_def disk_keeps_def set_fs_def node_at_def)

lemma keeps_Remove: "q \<noteq> p \<Longrightarrow> keeps_at q h (snd (os_Remove p h))"
  by (auto simp: os_Remove_def keeps_at_next [symmetric] split: prod.splits option.splits fs_node.splits)

lemma keeps_Write: "q \<noteq> p \<Longrightarrow> keeps_at q h (snd (file_Write p d h))"
  by (auto simp: file_Write_def keeps_at_next [symmetric] split: prod.splits os_outcome.splits)

lemma keeps_Close: "keeps_at q h (snd (file_Close h))"
  by (auto simp: file_Close_def keeps_at_next [symmetric] split: prod.splits)

lemma keeps_Rename: "q \<noteq> p \<Longrightarrow> q \<noteq> p' \<Longrightarrow> keeps_at q h (snd (os_Rename p p' h))"
  by (auto simp: os_Rename_def keeps_at_next [symmetric] keeps_at_rename
      split: prod.splits option.splits fs_node.splits)

lemma Rename_Inl_keeps: "os_Rename p p' h = (Inl e, h') \<Longrightarrow> keeps_at q h h'"
  by (auto simp: os_Rename_def keeps_at_next [symmetric]
      split: prod.splits if_splits option.splits fs_node.splits)

lemma CreateTemp_Inl_keeps: "os_CreateTemp dir pre h = (Inl e, h') \<Longrightarrow> keeps_at q h h'"
  by (auto simp: os_CreateTemp_def keeps_at_next [symmetric] split: prod.splits if_splits list.splits)

lemma CreateTemp_Inr:
  assumes "os_CreateTemp dir pre h = (Inr p, h')"
  shows "\<exists>r. p = temp_path dir pre r" and "node_at h p = None" and "node_at h' p = Some (File [])"
    and "q \<noteq> p \<Longrightarrow> keeps_at q h h'"
proof -
  obtain f h1 where nf: "next_fault h = (f, h1)" by force
  with assms obtain r rs where
    dw: "dropWhile (\<lambda>r. node_at h1 (temp_path dir pre r) \<noteq> None) (rands h1) = r # rs"
    and p: "p = temp_path dir pre r" and h': "h' = put_node p (File []) (h1\<lparr>rands := rs\<rparr>)"
    by (auto simp: os_CreateTemp_def split: if_splits list.splits)
  have "dropWhile (\<lambda>r. node_at h1 (temp_path dir pre r) \<noteq> None) (rands h1) \<noteq> []"
    using dw by simp
  from hd_dropWhile [OF this] have "node_at h1 p = None" using dw p by simp
  then show "node_at h p = None" using nf by (simp add: next_fault_node)
  show "\<exists>r. p = temp_path dir pre r" using p by blast
  show "node_at h' p = Some (File [])" using h' by simp
  show "keeps_at q h h'" if "q \<noteq> p"
  proof -
    have "keeps_at q (h1\<lparr>rands := rs\<rparr>) h'" unfolding h' using that by (rule keeps_at_put)
    then show ?thesis using nf by (simp add: keeps_at_next)
  qed
qed

section \<open>Atomicity\<close>

text \<open>Which disk states a call may leave at the target.\<close>

definition old_or_new :: "string \<Rightarrow> bytes \<Rightarrow> host \<Rightarrow> fs_table \<Rightarrow> bool" where
  "old_or_new path data h t = (map_of t path = node_at h path \<or> map_of t path = Some (File data))"

lemma Rename_trace:
  assumes "os_Rename p p' h = (Inr u, h')" and "p \<noteq> p'" and "node_at h p = Some (File d)"
  shows "disk_keeps (\<lambda>t. map_of t p' = Some (File d)) h h'" and "node_at h' p' = Some (File d)"
    and "node_at h' p = None" and "q \<noteq> p \<Longrightarrow> q \<noteq> p' \<Longrightarrow> keeps_at q h h'"
proof -
  obtain f h1 where nf: "next_fault h = (f, h1)" by force
  with assms(3) have "node_at h1 p = Some (File d)" by (simp add: next_fault_node)
  with assms(1,2) nf have h': "h' = set_fs (AList.update p' (File d) (AList.delete p (fs h1))) h1"
    by (auto simp: os_Rename_def split: if_splits)
  have "disk_keeps (\<lambda>t. map_of t p' = Some (File d)) h1 h'"
    by (simp add: h' disk_keeps_def set_fs_def)
  with nf show "disk_keeps (\<lambda>t. map_of t p' = Some (File d)) h h'" by (simp add: disk_keeps_next)
  show "node_at h' p' = Some (File d)" and "node_at h' p = None"
    using assms(2) by (simp_all add: h' node_at_set_rename)
  show "keeps_at q h h'" if "q \<noteq> p" "q \<noteq> p'"
    unfolding h' keeps_at_next [OF nf, symmetric] using that by (rule keeps_at_rename)
qed

lemma Write_Inr: "file_Write p d h = (Inr u, h') \<Longrightarrow> node_at h' p = Some (File d)"
  by (auto simp: file_Write_def split: prod.splits os_outcome.splits)

text \<open>Closing and removing the temporary file leaves the rest of the disk alone.\<close>

lemma keeps_Close_pair: "file_Close h = (r, h') \<Longrightarrow> keeps_at q h h'"
  using keeps_Close [of q h] by simp

lemma keeps_Write_pair: "file_Write p d h = (r, h') \<Longrightarrow> q \<noteq> p \<Longrightarrow> keeps_at q h h'"
  using keeps_Write [of q p h d] by simp

text \<open>
  The steps up to the rename: they fail with every other file kept, or leave the complete data in
  a fresh temporary file and every other file kept.
\<close>

definition write_temp :: "string \<Rightarrow> bytes \<Rightarrow> host \<Rightarrow> (error + string) \<times> host" where
  "write_temp dir data h =
     (case os_CreateTemp dir ''.tmp-'' h of
        (Inl e, h1) \<Rightarrow> (Inl (Wrapf ''create temp'' e), h1)
      | (Inr tmpPath, h1) \<Rightarrow>
          (case file_Write tmpPath data h1 of
             (Inl e, h2) \<Rightarrow> (Inl (Wrapf ''write temp'' e), snd (os_Remove tmpPath (snd (file_Close h2))))
           | (Inr _, h2) \<Rightarrow>
               (case file_Close h2 of
                  (Inl e, h3) \<Rightarrow> (Inl (Wrapf ''close temp'' e), snd (os_Remove tmpPath h3))
                | (Inr _, h3) \<Rightarrow> (Inr tmpPath, h3))))"

lemma atomicWriteFile_alt:
  "atomicWriteFile path data h =
     (case write_temp (filepath_Dir path) data h of
        (Inl e, h1) \<Rightarrow> (Inl e, h1)
      | (Inr tmpPath, h1) \<Rightarrow>
          (case os_Rename tmpPath path h1 of
             (Inl e, h2) \<Rightarrow> (Inl (Wrapf ''rename'' e), snd (os_Remove tmpPath h2))
           | (Inr _, h2) \<Rightarrow> (Inr (), h2)))"
  by (simp add: atomicWriteFile_def write_temp_def split: prod.splits sum.splits)

definition temp_file :: "string \<Rightarrow> string \<Rightarrow> bool" where
  "temp_file dir q = (\<exists>r. q = temp_path dir ''.tmp-'' r)"

lemma write_temp_keeps:
  assumes "write_temp dir data h = (r, h')" and "\<not> temp_file dir q"
  shows "keeps_at q h h'"
proof -
  obtain r1 h1 where c: "os_CreateTemp dir ''.tmp-'' h = (r1, h1)" by force
  show ?thesis
  proof (cases r1)
    case (Inl e)
    with c assms(1) show ?thesis by (auto simp: write_temp_def dest: CreateTemp_Inl_keeps)
  next
    case (Inr tmp)
    with c have tmp: "temp_file dir tmp" by (auto simp: temp_file_def dest: CreateTemp_Inr(1))
    with assms(2) have q: "q \<noteq> tmp" by auto
    have k1: "keeps_at q h h1" using c q Inr by (auto dest: CreateTemp_Inr(4))
    obtain r2 h2 where w: "file_Write tmp data h1 = (r2, h2)" by force
    have k2: "keeps_at q h h2" using k1 keeps_Write_pair [OF w q] by (rule keeps_at_trans)
    obtain r3 h3 where cl: "file_Close h2 = (r3, h3)" by force
    have k3: "keeps_at q h h3" using k2 keeps_Close_pair [OF cl] by (rule keeps_at_trans)
    have "h' = h3 \<or> h' = snd (os_Remove tmp h3)"
      using assms(1) c Inr w cl by (auto simp: write_temp_def split: sum.splits)
    then show ?thesis using k3 keeps_at_trans [OF k3 keeps_Remove [OF q]] by auto
  qed
qed

lemma write_temp_Inr:
  assumes "write_temp dir data h = (Inr tmp, h')"
  shows "temp_file dir tmp" and "node_at h' tmp = Some (File data)"
proof -
  obtain h1 h2 where c: "os_CreateTemp dir ''.tmp-'' h = (Inr tmp, h1)"
    and w: "file_Write tmp data h1 = (Inr (), h2)" and cl: "file_Close h2 = (Inr (), h')"
    using assms by (auto simp: write_temp_def split: prod.splits sum.splits)
  show "temp_file dir tmp" using c by (auto simp: temp_file_def dest: CreateTemp_Inr(1))
  show "node_at h' tmp = Some (File data)"
    using Write_Inr [OF w] keeps_Close_pair [OF cl] by (simp add: keeps_at_def)
qed

lemma atomicWrite_other:
  assumes "\<not> temp_file (filepath_Dir path) q" and "q \<noteq> path"
  shows "keeps_at q h (snd (atomicWriteFile path data h))"
proof -
  obtain r h1 where wt: "write_temp (filepath_Dir path) data h = (r, h1)" by force
  have k1: "keeps_at q h h1" using wt assms(1) by (rule write_temp_keeps)
  show ?thesis
  proof (cases r)
    case (Inl e)
    with wt k1 show ?thesis by (simp add: atomicWriteFile_alt)
  next
    case (Inr tmp)
    with wt have tmp: "temp_file (filepath_Dir path) tmp" by (auto dest: write_temp_Inr)
    with assms(1) have q: "q \<noteq> tmp" by auto
    obtain r2 h2 where rn: "os_Rename tmp path h1 = (r2, h2)" by force
    have "keeps_at q h1 h2" using keeps_Rename [OF q assms(2), of h1] rn by simp
    with k1 have k2: "keeps_at q h h2" by (rule keeps_at_trans)
    with keeps_at_trans [OF k2 keeps_Remove [OF q]] wt Inr rn show ?thesis
      by (cases r2) (simp_all add: atomicWriteFile_alt)
  qed
qed

text \<open>
  The contract: on success the target holds the new data, on failure it is as it was, and every
  disk state in between holds the complete old or the complete new file.
\<close>

lemma atomicWrite_target:
  assumes "atomicWriteFile path data h = (r, h')" and "\<not> temp_file (filepath_Dir path) path"
  shows "node_at h' path = (case r of Inl e \<Rightarrow> node_at h path | Inr _ \<Rightarrow> Some (File data))"
    and "disk_keeps (old_or_new path data h) h h'"
proof -
  obtain r1 h1 where wt: "write_temp (filepath_Dir path) data h = (r1, h1)" by force
  have k1: "keeps_at path h h1" using wt assms(2) by (rule write_temp_keeps)
  have weaken: "disk_keeps (old_or_new path data h) h g" if "keeps_at path h g" for g
    using that by (auto simp: keeps_at_def disk_keeps_def old_or_new_def)
  have "node_at h' path = (case r of Inl e \<Rightarrow> node_at h path | Inr _ \<Rightarrow> Some (File data)) \<and>
      disk_keeps (old_or_new path data h) h h'"
  proof (cases r1)
    case (Inl e)
    then show ?thesis using wt k1 assms(1) weaken by (auto simp: atomicWriteFile_alt keeps_at_def)
  next
    case (Inr tmp)
    with wt have tmp: "temp_file (filepath_Dir path) tmp" "node_at h1 tmp = Some (File data)"
      by (auto dest: write_temp_Inr)
    with assms(2) have ne: "path \<noteq> tmp" by auto
    obtain r2 h2 where rn: "os_Rename tmp path h1 = (r2, h2)" by force
    show ?thesis
    proof (cases r2)
      case (Inl e)
      with rn have "keeps_at path h1 h2" by (auto dest: Rename_Inl_keeps)
      then have k: "keeps_at path h h'"
        using k1 assms(1) wt \<open>r1 = Inr tmp\<close> rn Inl ne
        by (auto simp: atomicWriteFile_alt intro: keeps_at_trans keeps_Remove)
      moreover have "\<exists>e. r = Inl e"
        using assms(1) wt \<open>r1 = Inr tmp\<close> rn Inl by (auto simp: atomicWriteFile_alt)
      ultimately show ?thesis using weaken by (auto simp: keeps_at_def)
    next
      case (Inr u)
      have "r = Inr ()" and h': "h' = h2"
        using assms(1) wt \<open>r1 = Inr tmp\<close> rn Inr by (auto simp: atomicWriteFile_alt)
      moreover have "node_at h2 path = Some (File data)"
        using Rename_trace(2) [of tmp path h1 u h2] rn Inr ne tmp by auto
      moreover have "disk_keeps (\<lambda>t. map_of t path = Some (File data)) h1 h2"
        using Rename_trace(1) [of tmp path h1 u h2] rn Inr ne tmp by auto
      then have "disk_keeps (old_or_new path data h) h1 h2"
        by (auto simp: disk_keeps_def old_or_new_def)
      then have "disk_keeps (old_or_new path data h) h h2"
        using weaken [OF k1] disk_keeps_trans by blast
      ultimately show ?thesis by simp
    qed
  qed
  then show "node_at h' path = (case r of Inl e \<Rightarrow> node_at h path | Inr _ \<Rightarrow> Some (File data))"
    and "disk_keeps (old_or_new path data h) h h'" by simp_all
qed

lemma plain_not_temp:
  assumes "clean_dir dir" and "plain_name name" and "\<not> HasPrefix name ''.tmp-''"
  shows "\<not> temp_file dir (filepath_Join [dir, name])"
proof
  assume "temp_file dir (filepath_Join [dir, name])"
  then obtain r where r: "filepath_Join [dir, name] = filepath_Join [dir, ''.tmp-'' @ digits10 r]"
    by (auto simp: temp_file_def temp_path_def)
  have "plain_name (''.tmp-'' @ digits10 r)"
    by (auto simp: plain_name_def is_digit_def dest: digits10_digits)
  with r assms have "name = ''.tmp-'' @ digits10 r" by (simp add: Join_plain)
  with assms(3) show False using HasPrefix_append by metis
qed

lemma temp_path_plain: "plain_name (''.tmp-'' @ digits10 r)"
  by (auto simp: plain_name_def is_digit_def dest: digits10_digits)

text \<open>On a machine without faults the call succeeds when a fresh temporary name can be drawn.\<close>

definition temp_supply :: "string \<Rightarrow> host \<Rightarrow> bool" where
  "temp_supply dir h = list_ex (\<lambda>r. node_at h (temp_path dir ''.tmp-'' r) = None) (rands h)"

lemma write_temp_ok:
  assumes "faults h = []" and "dir_exists h dir" and "temp_supply dir h"
  shows "\<exists>tmp h'. write_temp dir data h = (Inr tmp, h') \<and> faults h' = []"
proof -
  let ?P = "\<lambda>r. node_at h (temp_path dir ''.tmp-'' r) \<noteq> None"
  have "dropWhile ?P (rands h) \<noteq> []"
    using assms(3) by (auto simp: temp_supply_def list_ex_iff dropWhile_eq_Nil_conv)
  then obtain r rs where dw: "dropWhile ?P (rands h) = r # rs" by (cases "dropWhile ?P (rands h)") auto
  let ?tmp = "temp_path dir ''.tmp-'' r"
  let ?h1 = "put_node ?tmp (File []) (h\<lparr>rands := rs\<rparr>)"
  have "os_CreateTemp dir ''.tmp-'' h = (Inr ?tmp, ?h1)"
    using assms(1,2) dw by (simp add: os_CreateTemp_def)
  then show ?thesis
    using assms(1) by (simp add: write_temp_def file_Write_def file_Close_def)
qed

lemma atomicWrite_ok:
  assumes "faults h = []" and "dir_exists h (filepath_Dir path)" and "temp_supply (filepath_Dir path) h"
    and "node_at h path \<noteq> Some Dir" and "\<not> temp_file (filepath_Dir path) path"
    and "\<not> temp_file (filepath_Dir path) (filepath_Dir path)"
  shows "\<exists>h'. atomicWriteFile path data h = (Inr (), h') \<and> faults h' = []"
proof -
  obtain tmp h1 where wt: "write_temp (filepath_Dir path) data h = (Inr tmp, h1)" "faults h1 = []"
    using write_temp_ok [OF assms(1-3)] by blast
  have "node_at h1 path = node_at h path"
    and "node_at h1 (filepath_Dir path) = node_at h (filepath_Dir path)"
    using write_temp_keeps [OF wt(1) assms(5)] write_temp_keeps [OF wt(1) assms(6)]
    by (simp_all add: keeps_at_def)
  then have "dir_exists h1 (filepath_Dir path)" and "node_at h1 path \<noteq> Some Dir"
    using assms by (simp_all add: dir_exists_def)
  then show ?thesis
    using wt write_temp_Inr(2) [OF wt(1)] by (simp add: atomicWriteFile_alt os_Rename_def)
qed

section \<open>Crash safety\<close>

text \<open>
  C19: whatever system call of \<open>atomicWriteFile\<close> fails, and in every state the disk goes through,
  the target file is the complete old file or the complete new one; the call reports success
  exactly when the new file is there, and no other file of the directory is touched.
\<close>

theorem atomicWriteFile_crash_safe:
  assumes "clean_dir dir" and "plain_name name" and "\<not> HasPrefix name ''.tmp-''"
  shows "case atomicWriteFile (filepath_Join [dir, name]) data h of (r, h') \<Rightarrow>
      node_at h' (filepath_Join [dir, name]) =
        (case r of Inl e \<Rightarrow> node_at h (filepath_Join [dir, name]) | Inr _ \<Rightarrow> Some (File data))
    \<and> disk_keeps (old_or_new (filepath_Join [dir, name]) data h) h h'
    \<and> (\<forall>q. q \<noteq> filepath_Join [dir, name] \<longrightarrow> \<not> temp_file dir q \<longrightarrow> keeps_at q h h')"
proof -
  have d: "filepath_Dir (filepath_Join [dir, name]) = dir"
    using assms by (simp add: Join_plain Dir_plain)
  have t: "\<not> temp_file dir (filepath_Join [dir, name])"
    using assms by (rule plain_not_temp)
  show ?thesis
    using atomicWrite_target [of "filepath_Join [dir, name]" data h]
      atomicWrite_other [of "filepath_Join [dir, name]" _ h data] t
    unfolding d by (auto split: prod.splits sum.splits)
qed

definition demo_host :: host where
  "demo_host = \<lparr>fs = [(''/c'', Dir), (''/c/x'', File ''old'')], faults = [], rands = [7], disk_trace = []\<rparr>"

lemma demo_host_run:
  "atomicWriteFile ''/c/x'' ''new'' demo_host =
     (Inr (), \<lparr>fs = [(''/c'', Dir), (''/c/x'', File ''new'')], faults = [], rands = [],
        disk_trace = [[(''/c'', Dir), (''/c/x'', File ''old''), (''/c/.tmp-7'', File [])],
                      [(''/c'', Dir), (''/c/x'', File ''old''), (''/c/.tmp-7'', File ''new'')],
                      [(''/c'', Dir), (''/c/x'', File ''new'')]]\<rparr>)"
  by (simp add: atomicWriteFile_def demo_host_def fmt_simps AList.delete_eq)

theorem atomicWriteFile_crash_safe_witness:
  "disk_keeps (old_or_new ''/c/x'' ''new'' demo_host) demo_host (snd (atomicWriteFile ''/c/x'' ''new'' demo_host))
   \<and> keeps_at ''/c'' demo_host (snd (atomicWriteFile ''/c/x'' ''new'' demo_host))
   \<and> node_at (snd (atomicWriteFile ''/c/x'' ''new'' demo_host)) ''/c/x'' = Some (File ''new'')"
proof -
  have h: "clean_dir ''/c''" "plain_name ''x''" "\<not> HasPrefix ''x'' ''.tmp-''"
    by (simp_all add: clean_dir_def plain_name_def fmt_simps)
  have j: "filepath_Join [''/c'', ''x''] = ''/c/x''" by (simp add: fmt_simps)
  have "\<not> temp_file ''/c'' ''/c''"
    using temp_path_plain by (auto simp: temp_file_def temp_path_def Join_plain [OF h(1)])
  with atomicWriteFile_crash_safe [OF h, where data = "''new''" and h = demo_host] show ?thesis
    unfolding j demo_host_run by auto
qed

end
