(* ===== verification/Go_Effects.thy ===== *)
theory Go_Effects
  imports Local_Files Client_API "HOL-Library.State_Monad"
begin

text \<open>
  Sequential code over a mutable state, in the state monad of the library. The state of a process
  is the outside world it talks to (\<open>net\<close>) and its local machine (\<open>disk\<close>); the lock and the storage
  extend the record by their own fields. \<open>wp f Q s\<close> says that \<open>f\<close>, started in \<open>s\<close>, ends with a
  result and a state that satisfy \<open>Q\<close>; the collection \<open>wp_simps\<close> computes it along the code, and
  the rules for the calls of the client interface state the contract of \<open>s3_api\<close> in this form.
\<close>

named_theorems wp_simps \<open>weakest preconditions of the control structures\<close>

section \<open>State and control structures\<close>

record 'w machine =
  net :: 'w
  disk :: host

abbreviation ret :: "'a \<Rightarrow> ('s, 'a) state" where
  "ret \<equiv> State_Monad.return"

definition gets :: "('s \<Rightarrow> 'a) \<Rightarrow> ('s, 'a) state" where
  "gets f = State (\<lambda>s. (f s, s))"

definition modify :: "('s \<Rightarrow> 's) \<Rightarrow> ('s, unit) state" where
  "modify f = State (\<lambda>s. ((), f s))"

definition on_net :: "('w \<Rightarrow> 'r \<times> 'w) \<Rightarrow> (('w, 'm) machine_scheme, 'r) state" where
  "on_net f = State (\<lambda>m. case f (net m) of (r, w) \<Rightarrow> (r, m\<lparr>net := w\<rparr>))"

definition on_disk :: "(host \<Rightarrow> 'r \<times> host) \<Rightarrow> (('w, 'm) machine_scheme, 'r) state" where
  "on_disk f = State (\<lambda>m. case f (disk m) of (r, h) \<Rightarrow> (r, m\<lparr>disk := h\<rparr>))"

text \<open>
  Loops over a list: with a body that always continues, with an accumulator, and with a body that
  may return from the enclosing function (\<open>Some\<close>).
\<close>

fun for_each :: "'a list \<Rightarrow> ('a \<Rightarrow> ('s, unit) state) \<Rightarrow> ('s, unit) state" where
  "for_each [] f = ret ()"
| "for_each (x # xs) f = do { f x; for_each xs f }"

fun fold_each :: "('b \<Rightarrow> 'a \<Rightarrow> ('s, 'b) state) \<Rightarrow> 'b \<Rightarrow> 'a list \<Rightarrow> ('s, 'b) state" where
  "fold_each f acc [] = ret acc"
| "fold_each f acc (x # xs) = do { acc' \<leftarrow> f acc x; fold_each f acc' xs }"

fun for_return :: "'a list \<Rightarrow> ('a \<Rightarrow> ('s, 'r option) state) \<Rightarrow> ('s, 'r option) state" where
  "for_return [] f = ret None"
| "for_return (x # xs) f = do { r \<leftarrow> f x; case r of None \<Rightarrow> for_return xs f | Some y \<Rightarrow> ret (Some y) }"

section \<open>Weakest preconditions\<close>

definition wp :: "('s, 'a) state \<Rightarrow> ('a \<Rightarrow> 's \<Rightarrow> bool) \<Rightarrow> 's \<Rightarrow> bool" where
  "wp f Q s = (case run_state f s of (r, s') \<Rightarrow> Q r s')"

lemma wp_run: "wp f Q s \<Longrightarrow> run_state f s = (r, s') \<Longrightarrow> Q r s'"
  by (simp add: wp_def)

lemma wp_I: "(\<And>r s'. run_state f s = (r, s') \<Longrightarrow> Q r s') \<Longrightarrow> wp f Q s"
  by (simp add: wp_def split: prod.split)

lemma wp_weaken: "wp f Q s \<Longrightarrow> (\<And>r s'. Q r s' \<Longrightarrow> Q' r s') \<Longrightarrow> wp f Q' s"
  by (auto simp: wp_def split: prod.splits)

lemma wp_conj: "wp f (\<lambda>r s'. P r s' \<and> Q r s') s \<longleftrightarrow> wp f P s \<and> wp f Q s"
  by (simp add: wp_def split: prod.splits)

lemma wp_return [wp_simps]: "wp (ret x) Q s = Q x s"
  by (simp add: wp_def)

lemma wp_bind [wp_simps]: "wp (State_Monad.bind f g) Q s = wp f (\<lambda>r. wp (g r) Q) s"
  by (simp add: wp_def split: prod.splits)

lemma wp_gets [wp_simps]: "wp (gets h) Q s = Q (h s) s"
  by (simp add: wp_def gets_def)

lemma wp_modify [wp_simps]: "wp (modify u) Q s = Q () (u s)"
  by (simp add: wp_def modify_def)

lemma wp_if [wp_simps]: "wp (if b then f else g) Q s = (if b then wp f Q s else wp g Q s)"
  by simp

lemma wp_option [wp_simps]:
  "wp (case x of None \<Rightarrow> f | Some y \<Rightarrow> g y) Q s = (case x of None \<Rightarrow> wp f Q s | Some y \<Rightarrow> wp (g y) Q s)"
  by (simp split: option.split)

lemma wp_sum [wp_simps]:
  "wp (case x of Inl a \<Rightarrow> f a | Inr b \<Rightarrow> g b) Q s = (case x of Inl a \<Rightarrow> wp (f a) Q s | Inr b \<Rightarrow> wp (g b) Q s)"
  by (simp split: sum.split)

lemma wp_pair [wp_simps]: "wp (case x of (a, b) \<Rightarrow> f a b) Q s = (case x of (a, b) \<Rightarrow> wp (f a b) Q s)"
  by (simp split: prod.split)

lemma wp_let [wp_simps]: "wp (Let x f) Q s = wp (f x) Q s"
  by (simp add: Let_def)

lemma wp_on_net: "wp (on_net f) Q m = (case f (net m) of (r, w) \<Rightarrow> Q r (m\<lparr>net := w\<rparr>))"
  by (simp add: wp_def on_net_def split: prod.splits)

lemma wp_on_disk: "wp (on_disk f) Q m = (case f (disk m) of (r, h) \<Rightarrow> Q r (m\<lparr>disk := h\<rparr>))"
  by (simp add: wp_def on_disk_def split: prod.splits)

text \<open>For the rules that keep of the answer and the world after a call only what the contract says.\<close>

lemma wp_on_net_exact:
  "wp (on_net f) (\<lambda>r m'. f (net m) = (r, net m') \<longrightarrow> Q r m') m \<Longrightarrow> wp (on_net f) Q m"
  by (simp add: wp_on_net split: prod.splits)

lemma wp_on_disk_exact:
  "wp (on_disk f) (\<lambda>r m'. f (disk m) = (r, disk m') \<longrightarrow> Q r m') m \<Longrightarrow> wp (on_disk f) Q m"
  by (simp add: wp_on_disk split: prod.splits)

text \<open>The same under a postcondition, where no state is applied.\<close>

lemma wp_fun: "wp (ret x) Q = Q x" "wp (State_Monad.bind f g) P = wp f (\<lambda>r. wp (g r) P)"
  by (simp_all add: fun_eq_iff wp_return wp_bind)

text \<open>A system call whose effect on the files does not matter.\<close>

lemma wp_on_disk_any: "(\<And>r h. Q r (m\<lparr>disk := h\<rparr>)) \<Longrightarrow> wp (on_disk f) Q m"
  by (simp add: wp_on_disk split: prod.split)

text \<open>Loops by an invariant.\<close>

lemma wp_for_each:
  assumes "\<And>x s. x \<in> set xs \<Longrightarrow> I s \<Longrightarrow> wp (f x) (\<lambda>_. I) s" and "I s" and "\<And>s. I s \<Longrightarrow> Q () s"
  shows "wp (for_each xs f) Q s"
proof -
  have "wp (for_each xs f) (\<lambda>_. I) s"
    using assms(1,2)
  proof (induction xs arbitrary: s)
    case Nil
    then show ?case by (simp add: wp_simps)
  next
    case (Cons x xs)
    show ?case
      by (simp add: wp_simps) (rule wp_weaken [OF Cons.prems(1)], use Cons in auto)
  qed
  then show ?thesis by (rule wp_weaken) (simp add: assms(3))
qed

lemma wp_fold_each:
  assumes "\<And>x acc s. x \<in> set xs \<Longrightarrow> I acc s \<Longrightarrow> wp (f acc x) I s" and "I acc s"
    and "\<And>acc s. I acc s \<Longrightarrow> Q acc s"
  shows "wp (fold_each f acc xs) Q s"
proof -
  have "wp (fold_each f acc xs) I s"
    using assms(1,2)
  proof (induction xs arbitrary: acc s)
    case Nil
    then show ?case by (simp add: wp_simps)
  next
    case (Cons x xs)
    show ?case
      by (simp add: wp_simps) (rule wp_weaken [OF Cons.prems(1)], use Cons in auto)
  qed
  then show ?thesis by (rule wp_weaken) (simp add: assms(3))
qed

lemma wp_for_return:
  assumes "\<And>x s. x \<in> set xs \<Longrightarrow> I s \<Longrightarrow> wp (f x) (\<lambda>r s'. case r of None \<Rightarrow> I s' | Some y \<Rightarrow> Q (Some y) s') s"
    and "I s" and "\<And>s. I s \<Longrightarrow> Q None s"
  shows "wp (for_return xs f) Q s"
  using assms(1,2)
proof (induction xs arbitrary: s)
  case Nil
  then show ?case by (simp add: wp_simps assms(3))
next
  case (Cons x xs)
  show ?case
    by (simp add: wp_simps) (rule wp_weaken [OF Cons.prems(1)], use Cons in \<open>auto simp: wp_simps split: option.splits\<close>)
qed

text \<open>Loops by an invariant that knows the part of the list already done.\<close>

lemma wp_fold_each_upto:
  assumes "\<And>ys x zs acc s. xs = ys @ x # zs \<Longrightarrow> I ys acc s \<Longrightarrow> wp (f acc x) (I (ys @ [x])) s"
    and "I [] acc s" and "\<And>acc s. I xs acc s \<Longrightarrow> Q acc s"
  shows "wp (fold_each f acc xs) Q s"
proof -
  have "wp (fold_each f acc zs) (I xs) s" if "xs = ys @ zs" "I ys acc s" for ys zs acc s
    using that
  proof (induction zs arbitrary: ys acc s)
    case Nil
    then show ?case by (simp add: wp_return)
  next
    case (Cons z zs)
    show ?case
      unfolding fold_each.simps wp_bind
      by (rule wp_weaken [OF assms(1) [OF Cons.prems]], rule Cons.IH [of "ys @ [z]"]) (use Cons.prems in auto)
  qed
  from this [of "[]"] assms(2) have "wp (fold_each f acc xs) (I xs) s" by simp
  then show ?thesis by (rule wp_weaken) (rule assms(3))
qed

lemma for_each_fold: "for_each xs f = fold_each (\<lambda>_. f) () xs"
  by (induction xs) auto

lemmas wp_for_each_upto = wp_fold_each_upto [where f = "\<lambda>_. f" and acc = "()" for f, folded for_each_fold]

lemma wp_for_return_upto:
  assumes "\<And>ys x zs s. xs = ys @ x # zs \<Longrightarrow> I ys s \<Longrightarrow>
      wp (f x) (\<lambda>r s'. case r of None \<Rightarrow> I (ys @ [x]) s' | Some y \<Rightarrow> Q (Some y) s') s"
    and "I [] s" and "\<And>s. I xs s \<Longrightarrow> Q None s"
  shows "wp (for_return xs f) Q s"
proof -
  have "wp (for_return zs f) Q s" if "xs = ys @ zs" "I ys s" for ys zs s
    using that
  proof (induction zs arbitrary: ys s)
    case Nil
    then show ?case using assms(3) by (simp add: wp_return)
  next
    case (Cons z zs)
    show ?case
      unfolding for_return.simps wp_bind
      by (rule wp_weaken [OF assms(1) [OF Cons.prems]])
        (use Cons.IH [of "ys @ [z]"] Cons.prems in \<open>auto simp: wp_return split: option.splits\<close>)
  qed
  from this [of "[]"] assms(2) show ?thesis by simp
qed

text \<open>
  Evaluation on a concrete state goes through \<open>wp\<close> as well: with the congruence rule the simplifier
  runs the first command before it looks at the rest; an operation is unfolded by its definition
  with \<open>wp_unfold\<close> when it is reached.
\<close>

lemma wp_state_cong: "s = s' \<Longrightarrow> wp f Q s = wp f Q s'"
  by simp

lemma wp_unfold: "f = g \<Longrightarrow> wp f Q s = wp g Q s"
  by simp

lemmas wp_exec = wp_simps wp_on_net wp_on_disk

lemma wp_obtain:
  assumes "wp f (\<lambda>r s'. r = x) s" obtains s' where "run_state f s = (x, s')"
  using assms by (auto simp: wp_def split: prod.splits)

section \<open>Calls of the client interface\<close>

text \<open>Each rule names the results a call may have and what it does to the objects.\<close>

context s3_api
begin

lemma wp_put:
  assumes "\<And>w'. view w' = (view (net m))(k \<mapsto> d) \<Longrightarrow> Q None (m\<lparr>net := w'\<rparr>)"
    and "\<And>e w'. view w' = view (net m) \<or> view w' = (view (net m))(k \<mapsto> d) \<Longrightarrow> Q (Some e) (m\<lparr>net := w'\<rparr>)"
  shows "wp (on_net (api_PutBytes api c k d)) Q m"
proof (simp only: wp_on_net, split prod.split, intro allI impI)
  fix r w' assume "api_PutBytes api c k d (net m) = (r, w')"
  then show "Q r (m\<lparr>net := w'\<rparr>)"
    using assms put_nil put_err by (cases r) blast+
qed

lemma wp_remove:
  assumes "\<And>w'. view w' = (view (net m))(k := None) \<Longrightarrow> Q None (m\<lparr>net := w'\<rparr>)"
    and "\<And>e w'. view w' = view (net m) \<or> view w' = (view (net m))(k := None) \<Longrightarrow> Q (Some e) (m\<lparr>net := w'\<rparr>)"
  shows "wp (on_net (api_Remove api c k)) Q m"
proof (simp only: wp_on_net, split prod.split, intro allI impI)
  fix r w' assume "api_Remove api c k (net m) = (r, w')"
  then show "Q r (m\<lparr>net := w'\<rparr>)"
    using assms remove_nil remove_err by (cases r) blast+
qed

lemma wp_get:
  assumes "\<And>d w'. view w' = view (net m) \<Longrightarrow> view (net m) k = Some d \<Longrightarrow> Q (Inr d) (m\<lparr>net := w'\<rparr>)"
    and "\<And>e w'. view w' = view (net m) \<Longrightarrow>
      (errors_Is e OsErrNotExist \<or> isNotFoundError e \<longrightarrow> view (net m) k = None) \<Longrightarrow> Q (Inl e) (m\<lparr>net := w'\<rparr>)"
  shows "wp (on_net (api_GetBytes api c k)) Q m"
proof (simp only: wp_on_net, split prod.split, intro allI impI)
  fix r w' assume g: "api_GetBytes api c k (net m) = (r, w')"
  show "Q r (m\<lparr>net := w'\<rparr>)"
  proof (cases r)
    case (Inl e)
    then show ?thesis using assms(2) get_view [OF g] get_missing g by blast
  next
    case (Inr d)
    then show ?thesis using assms(1) get_view [OF g] get_data g by blast
  qed
qed

lemma wp_exists:
  assumes "\<And>w'. view w' = view (net m) \<Longrightarrow> Q (Inr (view (net m) k \<noteq> None)) (m\<lparr>net := w'\<rparr>)"
    and "\<And>e w'. view w' = view (net m) \<Longrightarrow> Q (Inl e) (m\<lparr>net := w'\<rparr>)"
  shows "wp (on_net (api_Exists api c k)) Q m"
proof (simp only: wp_on_net, split prod.split, intro allI impI)
  fix r w' assume x: "api_Exists api c k (net m) = (r, w')"
  show "Q r (m\<lparr>net := w'\<rparr>)"
  proof (cases r)
    case (Inl e)
    then show ?thesis using assms(2) exists_view [OF x] by blast
  next
    case (Inr b)
    then have "b = (view (net m) k \<noteq> None)" using x exists_ok by simp
    with Inr show ?thesis using assms(1) [OF exists_view [OF x]] by simp
  qed
qed

lemma wp_list:
  assumes "\<And>fds w'. view w' = view (net m) \<Longrightarrow> set fds = listed_fds (view (net m)) \<Longrightarrow> Q (Inr fds) (m\<lparr>net := w'\<rparr>)"
    and "\<And>e w'. view w' = view (net m) \<Longrightarrow> Q (Inl e) (m\<lparr>net := w'\<rparr>)"
  shows "wp (on_net (api_List api c)) Q m"
proof (simp only: wp_on_net, split prod.split, intro allI impI)
  fix r w' assume l: "api_List api c (net m) = (r, w')"
  then show "Q r (m\<lparr>net := w'\<rparr>)"
    using assms list_view [OF l] list_ok by (cases r) blast+
qed

lemma wp_names:
  assumes "\<And>ks w'. view w' = view (net m) \<Longrightarrow> distinct ks \<Longrightarrow>
      set ks = {k. view (net m) k \<noteq> None \<and> k \<noteq> [] \<and> HasPrefix k p} \<Longrightarrow> Q (Inr ks) (m\<lparr>net := w'\<rparr>)"
    and "\<And>e w'. view w' = view (net m) \<Longrightarrow> Q (Inl e) (m\<lparr>net := w'\<rparr>)"
  shows "wp (on_net (api_ListNames api c p)) Q m"
proof (simp only: wp_on_net, split prod.split, intro allI impI)
  fix r w' assume l: "api_ListNames api c p (net m) = (r, w')"
  then show "Q r (m\<lparr>net := w'\<rparr>)"
    using assms names_view [OF l] names_ok by (cases r) blast+
qed

lemma wp_copy:
  assumes "\<And>w'. view (net m) k \<noteq> None \<Longrightarrow> view w' = (view (net m))(k' := view (net m) k) \<Longrightarrow>
      Q None (m\<lparr>net := w'\<rparr>)"
    and "\<And>e w'. view w' = view (net m)
      \<or> view (net m) k \<noteq> None \<and> view w' = (view (net m))(k' := view (net m) k) \<Longrightarrow> Q (Some e) (m\<lparr>net := w'\<rparr>)"
  shows "wp (on_net (api_Copy api c k k')) Q m"
proof (simp only: wp_on_net, split prod.split, intro allI impI)
  fix r w' assume "api_Copy api c k k' (net m) = (r, w')"
  then show "Q r (m\<lparr>net := w'\<rparr>)"
    using assms copy_nil copy_err by (cases r) blast+
qed

end

section \<open>Calls of the local file system\<close>

text \<open>
  Stated over \<open>data_at\<close>, the files of the machine with their contents. Reading leaves every file
  alone; a call that writes names the only path it may change.
\<close>

lemma data_at_cong: "node_at h' q = node_at h q \<Longrightarrow> data_at h' q = data_at h q"
  by (simp add: data_at_def)

lemma data_at_upd:
  assumes "\<And>q. q \<noteq> p \<Longrightarrow> node_at h' q = node_at h q"
  shows "data_at h' = (data_at h)(p := data_at h' p)"
proof
  fix q
  show "data_at h' q = ((data_at h)(p := data_at h' p)) q"
    using data_at_cong [OF assms [of q]] by auto
qed

lemma wp_ReadFile:
  assumes "\<And>d h. data_at h = data_at (disk m) \<Longrightarrow> data_at (disk m) p = Some d \<Longrightarrow> Q (Inr d) (m\<lparr>disk := h\<rparr>)"
    and "\<And>e h. data_at h = data_at (disk m) \<Longrightarrow> Q (Inl e) (m\<lparr>disk := h\<rparr>)"
  shows "wp (on_disk (os_ReadFile p)) Q m"
proof (simp only: wp_on_disk, split prod.split, intro allI impI)
  fix r h assume c: "os_ReadFile p (disk m) = (r, h)"
  have n: "data_at h = data_at (disk m)"
    using read_node(1) [of p "disk m"] c by (intro ext data_at_cong) simp
  show "Q r (m\<lparr>disk := h\<rparr>)"
  proof (cases r)
    case (Inl e)
    then show ?thesis using assms(2) n by blast
  next
    case (Inr d)
    then have "data_at (disk m) p = Some d" using os_ReadFile_Inr c by (simp add: data_at_Some)
    with Inr show ?thesis using assms(1) n by blast
  qed
qed

lemma wp_Stat:
  assumes "\<And>r h. data_at h = data_at (disk m) \<Longrightarrow> (r = Inl OsErrNotExist \<Longrightarrow> data_at (disk m) p = None) \<Longrightarrow>
     Q r (m\<lparr>disk := h\<rparr>)"
  shows "wp (on_disk (os_Stat p)) Q m"
proof (simp only: wp_on_disk, split prod.split, intro allI impI)
  fix r h assume c: "os_Stat p (disk m) = (r, h)"
  have "data_at h = data_at (disk m)"
    using read_node(2) [of p "disk m"] c by (intro ext data_at_cong) simp
  moreover have "data_at (disk m) p = None" if "r = Inl OsErrNotExist"
    using c that by (auto simp: os_Stat_def data_at_def next_fault_node
        split: prod.splits if_splits option.splits fs_node.splits)
  ultimately show "Q r (m\<lparr>disk := h\<rparr>)" by (rule assms)
qed

text \<open>A directory lists each of its files once, in the order of the names.\<close>

lemma ReadDir_Inr:
  assumes "os_ReadDir p h = (Inr es, h')"
  shows "distinct (map fst es)" and "sorted (map fst es)"
    and "(n, False) \<in> set es \<longleftrightarrow> n \<noteq> [] \<and> CHR ''/'' \<notin> set n \<and> data_at h (dir_prefix p @ n) \<noteq> None"
proof -
  obtain h1 where nf: "next_fault h = (OsOk, h1)"
    and es: "es = map (\<lambda>n. (n, node_at h1 (dir_prefix p @ n) = Some Dir)) (child_names h1 p)"
    using assms by (auto simp: os_ReadDir_def split: prod.splits if_splits)
  have fst: "map fst es = child_names h1 p" by (simp add: es comp_def)
  show "distinct (map fst es)" and "sorted (map fst es)" by (simp_all add: fst child_names_def)
  have "n \<in> set (child_names h1 p) \<longleftrightarrow> n \<noteq> [] \<and> CHR ''/'' \<notin> set n \<and> node_at h1 (dir_prefix p @ n) \<noteq> None"
  proof
    assume "n \<in> set (child_names h1 p)"
    then obtain q v where q: "(q, v) \<in> set (fs h1)" "child_name p q = Some n"
      by (force simp: child_names_def map_filter_def split: option.splits)
    then have "q = dir_prefix p @ n" "n \<noteq> []" "CHR ''/'' \<notin> set n"
      by (auto simp: child_name_def HasPrefix_iff Let_def split: if_splits)
    moreover have "node_at h1 q \<noteq> None"
      unfolding node_at_def map_of_eq_None_iff using imageI [OF q(1), of fst] by simp
    ultimately show "n \<noteq> [] \<and> CHR ''/'' \<notin> set n \<and> node_at h1 (dir_prefix p @ n) \<noteq> None" by simp
  next
    assume n: "n \<noteq> [] \<and> CHR ''/'' \<notin> set n \<and> node_at h1 (dir_prefix p @ n) \<noteq> None"
    then obtain v where "(dir_prefix p @ n, v) \<in> set (fs h1)"
      by (auto simp: node_at_def dest: map_of_SomeD)
    moreover have "child_name p (dir_prefix p @ n) = Some n" using n by (simp add: child_name_def)
    ultimately show "n \<in> set (child_names h1 p)" by (force simp: child_names_def map_filter_def)
  qed
  then have "(n, False) \<in> set es \<longleftrightarrow> n \<noteq> [] \<and> CHR ''/'' \<notin> set n \<and> data_at h1 (dir_prefix p @ n) \<noteq> None"
    by (auto simp: es data_at_def split: option.splits fs_node.splits)
  then show "(n, False) \<in> set es \<longleftrightarrow> n \<noteq> [] \<and> CHR ''/'' \<notin> set n \<and> data_at h (dir_prefix p @ n) \<noteq> None"
    using nf by (simp add: data_at_def next_fault_node)
qed

lemma wp_ReadDir:
  assumes "\<And>es h. data_at h = data_at (disk m) \<Longrightarrow> distinct (map fst es) \<Longrightarrow> sorted (map fst es) \<Longrightarrow>
      (\<And>n. (n, False) \<in> set es \<longleftrightarrow> n \<noteq> [] \<and> CHR ''/'' \<notin> set n \<and> data_at (disk m) (dir_prefix p @ n) \<noteq> None) \<Longrightarrow>
      Q (Inr es) (m\<lparr>disk := h\<rparr>)"
    and "\<And>e h. data_at h = data_at (disk m) \<Longrightarrow> Q (Inl e) (m\<lparr>disk := h\<rparr>)"
  shows "wp (on_disk (os_ReadDir p)) Q m"
proof (simp only: wp_on_disk, split prod.split, intro allI impI)
  fix r h assume c: "os_ReadDir p (disk m) = (r, h)"
  have d: "data_at h = data_at (disk m)"
    using read_node(3) [of p "disk m"] c by (intro ext data_at_cong) simp
  show "Q r (m\<lparr>disk := h\<rparr>)"
  proof (cases r)
    case (Inl e)
    then show ?thesis using assms(2) d by blast
  next
    case (Inr es)
    with c have "os_ReadDir p (disk m) = (Inr es, h)" by simp
    note es = ReadDir_Inr [OF this]
    show ?thesis unfolding Inr using d es by (intro assms(1)) auto
  qed
qed

text \<open>Under a clean directory the path of a plain name is the directory prefix and the name.\<close>

lemma Join_dir_prefix: "clean_dir d \<Longrightarrow> plain_name n \<Longrightarrow> filepath_Join [d, n] = dir_prefix d @ n"
  by (simp add: Join_plain dir_prefix_def clean_dir_def)

lemma wp_Remove:
  assumes "\<And>h. data_at h = (data_at (disk m))(p := None) \<Longrightarrow> Q (Inr ()) (m\<lparr>disk := h\<rparr>)"
    and "\<And>e h. data_at h = data_at (disk m) \<Longrightarrow> Q (Inl e) (m\<lparr>disk := h\<rparr>)"
  shows "wp (on_disk (os_Remove p)) Q m"
proof (simp only: wp_on_disk, split prod.split, intro allI impI)
  fix r h assume c: "os_Remove p (disk m) = (r, h)"
  show "Q r (m\<lparr>disk := h\<rparr>)"
  proof (cases r)
    case (Inl e)
    then have "data_at h = data_at (disk m)" using c by (intro ext data_at_cong) (simp add: os_Remove_Inl)
    with Inl show ?thesis using assms(2) by blast
  next
    case (Inr u)
    then have "data_at h p = None" using c by (simp add: os_Remove_Inr data_at_def)
    moreover have "data_at h = (data_at (disk m))(p := data_at h p)"
      using c other_Remove [of _ p "disk m"] by (intro data_at_upd) simp
    ultimately show ?thesis using assms(1) Inr by simp
  qed
qed

lemma wp_WriteFile:
  assumes "\<And>h. data_at h = (data_at (disk m))(p \<mapsto> d) \<Longrightarrow> Q (Inr ()) (m\<lparr>disk := h\<rparr>)"
    and "\<And>e h x. data_at h = (data_at (disk m))(p := x) \<Longrightarrow> Q (Inl e) (m\<lparr>disk := h\<rparr>)"
  shows "wp (on_disk (os_WriteFile p d)) Q m"
proof (simp only: wp_on_disk, split prod.split, intro allI impI)
  fix r h assume c: "os_WriteFile p d (disk m) = (r, h)"
  have u: "data_at h = (data_at (disk m))(p := data_at h p)"
    using c other_WriteFile [of _ p d "disk m"] by (intro data_at_upd) simp
  show "Q r (m\<lparr>disk := h\<rparr>)"
  proof (cases r)
    case (Inl e)
    then show ?thesis using assms(2) u by blast
  next
    case (Inr v)
    then have "data_at h p = Some d" using c by (simp add: os_WriteFile_Inr data_at_def)
    then show ?thesis using assms(1) u Inr by simp
  qed
qed

lemma wp_Rename:
  assumes "p \<noteq> p'"
    and "\<And>d h. data_at (disk m) p = Some d \<Longrightarrow> data_at h = (data_at (disk m))(p := None, p' \<mapsto> d) \<Longrightarrow>
      Q (Inr ()) (m\<lparr>disk := h\<rparr>)"
    and "\<And>e h. data_at h = data_at (disk m) \<Longrightarrow> Q (Inl e) (m\<lparr>disk := h\<rparr>)"
  shows "wp (on_disk (os_Rename p p')) Q m"
proof (simp only: wp_on_disk, split prod.split, intro allI impI)
  fix r h assume c: "os_Rename p p' (disk m) = (r, h)"
  show "Q r (m\<lparr>disk := h\<rparr>)"
  proof (cases r)
    case (Inl e)
    then have "data_at h = data_at (disk m)" using c by (intro ext data_at_cong) (simp add: os_Rename_Inl)
    with Inl show ?thesis using assms(3) by blast
  next
    case (Inr u)
    then obtain d where d: "node_at (disk m) p = Some (File d)" "node_at h p' = Some (File d)" "node_at h p = None"
      using os_Rename_Inr [of p p' "disk m" u h] c assms(1) by blast
    have "data_at h q = ((data_at (disk m))(p := None, p' \<mapsto> d)) q" for q
      using d c other_Rename [of q p p' "disk m"] by (cases "q = p \<or> q = p'") (auto simp: data_at_def)
    then have "data_at h = (data_at (disk m))(p := None, p' \<mapsto> d)" by blast
    then show ?thesis using assms(2) [of d h] d(1) Inr by (simp add: data_at_Some)
  qed
qed

text \<open>\<open>MkdirAll\<close> only adds directories.\<close>

lemma MkdirAll_keeps: "node_at h q = Some n \<Longrightarrow> node_at (snd (os_MkdirAll p h)) q = Some n"
proof -
  assume q: "node_at h q = Some n"
  have "node_at (fold (\<lambda>q g. if dir_exists g q then g else put_node q Dir g) ps h') q = Some n"
    if "node_at h' q = Some n" "\<forall>p \<in> set ps. node_at h' p = None \<or> node_at h' p = Some Dir" for ps h'
    using that
  proof (induction ps arbitrary: h')
    case (Cons p ps)
    show ?case
      using Cons.prems Cons.IH [of h'] Cons.IH [of "put_node p Dir h'"] 
      by (cases "q = p"; cases "dir_exists h' p") (auto simp: dir_exists_def)
  qed simp
  note keep = this
  obtain f h1 where f: "next_fault h = (f, h1)" by force
  then have n: "node_at h1 q = Some n" using q by (simp add: next_fault_node)
  have "node_at h1 p = None \<or> node_at h1 p = Some Dir" if "data_at h1 p = None" for p
    using that by (auto simp: data_at_def split: option.splits fs_node.splits)
  then have "list_ex (\<lambda>q. data_at h1 q \<noteq> None) (ancestors p)
      \<or> (\<forall>q \<in> set (ancestors p). node_at h1 q = None \<or> node_at h1 q = Some Dir)"
    by (auto simp: list_ex_iff)
  then show ?thesis
    using f n keep [OF n, of "ancestors p"] by (auto simp: os_MkdirAll_def)
qed

lemma MkdirAll_new: "node_at h q = None \<Longrightarrow> node_at (snd (os_MkdirAll p h)) q \<in> {None, Some Dir}"
proof -
  assume q: "node_at h q = None"
  have "node_at (fold (\<lambda>q g. if dir_exists g q then g else put_node q Dir g) ps h') q \<in> {None, Some Dir}"
    if "node_at h' q \<in> {None, Some Dir}" for ps h'
    using that by (induction ps arbitrary: h') auto
  then show ?thesis
    using q by (auto simp: os_MkdirAll_def next_fault_node split: prod.splits)
qed

lemma wp_MkdirAll:
  assumes "\<And>r h. data_at h = data_at (disk m) \<Longrightarrow> Q r (m\<lparr>disk := h\<rparr>)"
  shows "wp (on_disk (os_MkdirAll p)) Q m"
proof (simp only: wp_on_disk, split prod.split, intro allI impI)
  fix r h assume c: "os_MkdirAll p (disk m) = (r, h)"
  have "data_at h q = data_at (disk m) q" for q
    using MkdirAll_keeps [of "disk m" q _ p] MkdirAll_new [of "disk m" q p] c
    by (cases "node_at (disk m) q") (auto simp: data_at_def split: option.splits)
  then show "Q r (m\<lparr>disk := h\<rparr>)" using assms by blast
qed

text \<open>
  \<open>RemoveAll\<close> of a directory keeps everything outside; when it succeeds nothing is left inside.
\<close>

lemma wp_RemoveAll:
  assumes "\<And>r h. \<forall>q. \<not> under p q \<longrightarrow> data_at h q = data_at (disk m) q \<Longrightarrow>
      \<forall>q. data_at h q = data_at (disk m) q \<or> data_at h q = None \<Longrightarrow>
      (r = Inr () \<Longrightarrow> \<forall>q. under p q \<longrightarrow> data_at h q = None) \<Longrightarrow> Q r (m\<lparr>disk := h\<rparr>)"
  shows "wp (on_disk (os_RemoveAll p)) Q m"
proof (simp only: wp_on_disk, split prod.split, intro allI impI)
  fix r h assume c: "os_RemoveAll p (disk m) = (r, h)"
  obtain f h1 where f: "next_fault (disk m) = (f, h1)" by force
  have sub: "map_of (filter (\<lambda>(q, v). K q) t) q = (if K q then map_of t q else None)" for K and t :: fs_table and q
    by (rule map_of_filter_keys)
  obtain K where n: "\<And>q. node_at h q = (if K q then node_at (disk m) q else None)"
    and out: "\<And>q. \<not> under p q \<Longrightarrow> K q" and ok: "\<And>q. r = Inr () \<Longrightarrow> under p q \<Longrightarrow> \<not> K q"
  proof (cases f)
    case OsOk
    with c f have "h = set_fs (filter (\<lambda>(q, _). \<not> under p q) (fs h1)) h1"
      by (simp add: os_RemoveAll_def)
    then have "\<And>q. node_at h q = (if \<not> under p q then node_at (disk m) q else None)"
      using f by (simp add: node_at_def set_fs_def sub next_fault_fs)
    then show ?thesis using that [of "\<lambda>q. \<not> under p q"] by blast
  next
    case OsErr
    with c f have "h = h1" and "r \<noteq> Inr ()" by (auto simp: os_RemoveAll_def)
    then show ?thesis using that [of "\<lambda>_. True"] f by (auto simp: next_fault_node)
  next
    case (OsShort k)
    let ?gone = "take k (map fst (filter (\<lambda>(q, v). under p q \<and> v \<noteq> Dir) (fs h1)))"
    have "h = set_fs (filter (\<lambda>(q, _). q \<notin> set ?gone) (fs h1)) h1" and "r \<noteq> Inr ()"
      using OsShort c f by (simp_all add: os_RemoveAll_def Let_def) auto
    then have "node_at h q = (if q \<notin> set ?gone then node_at (disk m) q else None)" and "r \<noteq> Inr ()" for q
      using f sub [of "\<lambda>q. q \<notin> set ?gone" "fs h1" q] by (simp_all add: node_at_def set_fs_def next_fault_fs)
    moreover have "q \<in> set ?gone \<Longrightarrow> under p q" for q by (drule in_set_takeD) auto
    ultimately show ?thesis using that [of "\<lambda>q. q \<notin> set ?gone"] by blast
  qed
  have "data_at h q = (if K q then data_at (disk m) q else None)" for q
    by (simp add: data_at_def n)
  then show "Q r (m\<lparr>disk := h\<rparr>)" using out ok by (intro assms) auto
qed

text \<open>
  On a disk where nothing fails, the results of reading and removing are determined, and the disk
  stays such a disk.
\<close>

lemma wp_ReadFile_ok:
  assumes "\<And>d h. data_at h = data_at (disk m) \<Longrightarrow> (faults (disk m) = [] \<Longrightarrow> faults h = []) \<Longrightarrow>
      data_at (disk m) p = Some d \<Longrightarrow> Q (Inr d) (m\<lparr>disk := h\<rparr>)"
    and "\<And>e h. data_at h = data_at (disk m) \<Longrightarrow>
      (faults (disk m) = [] \<Longrightarrow> faults h = [] \<and> data_at (disk m) p = None) \<Longrightarrow> Q (Inl e) (m\<lparr>disk := h\<rparr>)"
  shows "wp (on_disk (os_ReadFile p)) Q m"
proof (simp only: wp_on_disk, split prod.split, intro allI impI)
  fix r h assume c: "os_ReadFile p (disk m) = (r, h)"
  have n: "data_at h = data_at (disk m)"
    using read_node(1) [of p "disk m"] c by (intro ext data_at_cong) simp
  have f: "faults h = []" if "faults (disk m) = []"
    using c that by (auto simp: os_ReadFile_def next_fault_def split: option.splits fs_node.splits)
  show "Q r (m\<lparr>disk := h\<rparr>)"
  proof (cases r)
    case (Inl e)
    have "data_at (disk m) p = None" if "faults (disk m) = []"
      using c that Inl by (auto simp: os_ReadFile_def next_fault_def data_at_def split: option.splits fs_node.splits)
    then show ?thesis using assms(2) n f Inl by blast
  next
    case (Inr d)
    then have "data_at (disk m) p = Some d" using os_ReadFile_Inr c by (simp add: data_at_Some)
    with Inr show ?thesis using assms(1) n f by blast
  qed
qed

lemma wp_Remove_ok:
  assumes "\<And>r h x. data_at h = (data_at (disk m))(p := x) \<Longrightarrow> x = None \<or> x = data_at (disk m) p \<Longrightarrow>
      (faults (disk m) = [] \<Longrightarrow> faults h = [] \<and> x = None) \<Longrightarrow> Q r (m\<lparr>disk := h\<rparr>)"
  shows "wp (on_disk (os_Remove p)) Q m"
proof -
  have keep: "faults h = [] \<and> data_at h p = None" if "os_Remove p (disk m) = (r, h)" "faults (disk m) = []" for r h
    using that by (auto simp: os_Remove_def next_fault_def data_at_def del_node_def set_fs_def node_at_def
        split: option.splits fs_node.splits if_splits)
  show ?thesis
  proof (simp only: wp_on_disk, split prod.split, intro allI impI)
    fix r h assume c: "os_Remove p (disk m) = (r, h)"
    have u: "data_at h = (data_at (disk m))(p := data_at h p)"
      using c other_Remove [of _ p "disk m"] by (intro data_at_upd) simp
    have x: "data_at h p = None \<or> data_at h p = data_at (disk m) p"
      using os_Remove_Inl [of p "disk m" _ h] os_Remove_Inr [of p "disk m" _ h] c
      by (cases r) (simp_all add: data_at_def)
    show "Q r (m\<lparr>disk := h\<rparr>)" by (rule assms [OF u x]) (use keep [OF c] in blast)
  qed
qed

lemma wp_ReadDir_ok:
  assumes "\<And>es h. data_at h = data_at (disk m) \<Longrightarrow> (faults (disk m) = [] \<Longrightarrow> faults h = []) \<Longrightarrow>
      distinct (map fst es) \<Longrightarrow> sorted (map fst es) \<Longrightarrow>
      (\<And>n. (n, False) \<in> set es \<longleftrightarrow> n \<noteq> [] \<and> CHR ''/'' \<notin> set n \<and> data_at (disk m) (dir_prefix p @ n) \<noteq> None) \<Longrightarrow>
      Q (Inr es) (m\<lparr>disk := h\<rparr>)"
    and "\<And>e h. data_at h = data_at (disk m) \<Longrightarrow> (faults (disk m) = [] \<Longrightarrow> faults h = [] \<and> \<not> dir_exists (disk m) p) \<Longrightarrow>
      Q (Inl e) (m\<lparr>disk := h\<rparr>)"
  shows "wp (on_disk (os_ReadDir p)) Q m"
proof (simp only: wp_on_disk, split prod.split, intro allI impI)
  fix r h assume c: "os_ReadDir p (disk m) = (r, h)"
  have d: "data_at h = data_at (disk m)"
    using read_node(3) [of p "disk m"] c by (intro ext data_at_cong) simp
  have f: "faults h = []" if "faults (disk m) = []"
    using c that by (auto simp: os_ReadDir_def next_fault_def split: if_splits)
  show "Q r (m\<lparr>disk := h\<rparr>)"
  proof (cases r)
    case (Inl e)
    have "\<not> dir_exists (disk m) p" if "faults (disk m) = []"
      using c that Inl by (auto simp: os_ReadDir_def next_fault_def split: if_splits)
    then show ?thesis using assms(2) d f Inl by blast
  next
    case (Inr es)
    with c have "os_ReadDir p (disk m) = (Inr es, h)" by simp
    note es = ReadDir_Inr [OF this]
    show ?thesis unfolding Inr using d f es by (intro assms(1)) auto
  qed
qed

text \<open>\<open>atomicWriteFile\<close>: the target changes completely or not at all.\<close>

lemma wp_atomicWrite:
  assumes "\<not> temp_file (filepath_Dir p) p"
    and "\<And>h. data_at h p = Some d \<Longrightarrow>
      \<forall>q. q \<noteq> p \<longrightarrow> \<not> temp_file (filepath_Dir p) q \<longrightarrow> data_at h q = data_at (disk m) q \<Longrightarrow>
      Q (Inr ()) (m\<lparr>disk := h\<rparr>)"
    and "\<And>e h. \<forall>q. \<not> temp_file (filepath_Dir p) q \<longrightarrow> data_at h q = data_at (disk m) q \<Longrightarrow>
      Q (Inl e) (m\<lparr>disk := h\<rparr>)"
  shows "wp (on_disk (atomicWriteFile p d)) Q m"
proof (simp only: wp_on_disk, split prod.split, intro allI impI)
  fix r h assume c: "atomicWriteFile p d (disk m) = (r, h)"
  have other: "data_at h q = data_at (disk m) q" if "q \<noteq> p" "\<not> temp_file (filepath_Dir p) q" for q
    using atomicWrite_other [OF that(2,1), of "disk m" d] c by (intro data_at_cong) (simp add: keeps_at_def)
  show "Q r (m\<lparr>disk := h\<rparr>)"
  proof (cases r)
    case (Inl e)
    then have "node_at h p = node_at (disk m) p"
      using atomicWrite_target(1) [OF c assms(1)] by simp
    then have "data_at h q = data_at (disk m) q" if "\<not> temp_file (filepath_Dir p) q" for q
      using other [of q] that data_at_cong [of h p "disk m"] by (cases "q = p") simp_all
    then show ?thesis using assms(3) Inl by blast
  next
    case (Inr u)
    then have "data_at h p = Some d" using atomicWrite_target(1) [OF c assms(1)] by (simp add: data_at_def)
    then show ?thesis using assms(2) other Inr by simp
  qed
qed

end
