(* ===== verification/Mem_Client.thy ===== *)
theory Mem_Client
  imports Client_Contract Go_Effects
begin

text \<open>
  A client of the interface of \<^verbatim>\<open>interface.go\<close> that works on an in-memory table with a fault
  schedule, for examples: the same world as the simulated service, without the retry loop. It
  fulfils the contract \<open>s3_api\<close>, and its calls evaluate.
\<close>

definition mem_get :: "go_context \<Rightarrow> string \<Rightarrow> sim_world \<Rightarrow> (error + bytes) \<times> sim_world" where
  "mem_get c k w =
     (case sim_outcome c w of
        (Inl e, w1) \<Rightarrow> (Inl e, w1)
      | (Inr x, w1) \<Rightarrow> (case sim_objs w1 k of
            None \<Rightarrow> (Inl OsErrNotExist, w1)
          | Some d \<Rightarrow> (if x = Answered then Inr d else Inl (OtherError ''unexpected EOF''), w1)))"

definition mem_exists :: "go_context \<Rightarrow> string \<Rightarrow> sim_world \<Rightarrow> (error + bool) \<times> sim_world" where
  "mem_exists c k w =
     (case sim_outcome c w of
        (Inl e, w1) \<Rightarrow> (Inl e, w1)
      | (Inr x, w1) \<Rightarrow> (if x = Answered then Inr (sim_objs w1 k \<noteq> None) else Inl (OtherError ''connection reset''), w1))"

definition mem_put_new :: "go_context \<Rightarrow> string \<Rightarrow> bytes \<Rightarrow> sim_world \<Rightarrow> (error + bool) \<times> sim_world" where
  "mem_put_new c k d w =
     (if sim_objs w k \<noteq> None then (Inr False, w)
      else (case sim_write c (AList.update k d) w of
          (Some e, w1) \<Rightarrow> (Inl e, w1)
        | (None, w1) \<Rightarrow> (Inr True, w1)))"

definition mem_names :: "go_context \<Rightarrow> string \<Rightarrow> sim_world \<Rightarrow> (error + string list) \<times> sim_world" where
  "mem_names c p w =
     (case sim_outcome c w of
        (Inl e, w1) \<Rightarrow> (Inl e, w1)
      | (Inr x, w1) \<Rightarrow>
          (if x = Answered then Inr (filter (\<lambda>k. k \<noteq> [] \<and> HasPrefix k p) (remdups (map fst (sim_table w1))))
           else Inl (OtherError ''connection reset''), w1))"

definition mem_list :: "go_context \<Rightarrow> sim_world \<Rightarrow> (error + file_desc list) \<times> sim_world" where
  "mem_list c w =
     (case sim_outcome c w of
        (Inl e, w1) \<Rightarrow> (Inl e, w1)
      | (Inr x, w1) \<Rightarrow>
          (if x = Answered then Inr (List.map_filter list_entry (map fst (sim_table w1)))
           else Inl (OtherError ''connection reset''), w1))"

definition mem_api :: "sim_world S3ClientAPI" where
  "mem_api =
     \<lparr>api_PutBytes = (\<lambda>c k d. sim_write c (AList.update k d)), api_PutBytesIfNotExists = mem_put_new,
      api_GetBytes = mem_get, api_Remove = (\<lambda>c k. sim_write c (AList.delete k)), api_Exists = mem_exists,
      api_List = mem_list, api_Copy = sim_copy, api_ListNames = mem_names\<rparr>"

lemma mem_api_calls [simp]:
  "api_PutBytes mem_api c k d = sim_write c (AList.update k d)"
  "api_PutBytesIfNotExists mem_api c k d = mem_put_new c k d"
  "api_GetBytes mem_api c k = mem_get c k"
  "api_Remove mem_api c k = sim_write c (AList.delete k)"
  "api_Exists mem_api c k = mem_exists c k"
  "api_List mem_api c = mem_list c"
  "api_Copy mem_api c k k' = sim_copy c k k'"
  "api_ListNames mem_api c p = mem_names c p"
  by (simp_all add: mem_api_def)

lemma sim_objs_frame: "sim_outcome c w = (r, w') \<Longrightarrow> sim_objs w' = sim_objs w"
  by (simp add: sim_objs_def sim_outcome_frame)

interpretation mem: s3_api mem_api sim_objs
proof (unfold_locales, goal_cases)
  case (1 c k d w w')
  then show ?case using sim_write_effect [of c "AList.update k d" w None w'] by (simp add: sim_objs_def update_conv')
next
  case (2 c k d w e w')
  then show ?case using sim_write_effect [of c "AList.update k d" w "Some e" w']
    by (auto simp: sim_objs_def update_conv')
next
  case (3 c k d w b w')
  then show ?case using sim_write_effect [of c "AList.update k d" w None w']
    by (auto simp: mem_put_new_def sim_objs_def update_conv' split: if_splits prod.splits option.splits)
next
  case (4 c k d w e w')
  then show ?case using sim_write_effect [of c "AList.update k d" w "Some e" w']
    by (auto simp: mem_put_new_def sim_objs_def update_conv' split: if_splits prod.splits option.splits)
next
  case (5 c k w r w')
  then show ?case by (auto simp: mem_get_def dest: sim_objs_frame split: prod.splits sum.splits option.splits if_splits)
next
  case (6 c k w d w')
  then show ?case by (auto simp: mem_get_def dest: sim_objs_frame split: prod.splits sum.splits option.splits if_splits)
next
  case (7 c k w e w')
  then show ?case
    by (auto simp: mem_get_def dest: sim_objs_frame sim_outcome_error split: prod.splits sum.splits option.splits if_splits)
next
  case (8 c k w w')
  then show ?case using sim_write_effect [of c "AList.delete k" w None w'] by (simp add: sim_objs_def delete_conv')
next
  case (9 c k w e w')
  then show ?case using sim_write_effect [of c "AList.delete k" w "Some e" w']
    by (auto simp: sim_objs_def delete_conv')
next
  case (10 c k w x w')
  then show ?case by (auto simp: mem_exists_def dest: sim_objs_frame split: prod.splits sum.splits)
next
  case (11 c k w b w')
  then show ?case by (auto simp: mem_exists_def dest: sim_objs_frame split: prod.splits sum.splits if_splits)
next
  case (12 c w l w')
  then show ?case by (auto simp: mem_list_def dest: sim_objs_frame split: prod.splits sum.splits)
next
  case (13 c w fds w')
  then obtain w1 where w1: "sim_outcome c w = (Inr Answered, w1)"
    and f: "fds = List.map_filter list_entry (map fst (sim_table w1))"
    by (auto simp: mem_list_def split: prod.splits sum.splits if_splits)
  have "fd \<in> set fds \<longleftrightarrow> (\<exists>k \<in> fst ` set (sim_table w). list_entry k = Some fd)" for fd
    using sim_outcome_frame [OF w1] by (auto simp: f set_map_filter_iff)
  then show ?case
    unfolding listed_fds_def sim_objs_def list_entry_def dom_map_of_conv_image_fst [symmetric] by blast
next
  case (14 c k k' w w')
  then show ?case using sim_copy_effect [of c k k' w None w'] by simp
next
  case (15 c k k' w e w')
  then show ?case using sim_copy_effect [of c k k' w "Some e" w'] by auto
next
  case (16 c p w n w')
  then show ?case by (auto simp: mem_names_def dest: sim_objs_frame split: prod.splits sum.splits)
next
  case (17 c p w ks w')
  then obtain w1 where w1: "sim_outcome c w = (Inr Answered, w1)"
    and ks: "ks = filter (\<lambda>k. k \<noteq> [] \<and> HasPrefix k p) (remdups (map fst (sim_table w1)))"
    by (auto simp: mem_names_def split: prod.splits sum.splits if_splits)
  then show ?case
    using sim_outcome_frame [OF w1] by (auto simp: sim_objs_def dom_map_of_conv_image_fst [symmetric])
qed

text \<open>Evaluation on a store that answers everything.\<close>

lemma sim_answered:
  "sim_outcomes w = [] \<Longrightarrow> ctxErr sim_rt c w = None \<Longrightarrow> sim_outcome c w = (Inr Answered, w)"
  by (simp add: sim_outcome_def)

lemmas mem_eval [fmt_simps] =
  mem_get_def mem_exists_def mem_put_new_def mem_names_def mem_list_def sim_write_def sim_copy_def
  sim_objs_def sim_outcome_def sim_rt_def list_entry_def map_filter_simps

end
