(* ===== verification/Lock.thy ===== *)
theory Lock
  imports Mem_Client "HOL-Library.Signed_Division"
begin

text \<open>
  \<^verbatim>\<open>s3/lock.go\<close>: the distributed lock, an object \<^verbatim>\<open>LOCK\<close> that holds \<open>pid-timestamp-random\<close>, with a
  local copy that lets a restarted process recognise its own lock. The lemmas give the effect of
  every operation on the remote object and the local copy, and what the liveness test really
  depends on.
\<close>

section \<open>The process environment\<close>

text \<open>
  \<open>CryptoInt p n\<close> is \<^verbatim>\<open>rand.Int(rand.Reader, n)\<close> of \<^verbatim>\<open>crypto/rand\<close> (\<open>None\<close>: the source failed),
  \<open>Kill pid sig\<close> the system call that \<^verbatim>\<open>Process.Signal\<close> makes for a \<^verbatim>\<open>syscall.Signal\<close>.
\<close>

record 'w platform =
  plat_rt :: "'w runtime"
  Getpid :: int
  CryptoInt :: "int \<Rightarrow> 'w \<Rightarrow> int option \<times> 'w"
  Kill :: "int \<Rightarrow> nat \<Rightarrow> error option"

text \<open>
  \<^verbatim>\<open>Process.Signal(sig)\<close> of package \<^verbatim>\<open>os\<close> on Unix: the signal is an interface value (\<open>None\<close> is nil);
  one that holds no \<^verbatim>\<open>syscall.Signal\<close> is refused before any system call. \<^verbatim>\<open>FindProcess\<close> never fails.
\<close>

definition process_Signal :: "'w platform \<Rightarrow> int \<Rightarrow> nat option \<Rightarrow> error option" where
  "process_Signal p pid sig =
     (if pid = -1 then Some (OsError ''process already released'')
      else if pid = 0 then Some (OsError ''process not initialized'')
      else (case sig of None \<Rightarrow> Some (OsError ''unsupported signal type'') | Some s \<Rightarrow> Kill p pid s))"

definition os_FindProcess :: "int \<Rightarrow> error + int" where
  "os_FindProcess pid = Inr pid"

text \<open>\<^verbatim>\<open>time.Since(t)\<close>: the difference to now, saturated at the bounds of a \<^verbatim>\<open>Duration\<close>.\<close>

definition time_Since :: "int \<Rightarrow> int \<Rightarrow> duration" where
  "time_Since now t = max (- (2 ^ 63)) (min (2 ^ 63 - 1) (now - t))"

section \<open>The lock\<close>

text \<open>
  \<open>leaseErrCh\<close> is the content of the channel of capacity 1, \<open>stopClosed\<close> tells whether \<^verbatim>\<open>stopCh\<close>
  is closed, and \<open>renewals\<close> holds the contexts of the renewal goroutines that were started.
\<close>

record S3Lock =
  lk_opt :: OpenOption
  lockID :: string
  leaseErrCh :: "error list"
  stopClosed :: bool
  renewals :: "go_context list"

record 'w lock_machine = "'w machine" +
  s3Lock :: S3Lock

definition NewS3Lock :: "OpenOption \<Rightarrow> S3Lock" where
  "NewS3Lock opt = \<lparr>lk_opt = ApplyDefaults opt, lockID = '''', leaseErrCh = [], stopClosed = False, renewals = []\<rparr>"

definition randomInt :: "'w platform \<Rightarrow> (('w, 'm) machine_scheme, int) state" where
  "randomInt p = do {
     n \<leftarrow> on_net (CryptoInt p 1000000);
     case n of
       Some n \<Rightarrow> ret n
     | None \<Rightarrow> gets (\<lambda>m. Now (plat_rt p) (net m) smod 1000000) }"

definition isProcessRunning :: "'w platform \<Rightarrow> int \<Rightarrow> bool" where
  "isProcessRunning p pid =
     (case os_FindProcess pid of Inl err \<Rightarrow> False | Inr process \<Rightarrow> process_Signal p process None = None)"

definition format_lock_id :: "int \<Rightarrow> int \<Rightarrow> int \<Rightarrow> string" where
  "format_lock_id pid now rnd = fmt_d pid @ ''-'' @ fmt_d now @ ''-'' @ fmt_d rnd"

definition scan_lock_id :: "string \<Rightarrow> (int \<times> int \<times> int) option" where
  "scan_lock_id s =
     (case scan_d s of None \<Rightarrow> None | Some (pid, r1) \<Rightarrow>
     (case scan_lit ''-'' r1 of None \<Rightarrow> None | Some r2 \<Rightarrow>
     (case scan_d r2 of None \<Rightarrow> None | Some (timestamp, r3) \<Rightarrow>
     (case scan_lit ''-'' r3 of None \<Rightarrow> None | Some r4 \<Rightarrow>
     (case scan_d r4 of None \<Rightarrow> None | Some (rnd, _) \<Rightarrow> Some (pid, timestamp, rnd))))))"

definition isLockStale :: "'w platform \<Rightarrow> OpenOption \<Rightarrow> int \<Rightarrow> string \<Rightarrow> bool" where
  "isLockStale p opt now lockData =
     (case scan_lock_id lockData of
        None \<Rightarrow> True
      | Some (pid, timestamp, rnd) \<Rightarrow>
          if LeaseDuration opt < time_Since now timestamp then True
          else if pid \<noteq> Getpid p \<and> \<not> isProcessRunning p pid then True
          else False)"

definition isLockHolder :: "string \<Rightarrow> string \<Rightarrow> error option \<Rightarrow> (('w, 'm) machine_scheme, bool) state" where
  "isLockHolder remoteData localPath localErr =
     (case localErr of
        Some e \<Rightarrow> ret False
      | None \<Rightarrow> do {
          localData \<leftarrow> on_disk (os_ReadFile localPath);
          case localData of Inl err \<Rightarrow> ret False | Inr d \<Rightarrow> ret (d = remoteData) })"

definition acquireLock ::
  "'w S3ClientAPI \<Rightarrow> go_context \<Rightarrow> string \<Rightarrow> (('w, 'm) lock_machine_scheme, error option) state"
where
  "acquireLock api ctx localPath = do {
     lockData \<leftarrow> gets (\<lambda>m. lockID (s3Lock m));
     e1 \<leftarrow> on_disk (os_MkdirAll (filepath_Dir localPath));
     case e1 of
       Inl err \<Rightarrow> ret (Some (Wrapf ''failed to create local lock directory'' err))
     | Inr _ \<Rightarrow> do {
         e2 \<leftarrow> on_disk (os_WriteFile localPath lockData);
         case e2 of
           Inl err \<Rightarrow> ret (Some (Wrapf ''failed to write local lock file'' err))
         | Inr _ \<Rightarrow> do {
             e3 \<leftarrow> on_net (api_PutBytes api ctx ''LOCK'' lockData);
             case e3 of
               Some err \<Rightarrow> do {
                 on_disk (os_Remove localPath);
                 ret (Some (Wrapf ''failed to put remote lock'' err)) }
             | None \<Rightarrow> ret None } } }"

definition startLeaseRenewal :: "go_context \<Rightarrow> (('w, 'm) lock_machine_scheme, unit) state" where
  "startLeaseRenewal ctx = modify (s3Lock_update (renewals_update (\<lambda>rs. ctx # rs)))"

text \<open>The test of an existing remote lock: \<open>None\<close> when it may be taken over.\<close>

definition check_remote_lock ::
  "'w S3ClientAPI \<Rightarrow> 'w platform \<Rightarrow> go_context \<Rightarrow> string \<Rightarrow> error option
     \<Rightarrow> (('w, 'm) lock_machine_scheme, error option) state"
where
  "check_remote_lock api p ctx localLockPath localErr = do {
     remoteData \<leftarrow> on_net (api_GetBytes api ctx ''LOCK'');
     case remoteData of
       Inl err \<Rightarrow> ret (Some (Wrapf ''failed to read remote lock'' err))
     | Inr d \<Rightarrow> do {
         mine \<leftarrow> isLockHolder d localLockPath localErr;
         if mine then ret None else do {
           stale \<leftarrow> gets (\<lambda>m. isLockStale p (lk_opt (s3Lock m)) (Now (plat_rt p) (net m)) d);
           ret (if \<not> stale then Some ErrLockHeld else None) } } }"

definition lock_path :: "OpenOption \<Rightarrow> string" where
  "lock_path opt = filepath_Join [LocalPath opt, ''LOCK'']"

text \<open>\<open>Lock\<close> from the check of the remote lock on, and the whole of it.\<close>

definition lock_remote ::
  "'w S3ClientAPI \<Rightarrow> 'w platform \<Rightarrow> go_context \<Rightarrow> string \<Rightarrow> error option
     \<Rightarrow> (('w, 'm) lock_machine_scheme, error option) state"
where
  "lock_remote api p ctx localLockPath localErr = do {
     remoteExists \<leftarrow> on_net (api_Exists api ctx ''LOCK'');
     case remoteExists of
       Inl err \<Rightarrow> ret (Some (Wrapf ''failed to check remote lock'' err))
     | Inr remote \<Rightarrow> do {
         refused \<leftarrow> (if remote then check_remote_lock api p ctx localLockPath localErr else ret None);
         case refused of
           Some err \<Rightarrow> ret (Some err)
         | None \<Rightarrow> do {
             failed \<leftarrow> acquireLock api ctx localLockPath;
             case failed of
               Some err \<Rightarrow> ret (Some (Wrapf ''failed to acquire lock'' err))
             | None \<Rightarrow> do { startLeaseRenewal ctx; ret None } } } }"

definition S3Lock_Lock ::
  "'w S3ClientAPI \<Rightarrow> 'w platform \<Rightarrow> go_context \<Rightarrow> (('w, 'm) lock_machine_scheme, error option) state"
where
  "S3Lock_Lock api p ctx = do {
     now \<leftarrow> gets (\<lambda>m. Now (plat_rt p) (net m));
     rnd \<leftarrow> randomInt p;
     modify (s3Lock_update (lockID_update (\<lambda>_. format_lock_id (Getpid p) now rnd)));
     localLockPath \<leftarrow> gets (\<lambda>m. lock_path (lk_opt (s3Lock m)));
     local \<leftarrow> on_disk (os_ReadFile localLockPath);
     let localErr = (case local of Inl e \<Rightarrow> Some e | Inr _ \<Rightarrow> None);
     lock_remote api p ctx localLockPath localErr }"

definition releaseRemoteLock ::
  "'w S3ClientAPI \<Rightarrow> go_context \<Rightarrow> (('w, 'm) lock_machine_scheme, error option) state"
where
  "releaseRemoteLock api ctx = on_net (api_Remove api ctx ''LOCK'')"

definition S3Lock_Unlock ::
  "'w S3ClientAPI \<Rightarrow> go_context \<Rightarrow> (('w, 'm) lock_machine_scheme, error option) state"
where
  "S3Lock_Unlock api ctx = do {
     closed \<leftarrow> gets (\<lambda>m. stopClosed (s3Lock m));
     (if closed then ret () else modify (s3Lock_update (stopClosed_update (\<lambda>_. True))));
     e \<leftarrow> releaseRemoteLock api ctx;
     case e of
       Some err \<Rightarrow> ret (Some (Wrapf ''failed to release remote lock'' err))
     | None \<Rightarrow> do {
         localLockPath \<leftarrow> gets (\<lambda>m. lock_path (lk_opt (s3Lock m)));
         on_disk (os_Remove localLockPath);
         ret None } }"

definition renewLease ::
  "'w S3ClientAPI \<Rightarrow> go_context \<Rightarrow> (('w, 'm) lock_machine_scheme, error option) state"
where
  "renewLease api ctx = do {
     lockData \<leftarrow> gets (\<lambda>m. lockID (s3Lock m));
     on_net (api_PutBytes api ctx ''LOCK'' lockData) }"

text \<open>
  One iteration of the renewal goroutine: \<open>renewal_ready\<close> says which branches of the \<^verbatim>\<open>select\<close> can
  be taken (\<open>due\<close> is the next tick), \<open>renewal_body\<close> what the branch does; the result tells whether
  the goroutine goes on.
\<close>

datatype renewal_branch = TickerFired | StopClosed | CtxDone

definition renewal_ready ::
  "'w platform \<Rightarrow> go_context \<Rightarrow> int \<Rightarrow> ('w, 'm) lock_machine_scheme \<Rightarrow> renewal_branch \<Rightarrow> bool"
where
  "renewal_ready p ctx due m br =
     (case br of
        TickerFired \<Rightarrow> due \<le> Now (plat_rt p) (net m)
      | StopClosed \<Rightarrow> stopClosed (s3Lock m)
      | CtxDone \<Rightarrow> ctxErr (plat_rt p) ctx (net m) \<noteq> None)"

definition renewal_body ::
  "'w S3ClientAPI \<Rightarrow> go_context \<Rightarrow> renewal_branch \<Rightarrow> (('w, 'm) lock_machine_scheme, bool) state"
where
  "renewal_body api ctx br =
     (case br of
        TickerFired \<Rightarrow> do {
          e \<leftarrow> renewLease api ctx;
          case e of
            None \<Rightarrow> ret True
          | Some err \<Rightarrow> do {
              modify (s3Lock_update (leaseErrCh_update (\<lambda>c.
                if c = [] then [Wrapf ''lease renewal failed'' err] else c)));
              ret False } }
      | StopClosed \<Rightarrow> ret False
      | CtxDone \<Rightarrow> ret False)"

section \<open>Lock identifiers\<close>

lemma fmt_d_nonneg_hd: "0 \<le> n \<Longrightarrow> fmt_d n = digits10 (nat n)"
  by (simp add: fmt_d_def)

lemma scan_format_lock_id:
  assumes "0 \<le> pid" "pid < 2 ^ 63" "0 \<le> t" "t < 2 ^ 63" "0 \<le> r" "r < 2 ^ 63"
  shows "scan_lock_id (format_lock_id pid t r) = Some (pid, t, r)"
proof -
  have dash: "\<not> is_digit (hd (''-'' @ s))" for s by (simp add: is_digit_def)
  have 1: "scan_d (fmt_d pid @ ''-'' @ fmt_d t @ ''-'' @ fmt_d r) = Some (pid, ''-'' @ fmt_d t @ ''-'' @ fmt_d r)"
    using assms(1,2) dash by (intro scan_d_fmt_d) blast+
  have 2: "scan_d (fmt_d t @ ''-'' @ fmt_d r) = Some (t, ''-'' @ fmt_d r)"
    using assms(3,4) dash by (intro scan_d_fmt_d) blast+
  have 3: "scan_d (fmt_d r) = Some (r, [])"
    using scan_d_fmt_d [OF assms(5,6), of "[]"] by simp
  show ?thesis
    unfolding scan_lock_id_def format_lock_id_def 1
    by (simp only: option.case prod.case scan_lit_append 2 3)
qed

lemma isProcessRunning_False [simp]: "isProcessRunning p pid = False"
  by (simp add: isProcessRunning_def os_FindProcess_def process_Signal_def)

lemma isLockStale_iff:
  "scan_lock_id d = Some (pid, t, r) \<Longrightarrow>
     isLockStale p opt now d \<longleftrightarrow> LeaseDuration opt < time_Since now t \<or> pid \<noteq> Getpid p"
  by (simp add: isLockStale_def)

section \<open>Effects\<close>

text \<open>
  The world in which \<open>Lock\<close>, called in \<open>w\<close>, asks the clock for the age of the lock it found: the random number
  has been drawn, and the object has been looked for and read. \<open>stale_for_Lock\<close> is the test at that time.
\<close>

definition check_world :: "'w S3ClientAPI \<Rightarrow> 'w platform \<Rightarrow> go_context \<Rightarrow> 'w \<Rightarrow> 'w" where
  "check_world api p c w =
     snd (api_GetBytes api c ''LOCK'' (snd (api_Exists api c ''LOCK'' (snd (CryptoInt p 1000000 w)))))"

definition stale_for_Lock :: "'w S3ClientAPI \<Rightarrow> 'w platform \<Rightarrow> go_context \<Rightarrow> OpenOption \<Rightarrow> 'w \<Rightarrow> string \<Rightarrow> bool" where
  "stale_for_Lock api p c opt w d = isLockStale p opt (Now (plat_rt p) (check_world api p c w)) d"

text \<open>
  What \<open>check_remote_lock\<close> lets through: our own lock, or one the liveness test calls stale; and what it refuses.
\<close>

definition takeable ::
  "(string \<Rightarrow> bool) \<Rightarrow> OpenOption \<Rightarrow> (string \<Rightarrow> bytes option) \<Rightarrow> (string \<Rightarrow> bytes option) \<Rightarrow> bool"
where
  "takeable stale opt objs files =
     (case objs ''LOCK'' of None \<Rightarrow> True | Some d \<Rightarrow> files (lock_path opt) = Some d \<or> stale d)"

definition live_lock :: "(string \<Rightarrow> bool) \<Rightarrow> (string \<Rightarrow> bytes option) \<Rightarrow> bool" where
  "live_lock stale objs = (\<exists>d. objs ''LOCK'' = Some d \<and> \<not> stale d)"

lemma wp_isLockHolder:
  assumes "\<And>b h. data_at h = data_at (disk m) \<Longrightarrow> (b \<longrightarrow> data_at (disk m) q = Some d) \<Longrightarrow>
      (\<not> b \<longrightarrow> le = None \<longrightarrow> True) \<Longrightarrow> Q b (m\<lparr>disk := h\<rparr>)"
  shows "wp (isLockHolder d q le) Q m"
proof (cases le)
  case None
  show ?thesis
    by (simp add: isLockHolder_def None wp_simps) (rule wp_ReadFile; simp add: wp_simps assms)
next
  case (Some e)
  then show ?thesis using assms [of "disk m" False] by (simp add: isLockHolder_def wp_simps)
qed

text \<open>
  \<open>acquireLock\<close>: nil means that both copies hold our identifier; otherwise the remote object is as
  it was or, if the put was carried out without an answer, ours.
\<close>

definition lock_written ::
  "('w \<Rightarrow> string \<Rightarrow> bytes option) \<Rightarrow> string \<Rightarrow> ('w, 'm) lock_machine_scheme \<Rightarrow> error option
     \<Rightarrow> ('w, 'm) lock_machine_scheme \<Rightarrow> bool"
where
  "lock_written view q m r m' =
     ((\<forall>k. k \<noteq> ''LOCK'' \<longrightarrow> view (net m') k = view (net m) k)
      \<and> (\<forall>x. x \<noteq> q \<longrightarrow> data_at (disk m') x = data_at (disk m) x)
      \<and> (case r of
           None \<Rightarrow> view (net m') ''LOCK'' = Some (lockID (s3Lock m')) \<and> data_at (disk m') q = Some (lockID (s3Lock m'))
         | Some e \<Rightarrow> view (net m') = view (net m) \<or> view (net m') ''LOCK'' = Some (lockID (s3Lock m'))))"

definition locked ::
  "'w S3ClientAPI \<Rightarrow> ('w \<Rightarrow> string \<Rightarrow> bytes option) \<Rightarrow> 'w platform \<Rightarrow> go_context \<Rightarrow> ('w, 'm) lock_machine_scheme
     \<Rightarrow> error option \<Rightarrow> ('w, 'm) lock_machine_scheme \<Rightarrow> bool"
where
  "locked api view p c m r m' =
     (lock_written view (lock_path (lk_opt (s3Lock m))) m r m'
      \<and> (\<exists>t n. lockID (s3Lock m') = format_lock_id (Getpid p) t n)
      \<and> (case r of
           None \<Rightarrow> takeable (stale_for_Lock api p c (lk_opt (s3Lock m)) (net m)) (lk_opt (s3Lock m)) (view (net m)) (data_at (disk m))
             \<and> s3Lock m' = (s3Lock m)\<lparr>lockID := lockID (s3Lock m'), renewals := c # renewals (s3Lock m)\<rparr>
         | Some e \<Rightarrow> s3Lock m' = (s3Lock m)\<lparr>lockID := lockID (s3Lock m')\<rparr>
             \<and> (e = ErrLockHeld \<longrightarrow> view (net m') = view (net m) \<and> data_at (disk m') = data_at (disk m)
                  \<and> live_lock (stale_for_Lock api p c (lk_opt (s3Lock m)) (net m)) (view (net m)))))"

context s3_api
begin

lemma wp_check_remote_lock:
  assumes "view (net m) ''LOCK'' \<noteq> None" and "q = lock_path (lk_opt (s3Lock m))"
    and Q: "\<And>r m'. view (net m') = view (net m) \<Longrightarrow> data_at (disk m') = data_at (disk m) \<Longrightarrow>
      s3Lock m' = s3Lock m \<Longrightarrow>
      (r = None \<Longrightarrow> takeable (\<lambda>d. isLockStale p (lk_opt (s3Lock m)) (Now (plat_rt p) (snd (api_GetBytes api c ''LOCK'' (net m)))) d) (lk_opt (s3Lock m)) (view (net m)) (data_at (disk m))) \<Longrightarrow>
      (r = Some ErrLockHeld \<Longrightarrow> live_lock (\<lambda>d. isLockStale p (lk_opt (s3Lock m)) (Now (plat_rt p) (snd (api_GetBytes api c ''LOCK'' (net m)))) d) (view (net m))) \<Longrightarrow> Q r m'"
  shows "wp (check_remote_lock api p c q le) Q m"
  unfolding check_remote_lock_def wp_simps
proof (rule wp_on_net_exact, rule wp_get, goal_cases)
  case (1 d w')
  have "wp (isLockHolder d q le) (\<lambda>r s. if r then Q None s
      else Q (if \<not> isLockStale p (lk_opt (s3Lock s)) (Now (plat_rt p) (net s)) d then Some ErrLockHeld else None) s)
      (m\<lparr>net := w'\<rparr>)" if "api_GetBytes api c ''LOCK'' (net m) = (Inr d, w')"
    by (rule wp_isLockHolder) (auto simp: wp_simps 1 that takeable_def live_lock_def assms(2) intro!: Q)
  then show ?case by (simp add: wp_simps)
next
  case (2 e w')
  then show ?case by (auto simp: wp_simps intro!: Q)
qed

lemma acquireLock_effect:
  "wp (acquireLock api c q) (\<lambda>r m'. lock_written view q m r m' \<and> s3Lock m' = s3Lock m) m"
  unfolding acquireLock_def
  by (auto simp: wp_simps lock_written_def intro!: wp_MkdirAll wp_WriteFile wp_put wp_Remove
      split: sum.split option.split)

end

text \<open>The process and the service: drawing a random number is no change of the objects.\<close>

locale lock_service = s3_api api view
  for api :: "'w S3ClientAPI" and view :: "'w \<Rightarrow> string \<Rightarrow> bytes option" +
  fixes p :: "'w platform"
  assumes quiet_crypto: "CryptoInt p n w = (r, w') \<Longrightarrow> view w' = view w"
begin

lemma wp_randomInt:
  assumes "\<And>r w'. view w' = view (net m) \<Longrightarrow> w' = snd (CryptoInt p 1000000 (net m)) \<Longrightarrow> Q r (m\<lparr>net := w'\<rparr>)"
  shows "wp (randomInt p) Q m"
  unfolding randomInt_def
  by (auto simp: wp_simps wp_on_net split: prod.split option.split dest: quiet_crypto intro!: assms)

lemma lock_remote_effect:
  assumes v: "view (net s) = view (net m)" and d: "data_at (disk s) = data_at (disk m)"
    and l: "s3Lock s = (s3Lock m)\<lparr>lockID := format_lock_id (Getpid p) t n\<rparr>"
    and q: "q = lock_path (lk_opt (s3Lock m))" and x: "net s = snd (CryptoInt p 1000000 (net m))"
  shows "wp (lock_remote api p c q le) (locked api view p c m) s"
proof -
  let ?take = "do {
      failed \<leftarrow> acquireLock api c q;
      case failed of
        Some err \<Rightarrow> ret (Some (Wrapf ''failed to acquire lock'' err))
      | None \<Rightarrow> do { startLeaseRenewal c; ret None } }"
  have take: "wp ?take (locked api view p c m) s'"
    if "view (net s') = view (net m)" "data_at (disk s') = data_at (disk m)" "s3Lock s' = s3Lock s"
      "takeable (stale_for_Lock api p c (lk_opt (s3Lock m)) (net m)) (lk_opt (s3Lock m)) (view (net m)) (data_at (disk m))" for s'
    unfolding wp_bind [of "acquireLock api c q"] using that
    by (intro wp_weaken [OF acquireLock_effect])
      (auto simp: wp_simps locked_def lock_written_def startLeaseRenewal_def l q split: option.split)
  have fail: "locked api view p c m (Some e) s'"
    if "view (net s') = view (net m)" "data_at (disk s') = data_at (disk m)" "s3Lock s' = s3Lock s"
      "e = ErrLockHeld \<longrightarrow> live_lock (stale_for_Lock api p c (lk_opt (s3Lock m)) (net m)) (view (net m))" for s' e
    using that l by (auto simp: locked_def lock_written_def)
  show ?thesis
    unfolding lock_remote_def wp_bind [of "on_net (api_Exists api c ''LOCK'')"]
  proof (rule wp_on_net_exact, rule wp_exists, goal_cases)
    case (1 w')
    note v1 = 1
    show ?case
    proof (cases "view (net s) ''LOCK''")
      case None
      then show ?thesis using v1 v d l take [of "s\<lparr>net := w'\<rparr>"] by (simp add: takeable_def)
    next
      case (Some x)
      have "wp (do {
          refused \<leftarrow> check_remote_lock api p c q le;
          case refused of Some err \<Rightarrow> ret (Some err) | None \<Rightarrow> ?take }) (locked api view p c m) (s\<lparr>net := w'\<rparr>)"
        if e: "api_Exists api c ''LOCK'' (net s) = (Inr True, w')"
        unfolding wp_bind [of "check_remote_lock api p c q le"]
      proof (rule wp_check_remote_lock, goal_cases)
        case (3 r m')
        have "stale_for_Lock api p c opt (net m)
            = isLockStale p opt (Now (plat_rt p) (snd (api_GetBytes api c ''LOCK'' w')))" for opt
          using e x by (simp add: fun_eq_iff stale_for_Lock_def check_world_def)
        with 3 show ?case
          using v1 v d l Some take [of m'] fail [of m'] by (cases r) (simp_all add: wp_return)
      qed (use v1 v l q Some in simp_all)
      then show ?thesis using Some by simp
    qed
  next
    case (2 e w')
    then show ?case using v d l fail [of "s\<lparr>net := w'\<rparr>"] by (simp add: wp_return)
  qed
qed

lemma Lock_effect: "wp (S3Lock_Lock api p c) (locked api view p c m) m"
  unfolding S3Lock_Lock_def
  by (auto simp: wp_simps intro!: wp_randomInt wp_ReadFile lock_remote_effect)

lemma renewLease_effect:
  "wp (renewLease api c) (\<lambda>r m'. s3Lock m' = s3Lock m \<and> disk m' = disk m
     \<and> (\<forall>k. k \<noteq> ''LOCK'' \<longrightarrow> view (net m') k = view (net m) k)
     \<and> (r = None \<longrightarrow> view (net m') ''LOCK'' = Some (lockID (s3Lock m)))
     \<and> (view (net m') = view (net m) \<or> view (net m') ''LOCK'' = Some (lockID (s3Lock m)))) m"
  unfolding renewLease_def by (auto simp: wp_simps intro!: wp_put)

lemma Unlock_effect:
  "wp (S3Lock_Unlock api c) (\<lambda>r m'. s3Lock m' = (s3Lock m)\<lparr>stopClosed := True\<rparr>
     \<and> (\<forall>k. k \<noteq> ''LOCK'' \<longrightarrow> view (net m') k = view (net m) k)
     \<and> (\<forall>x. x \<noteq> lock_path (lk_opt (s3Lock m)) \<longrightarrow> data_at (disk m') x = data_at (disk m) x)
     \<and> (view (net m') = view (net m) \<or> view (net m') ''LOCK'' = None)
     \<and> (r = None \<longrightarrow> view (net m') ''LOCK'' = None)
     \<and> (r \<noteq> None \<longrightarrow> data_at (disk m') = data_at (disk m))) m"
proof -
  have "(s3Lock m)\<lparr>stopClosed := True\<rparr> = s3Lock m" if "stopClosed (s3Lock m)"
    using that by (cases "s3Lock m") simp
  then show ?thesis
    unfolding S3Lock_Unlock_def releaseRemoteLock_def
    by (auto simp: wp_simps intro!: wp_remove wp_Remove)
qed

end

section \<open>Two processes on the simulated store\<close>

definition sim_platform :: "int \<Rightarrow> sim_world platform" where
  "sim_platform pid = \<lparr>plat_rt = sim_rt, Getpid = pid, CryptoInt = (\<lambda>n w. (Some (sim_clock w mod n), w)),
     Kill = (\<lambda>_ _. None)\<rparr>"

interpretation sim_lock: lock_service "s3_client sim_rt sim_sdk (ApplyDefaults opt)"
  "client_view sim_objs (ApplyDefaults opt)" "sim_platform pid" for opt pid
  by (intro lock_service.intro lock_service_axioms.intro s3_service.provides sim.s3_service_axioms)
    (simp add: sim_platform_def)

section \<open>Properties\<close>

lemmas Lock_run = lock_service.Lock_effect [THEN wp_run]
lemmas Unlock_run = lock_service.Unlock_effect [THEN wp_run]
lemmas renewLease_run = lock_service.renewLease_effect [THEN wp_run]

text \<open>
  C34: when \<open>Lock\<close> returns nil, the remote object and the local copy both hold the identifier of
  this process, no other object or file was touched, and the lock was free before, or it was this
  process's own (the local copy agreed with it), or the liveness test called it stale at the time at which \<open>Lock\<close>
  asked the clock (after the draw of the random number and the two requests that found and read the lock). A lock
  that is neither is never taken over.
\<close>

theorem Lock_success:
  assumes "lock_service api view p" and "run_state (S3Lock_Lock api p c) m = (None, m')"
  shows "view (net m') ''LOCK'' = Some (lockID (s3Lock m'))
    \<and> data_at (disk m') (lock_path (lk_opt (s3Lock m))) = Some (lockID (s3Lock m'))
    \<and> (\<exists>t n. lockID (s3Lock m') = format_lock_id (Getpid p) t n)
    \<and> (\<forall>k. k \<noteq> ''LOCK'' \<longrightarrow> view (net m') k = view (net m) k)
    \<and> (\<forall>x. x \<noteq> lock_path (lk_opt (s3Lock m)) \<longrightarrow> data_at (disk m') x = data_at (disk m) x)
    \<and> renewals (s3Lock m') = c # renewals (s3Lock m)
    \<and> (case view (net m) ''LOCK'' of
         None \<Rightarrow> True
       | Some d \<Rightarrow> data_at (disk m) (lock_path (lk_opt (s3Lock m))) = Some d
           \<or> stale_for_Lock api p c (lk_opt (s3Lock m)) (net m) d)"
proof -
  have l: "locked api view p c m None m'" using Lock_run [OF assms] .
  then have "s3Lock m' = (s3Lock m)\<lparr>lockID := lockID (s3Lock m'), renewals := c # renewals (s3Lock m)\<rparr>"
    by (simp add: locked_def)
  then have "renewals (s3Lock m') = c # renewals (s3Lock m)" by (metis S3Lock.select_convs(5) S3Lock.surjective S3Lock.update_convs(5))
  with l show ?thesis by (auto simp: locked_def lock_written_def takeable_def split: option.splits)
qed

text \<open>A machine of process 7 on an empty store, and the same machine once the lock is taken.\<close>

definition demo_disk :: host where
  "demo_disk = \<lparr>fs = [(''/c'', Dir), (''/c/db'', Dir)], faults = [], rands = [], disk_trace = []\<rparr>"

definition demo_machine :: "(string \<times> bytes) list \<Rightarrow> sim_world lock_machine" where
  "demo_machine t = \<lparr>net = \<lparr>sim_table = t, sim_outcomes = [], sim_clock = 5, sim_canceled = False\<rparr>,
     disk = demo_disk, s3Lock = NewS3Lock demo_option\<rparr>"

lemma mem_service: "lock_service mem_api sim_objs (sim_platform pid)"
  by (intro lock_service.intro lock_service_axioms.intro mem.s3_api_axioms) (simp add: sim_platform_def)

interpretation mem_lock: lock_service mem_api sim_objs "sim_platform pid" for pid
  by (rule mem_service)

lemmas lock_exec =
  S3Lock_Lock_def [THEN wp_unfold] lock_remote_def [THEN wp_unfold] check_remote_lock_def [THEN wp_unfold]
  isLockHolder_def [THEN wp_unfold] acquireLock_def [THEN wp_unfold] startLeaseRenewal_def [THEN wp_unfold]
  randomInt_def [THEN wp_unfold] S3Lock_Unlock_def [THEN wp_unfold] releaseRemoteLock_def [THEN wp_unfold]
  renewLease_def [THEN wp_unfold] renewal_body_def [THEN wp_unfold]

lemma demo_lock_path: "lock_path demo_option = ''/c/db/LOCK''"
  by (simp add: lock_path_def LocalPath_def demo_option_def fmt_simps)

theorem Lock_success_witness:
  "\<exists>m'. run_state (S3Lock_Lock mem_api (sim_platform 7) Background) (demo_machine []) = (None, m')
     \<and> sim_objs (net m') ''LOCK'' = Some (lockID (s3Lock m'))"
proof -
  have "wp (S3Lock_Lock mem_api (sim_platform 7) Background) (\<lambda>r m'. r = None) (demo_machine [])"
    by (simp add: lock_exec demo_machine_def demo_disk_def NewS3Lock_def demo_lock_path sim_platform_def
        wp_exec mem_eval host_eval path_eval cong: wp_state_cong)
  then obtain m' where r: "run_state (S3Lock_Lock mem_api (sim_platform 7) Background) (demo_machine []) = (None, m')"
    by (rule wp_obtain)
  then show ?thesis using Lock_success [OF mem_service r] by blast
qed

text \<open>
  C35: a failing \<open>Lock\<close> starts no renewal and writes no object but \<^verbatim>\<open>LOCK\<close>, which is left as it
  was unless the put was carried out without an answer, and then holds this process's identifier.
  When it reports \<open>ErrLockHeld\<close>, nothing was written at all, and there was a lock that
  the liveness test does not call stale at the time of the test.
\<close>

theorem Lock_failure:
  assumes "lock_service api view p" and "run_state (S3Lock_Lock api p c) m = (Some e, m')"
  shows "renewals (s3Lock m') = renewals (s3Lock m)
    \<and> (\<forall>k. k \<noteq> ''LOCK'' \<longrightarrow> view (net m') k = view (net m) k)
    \<and> view (net m') ''LOCK'' \<in> {view (net m) ''LOCK'', Some (lockID (s3Lock m'))}
    \<and> (e = ErrLockHeld \<longrightarrow> view (net m') = view (net m) \<and> data_at (disk m') = data_at (disk m)
        \<and> (\<exists>d. view (net m) ''LOCK'' = Some d \<and> \<not> stale_for_Lock api p c (lk_opt (s3Lock m)) (net m) d))"
proof -
  have l: "locked api view p c m (Some e) m'" using Lock_run [OF assms] .
  then have "s3Lock m' = (s3Lock m)\<lparr>lockID := lockID (s3Lock m')\<rparr>" by (simp add: locked_def)
  then have "renewals (s3Lock m') = renewals (s3Lock m)" by (metis S3Lock.select_convs(5) S3Lock.surjective S3Lock.update_convs(2))
  with l show ?thesis by (auto simp: locked_def lock_written_def live_lock_def)
qed

text \<open>Process 7 meets a fresh lock of process 7 that is not its own copy.\<close>

definition other_lock :: "sim_world lock_machine" where
  "other_lock = demo_machine [(''LOCK'', ''7-5-1'')]"

lemma other_lock_live: "isLockStale (sim_platform 7) demo_option 5 ''7-5-1'' = False"
  by (simp add: isLockStale_def scan_lock_id_def time_Since_def sim_platform_def demo_option_def fmt_simps
      is_digit_def dec_value_def)

theorem Lock_failure_witness:
  "\<exists>m'. run_state (S3Lock_Lock mem_api (sim_platform 7) Background) other_lock = (Some ErrLockHeld, m')
     \<and> sim_objs (net m') = sim_objs (net other_lock)"
proof -
  have "wp (S3Lock_Lock mem_api (sim_platform 7) Background) (\<lambda>r m'. r = Some ErrLockHeld) other_lock"
    using other_lock_live
    by (simp add: other_lock_def lock_exec demo_machine_def demo_disk_def NewS3Lock_def demo_lock_path
        sim_platform_def wp_exec mem_eval host_eval path_eval cong: wp_state_cong)
  then obtain m' where r: "run_state (S3Lock_Lock mem_api (sim_platform 7) Background) other_lock = (Some ErrLockHeld, m')"
    by (rule wp_obtain)
  then show ?thesis using Lock_failure [OF mem_service r] by blast
qed

text \<open>
  C36: the liveness test consults the process table in a way that never reports a running process
  (a nil signal is refused before it reaches the kernel), so every lock that carries another
  process's number counts as stale, however fresh its timestamp: \<open>Lock\<close> never reports
  \<open>ErrLockHeld\<close> for it.
\<close>

theorem foreign_lock_is_never_held:
  assumes "lock_service api view p" and "view (net m) ''LOCK'' = Some d"
    and "scan_lock_id d = Some (pid, t, n)" and "pid \<noteq> Getpid p"
  shows "isLockStale p opt now d \<and> fst (run_state (S3Lock_Lock api p c) m) \<noteq> Some ErrLockHeld"
proof -
  have stale: "isLockStale p opt now d" for opt now
    using assms(3,4) by (simp add: isLockStale_iff)
  obtain r m' where r: "run_state (S3Lock_Lock api p c) m = (r, m')" by force
  have "r \<noteq> Some ErrLockHeld"
    using Lock_run [OF assms(1) r] stale assms(2) by (auto simp: locked_def live_lock_def stale_for_Lock_def)
  with stale r show ?thesis by simp
qed

theorem foreign_lock_is_never_held_witness:
  "fst (run_state (S3Lock_Lock mem_api (sim_platform 8) Background) other_lock) \<noteq> Some ErrLockHeld"
proof -
  have "sim_objs (net other_lock) ''LOCK'' = Some ''7-5-1''"
    by (simp add: other_lock_def demo_machine_def sim_objs_def)
  moreover have "scan_lock_id ''7-5-1'' = Some (7, 5, 1)"
    by (simp add: scan_lock_id_def fmt_simps is_digit_def dec_value_def)
  ultimately show ?thesis
    using foreign_lock_is_never_held [OF mem_service, of other_lock "''7-5-1''" 7 5 1 8]
    by (simp add: sim_platform_def)
qed

text \<open>
  So the lock does not exclude: two processes with different process ids, each on its own machine, lock the
  same bucket one after the other, both calls return nil, and both renew.
\<close>

lemma two_processes_hold_the_lock:
  "\<exists>a b. run_state (S3Lock_Lock mem_api (sim_platform 7) Background) (demo_machine []) = (None, a)
     \<and> run_state (S3Lock_Lock mem_api (sim_platform 8) Background) ((demo_machine [])\<lparr>net := net a\<rparr>) = (None, b)
     \<and> renewals (s3Lock a) = [Background] \<and> renewals (s3Lock b) = [Background]"
proof -
  have "wp (S3Lock_Lock mem_api (sim_platform 7) Background) (\<lambda>r a. r = None \<and> renewals (s3Lock a) = [Background]
     \<and> wp (S3Lock_Lock mem_api (sim_platform 8) Background) (\<lambda>r b. r = None \<and> renewals (s3Lock b) = [Background])
         ((demo_machine [])\<lparr>net := net a\<rparr>)) (demo_machine [])"
    by (simp add: lock_exec demo_machine_def demo_disk_def NewS3Lock_def demo_lock_path sim_platform_def
        wp_exec mem_eval host_eval path_eval fmt_eval isLockStale_iff scan_format_lock_id cong: wp_state_cong)
  then show ?thesis by (auto simp: wp_def split: prod.splits)
qed

text \<open>
  C37: renewing the lease writes the identifier that \<open>Lock\<close> made, with the time of \<open>Lock\<close> in it: the
  lease ends \<open>LeaseDuration\<close> after the lock was taken, for every process and however often and
  successfully it is renewed.
\<close>

theorem renewal_does_not_extend_the_lease:
  assumes "lock_service api view p" and "run_state (renewLease api c) m = (None, m')"
    and "lockID (s3Lock m) = format_lock_id pid t n"
    and "0 \<le> pid" "pid < 2 ^ 63" "0 \<le> t" "t < 2 ^ 63" "0 \<le> n" "n < 2 ^ 63"
  shows "view (net m') ''LOCK'' = Some (format_lock_id pid t n)
    \<and> (\<forall>now. LeaseDuration opt < now - t \<longrightarrow> now - t < 2 ^ 63 \<longrightarrow> isLockStale q opt now (format_lock_id pid t n))"
proof -
  have "view (net m') ''LOCK'' = Some (format_lock_id pid t n)"
    using renewLease_run [OF assms(1,2)] assms(3) by simp
  moreover have "isLockStale q opt now (format_lock_id pid t n)"
    if "LeaseDuration opt < now - t" "now - t < 2 ^ 63" for now
    using that scan_format_lock_id [OF assms(4-9)] by (auto simp: isLockStale_iff time_Since_def)
  ultimately show ?thesis by blast
qed

definition holder :: "sim_world lock_machine" where
  "holder = (demo_machine [(''LOCK'', format_lock_id 7 5 1)])
     \<lparr>s3Lock := (NewS3Lock demo_option)\<lparr>lockID := format_lock_id 7 5 1, renewals := [Background]\<rparr>\<rparr>"

theorem renewal_does_not_extend_the_lease_witness:
  "\<exists>m'. run_state (renewLease mem_api Background) holder = (None, m')
     \<and> sim_objs (net m') ''LOCK'' = Some (format_lock_id 7 5 1)
     \<and> isLockStale (sim_platform 7) demo_option 66 (format_lock_id 7 5 1)"
proof -
  have "wp (renewLease mem_api Background) (\<lambda>r m'. r = None) holder"
    by (simp add: holder_def demo_machine_def lock_exec wp_exec mem_eval cong: wp_state_cong)
  then obtain m' where r: "run_state (renewLease mem_api Background) holder = (None, m')" by (rule wp_obtain)
  have "lockID (s3Lock holder) = format_lock_id 7 5 1" by (simp add: holder_def)
  then show ?thesis
    using renewal_does_not_extend_the_lease
      [OF mem_service r, where opt = demo_option and q = "sim_platform 7" and pid = 7 and t = 5 and n = 1] r
    by (simp add: demo_option_def)
qed

text \<open>
  \<open>Unlock\<close> ends with the stop channel closed, whatever the service answers, so that calling it
  again is safe; when it returns nil the remote object is gone, and when it fails the local copy is
  kept, so that the next start recognises the lock as its own. It never looks at what the object
  contains: the lock of another process is deleted as well.
\<close>

theorem Unlock_effect_on_lock:
  assumes "lock_service api view p" and "run_state (S3Lock_Unlock api c) m = (r, m')"
  shows "stopClosed (s3Lock m')
    \<and> (r = None \<longrightarrow> view (net m') ''LOCK'' = None)
    \<and> (r \<noteq> None \<longrightarrow> data_at (disk m') = data_at (disk m))
    \<and> (\<forall>k. k \<noteq> ''LOCK'' \<longrightarrow> view (net m') k = view (net m) k)
    \<and> view (net m') ''LOCK'' \<in> {view (net m) ''LOCK'', None}
    \<and> (\<forall>x. x \<noteq> lock_path (lk_opt (s3Lock m)) \<longrightarrow> data_at (disk m') x = data_at (disk m) x)"
  using Unlock_run [OF assms] by auto

text \<open>Process 8 releases the lock that process 7 holds.\<close>

theorem Unlock_effect_on_lock_witness:
  "\<exists>m'. run_state (S3Lock_Unlock mem_api Background) other_lock = (None, m') \<and> sim_objs (net m') ''LOCK'' = None"
proof -
  have "wp (S3Lock_Unlock mem_api Background) (\<lambda>r m'. r = None) other_lock"
    by (simp add: other_lock_def demo_machine_def demo_disk_def NewS3Lock_def lock_exec wp_exec mem_eval
        demo_lock_path host_eval split: prod.split cong: wp_state_cong)
  then obtain m' where r: "run_state (S3Lock_Unlock mem_api Background) other_lock = (None, m')" by (rule wp_obtain)
  then show ?thesis using Unlock_effect_on_lock [OF mem_service r] by blast
qed

text \<open>
  the stop channel is never opened again. After \<open>Unlock\<close>, a second \<open>Lock\<close> of the same object
  starts a renewal goroutine that can end at once (the stop branch is ready, the ticker is not), and
  that writes nothing: the lock is held without being renewed.
\<close>

theorem relock_is_not_renewed:
  assumes "lock_service api view p" and "stopClosed (s3Lock m)"
    and "run_state (S3Lock_Lock api p c) m = (None, m')" and "0 < LeaseRenewal opt"
  shows "renewal_ready p c (Now (plat_rt p) (net m') + LeaseRenewal opt) m' StopClosed
    \<and> \<not> renewal_ready p c (Now (plat_rt p) (net m') + LeaseRenewal opt) m' TickerFired
    \<and> run_state (renewal_body api c StopClosed) m' = (False, m')"
proof -
  have "s3Lock m' = (s3Lock m)\<lparr>lockID := lockID (s3Lock m'), renewals := c # renewals (s3Lock m)\<rparr>"
    using Lock_run [OF assms(1,3)] by (simp add: locked_def)
  then have "stopClosed (s3Lock m')"
    using assms(2) by (metis S3Lock.select_convs(4) S3Lock.surjective S3Lock.update_convs(2) S3Lock.update_convs(5))
  then show ?thesis using assms(4) by (simp add: renewal_ready_def renewal_body_def)
qed

theorem relock_is_not_renewed_witness:
  "\<exists>m'. run_state (S3Lock_Lock mem_api (sim_platform 7) Background)
       (s3Lock_update (stopClosed_update (\<lambda>_. True)) (demo_machine [])) = (None, m')
     \<and> renewal_ready (sim_platform 7) Background (Now sim_rt (net m') + 20) m' StopClosed"
proof -
  let ?m = "s3Lock_update (stopClosed_update (\<lambda>_. True)) (demo_machine [])"
  have "wp (S3Lock_Lock mem_api (sim_platform 7) Background) (\<lambda>r m'. r = None) ?m"
    by (simp add: lock_exec demo_machine_def demo_disk_def NewS3Lock_def demo_lock_path sim_platform_def
        wp_exec mem_eval host_eval path_eval cong: wp_state_cong)
  then obtain m' where r: "run_state (S3Lock_Lock mem_api (sim_platform 7) Background) ?m = (None, m')"
    by (rule wp_obtain)
  have "stopClosed (s3Lock ?m)" by simp
  from relock_is_not_renewed [OF mem_service this r, where opt = demo_option] r show ?thesis
    by (simp add: demo_option_def sim_platform_def)
qed

end
