(* ===== verification/LRU_Cache.thy ===== *)
theory LRU_Cache
  imports File_Names Go_Errors
begin

text \<open>
  The in-memory cache. The program uses \<^verbatim>\<open>lru.Cache\<close> of \<^verbatim>\<open>hashicorp/golang-lru\<close>, which is not
  part of the repository: its operations are a record \<open>lru_ops\<close>, and the locale \<open>lru_cache\<close> states
  the documented laws over the abstract content of a cache. A list kept in order of use is an
  instance.
\<close>

section \<open>Cached files\<close>

record memFile =
  mf_fd :: file_desc
  mf_data :: bytes

text \<open>\<open>cache_New\<close> is \<^verbatim>\<open>lru.New\<close>, which refuses a size that is not positive.\<close>

record 'c lru_ops =
  cache_New :: "int \<Rightarrow> error + 'c"
  cache_Get :: "string \<Rightarrow> 'c \<Rightarrow> memFile option \<times> 'c"
  cache_Add :: "string \<Rightarrow> memFile \<Rightarrow> 'c \<Rightarrow> 'c"
  cache_Remove :: "string \<Rightarrow> 'c \<Rightarrow> 'c"
  cache_Purge :: "'c \<Rightarrow> 'c"

section \<open>The contract\<close>

text \<open>
  An added file is found, a lookup changes no content, and adding may evict other files but never
  alters them.
\<close>

locale lru_cache =
  fixes ops :: "'c lru_ops" and content :: "'c \<Rightarrow> string \<Rightarrow> memFile option"
  assumes new_content: "cache_New ops n = Inr c \<Longrightarrow> content c k = None"
    and new_ok: "0 < n \<Longrightarrow> \<exists>c. cache_New ops n = Inr c"
    and get_result: "cache_Get ops k c = (r, c') \<Longrightarrow> r = content c k"
    and get_content: "cache_Get ops k c = (r, c') \<Longrightarrow> content c' = content c"
    and add_same: "content (cache_Add ops k f c) k = Some f"
    and add_other: "k' \<noteq> k \<Longrightarrow> content (cache_Add ops k f c) k' \<in> {content c k', None}"
    and remove_content: "content (cache_Remove ops k c) = (content c)(k := None)"
    and purge_content: "content (cache_Purge ops c) k = None"
begin

lemma add_cases: "content (cache_Add ops k f c) k' = Some g \<Longrightarrow> k' = k \<and> g = f \<or> k' \<noteq> k \<and> content c k' = Some g"
  using add_same add_other [of k' k f c] by (cases "k' = k") auto

lemma remove_cases: "content (cache_Remove ops k c) k' = Some g \<longleftrightarrow> k' \<noteq> k \<and> content c k' = Some g"
  by (simp add: remove_content)

end

section \<open>A list in order of use\<close>

text \<open>The capacity minus one (a cache holds at least one entry), and the entries, latest first.\<close>

type_synonym lru_list = "nat \<times> (string \<times> memFile) list"

definition lru_list_ops :: "lru_list lru_ops" where
  "lru_list_ops =
     \<lparr>cache_New = (\<lambda>n. if n \<le> 0 then Inl (NewError ''must provide a positive size'') else Inr (nat n - 1, [])),
      cache_Get = (\<lambda>k (n, xs). case map_of xs k of
         None \<Rightarrow> (None, n, xs) | Some f \<Rightarrow> (Some f, n, (k, f) # AList.delete k xs)),
      cache_Add = (\<lambda>k f (n, xs). (n, take (Suc n) ((k, f) # AList.delete k xs))),
      cache_Remove = (\<lambda>k (n, xs). (n, AList.delete k xs)),
      cache_Purge = (\<lambda>(n, xs). (n, []))\<rparr>"

definition lru_list_content :: "lru_list \<Rightarrow> string \<Rightarrow> memFile option" where
  "lru_list_content c k = map_of (snd c) k"

lemma map_of_take_prefix: "map_of (take n xs) k = Some v \<Longrightarrow> map_of xs k = Some v"
  by (metis append_take_drop_id map_add_Some_iff map_of_append map_add_find_right)

interpretation lru_list: lru_cache lru_list_ops lru_list_content
proof (unfold_locales, goal_cases)
  case (1 n c k)
  then show ?case by (auto simp: lru_list_ops_def lru_list_content_def split: if_splits)
next
  case (2 n)
  then show ?case by (simp add: lru_list_ops_def)
next
  case (3 k c r c')
  then show ?case by (cases c) (auto simp: lru_list_ops_def lru_list_content_def split: option.splits)
next
  case (4 k c r c')
  then show ?case
    by (cases c) (auto simp: lru_list_ops_def lru_list_content_def fun_eq_iff delete_conv' split: option.splits)
next
  case (5 k f c)
  then show ?case by (cases c) (simp add: lru_list_ops_def lru_list_content_def)
next
  case (6 k' k f c)
  obtain n xs where c: "c = (n, xs)" by force
  have "map_of (take n (AList.delete k xs)) k' \<in> {map_of xs k', None}"
    using map_of_take_prefix [of n "AList.delete k xs" k'] 6
    by (cases "map_of (take n (AList.delete k xs)) k'") (auto simp: delete_conv')
  then show ?case using 6 by (simp add: c lru_list_ops_def lru_list_content_def)
next
  case (7 k c)
  then show ?case by (cases c) (simp add: lru_list_ops_def lru_list_content_def fun_eq_iff delete_conv')
next
  case (8 c k)
  then show ?case by (cases c) (simp add: lru_list_ops_def lru_list_content_def)
qed

end
