(* ===== verification/Storage_State.thy ===== *)
theory Storage_State
  imports Lock LRU_Cache
begin

text \<open>
  The state of \<^verbatim>\<open>S3Storage\<close> (\<^verbatim>\<open>s3/storage.go\<close>) and the path every write takes: \<open>uploadFile\<close> with its
  fallback \<open>persistToLocal\<close> and the shadow copies. The lemmas give the effect of each on the
  objects, the files and the cache.
\<close>

section \<open>State\<close>

text \<open>
  What the storage is built on: the client, the platform, the cache, goleveldb's \<^verbatim>\<open>FileDesc.String\<close>
  and the bits of its \<^verbatim>\<open>FileType\<close> constants.
\<close>

record ('w, 'c) storage_deps =
  api :: "'w S3ClientAPI"
  plat :: "'w platform"
  lru :: "'c lru_ops"
  fdString :: "file_desc \<Rightarrow> string"
  typeBits :: "file_type \<Rightarrow> int"

text \<open>
  The fields of the struct, after those of the machine and of its \<^verbatim>\<open>s3Lock\<close>. \<open>retryStopped\<close> says
  whether \<^verbatim>\<open>retryStopCh\<close> is closed, \<open>retryRunning\<close> whether the background goroutine runs, \<open>monitors\<close>
  counts the running lease monitors, and \<open>warnings\<close> records the calls of \<^verbatim>\<open>OnPendingWarning\<close>. The
  context \<^verbatim>\<open>s.ctx\<close> is \<open>StorageCtx\<close>.
\<close>

record ('w, 'c) S3Storage = "'w lock_machine" +
  opt :: OpenOption
  cache :: 'c
  closed :: bool
  localDir :: string
  pendingDir :: string
  retryStopped :: bool
  retryRunning :: bool
  lockLost :: bool
  lockHeld :: bool
  shadowPrefix :: string
  monitors :: nat
  warnings :: "(nat \<times> int) list"

definition makeCacheKey :: "('w, 'c) storage_deps \<Rightarrow> file_desc \<Rightarrow> string" where
  "makeCacheKey D fd = fdString D fd"

definition shouldCacheLocally :: "('w, 'c) S3Storage \<Rightarrow> file_desc \<Rightarrow> bool" where
  "shouldCacheLocally s fd =
     (if localDir s = '''' then False else fd_Type fd = TypeJournal \<or> fd_Type fd = TypeManifest)"

definition cksum_of :: "bytes \<Rightarrow> string" where
  "cksum_of data = fmt_08x (ChecksumIEEE data)"

definition cache_add :: "('w, 'c) storage_deps \<Rightarrow> file_desc \<Rightarrow> bytes \<Rightarrow> (('w, 'c) S3Storage, unit) state" where
  "cache_add D fd data =
     modify (cache_update (cache_Add (lru D) (makeCacheKey D fd) \<lparr>mf_fd = fd, mf_data = data\<rparr>))"

definition cache_remove :: "('w, 'c) storage_deps \<Rightarrow> file_desc \<Rightarrow> (('w, 'c) S3Storage, unit) state" where
  "cache_remove D fd = modify (cache_update (cache_Remove (lru D) (makeCacheKey D fd)))"

section \<open>Uploading\<close>

definition uploadToShadow :: "('w, 'c) storage_deps \<Rightarrow> string \<Rightarrow> bytes \<Rightarrow> (('w, 'c) S3Storage, unit) state" where
  "uploadToShadow D name data = do {
     sp \<leftarrow> gets shadowPrefix;
     if sp = '''' then ret () else do {
       on_net (api_PutBytes (api D) StorageCtx (sp @ ''/'' @ name) data);
       ret () } }"

definition cleanShadow :: "('w, 'c) storage_deps \<Rightarrow> string \<Rightarrow> (('w, 'c) S3Storage, unit) state" where
  "cleanShadow D name = do {
     sp \<leftarrow> gets shadowPrefix;
     if sp = '''' then ret () else do {
       on_net (api_Remove (api D) StorageCtx (sp @ ''/'' @ name));
       ret () } }"

definition persistToLocal ::
  "('w, 'c) storage_deps \<Rightarrow> file_desc \<Rightarrow> bytes \<Rightarrow> (('w, 'c) S3Storage, error option) state"
where
  "persistToLocal D fd data = do {
     dir \<leftarrow> gets pendingDir;
     if dir = '''' then ret (Some (NewError ''pending directory not configured'')) else do {
       let name = fdString D fd;
       let localPath = filepath_Join [dir, name];
       e1 \<leftarrow> on_disk (os_MkdirAll (filepath_Dir localPath));
       case e1 of
         Inl err \<Rightarrow> ret (Some (Wrapf ''failed to create local directory'' err))
       | Inr _ \<Rightarrow> do {
           e2 \<leftarrow> on_disk (atomicWriteFile localPath data);
           case e2 of
             Inl err \<Rightarrow> ret (Some (Wrapf ''failed to write local file'' err))
           | Inr _ \<Rightarrow> do {
               on_disk (os_WriteFile (localPath @ ''.cksum'') (cksum_of data));
               uploadToShadow D name data;
               ret None } } } }"

text \<open>The clean-up after a successful upload: the pending copy and its checksum.\<close>

definition remove_pending :: "string \<Rightarrow> (('w, 'c) S3Storage, unit) state" where
  "remove_pending name = do {
     dir \<leftarrow> gets pendingDir;
     if dir = '''' then ret () else do {
       on_disk (os_Remove (filepath_Join [dir, name]));
       on_disk (os_Remove (filepath_Join [dir, name] @ ''.cksum''));
       ret () } }"

text \<open>The two ends of an upload.\<close>

definition upload_failed ::
  "('w, 'c) storage_deps \<Rightarrow> file_desc \<Rightarrow> bytes \<Rightarrow> error \<Rightarrow> (('w, 'c) S3Storage, error option) state"
where
  "upload_failed D fd data err = do {
     dir \<leftarrow> gets pendingDir;
     (if dir \<noteq> [] then do { persistToLocal D fd data; ret () } else ret ());
     ret (Some (Wrapf (''failed to upload file '' @ fdString D fd) err)) }"

definition upload_done ::
  "('w, 'c) storage_deps \<Rightarrow> file_desc \<Rightarrow> bytes \<Rightarrow> (('w, 'c) S3Storage, error option) state"
where
  "upload_done D fd data = do {
     remove_pending (fdString D fd);
     cleanShadow D (fdString D fd);
     cache_add D fd data;
     ret None }"

definition uploadFile ::
  "('w, 'c) storage_deps \<Rightarrow> file_desc \<Rightarrow> bytes \<Rightarrow> (('w, 'c) S3Storage, error option) state"
where
  "uploadFile D fd data = do {
     let name = fdString D fd;
     maxSize \<leftarrow> gets (\<lambda>s. MaxFileSize (opt s));
     lost \<leftarrow> gets lockLost;
     if \<not> isMetadataKey name \<and> maxSize < int (length data) then ret (Some ErrFileTooLarge)
     else if lost then ret (Some ErrLockLost)
     else do {
       e \<leftarrow> on_net (api_PutBytes (api D) StorageCtx name data);
       case e of
         Some err \<Rightarrow> upload_failed D fd data err
       | None \<Rightarrow> upload_done D fd data } }"

section \<open>The setting\<close>

text \<open>
  The pieces together: the client and the lock service, the cache and goleveldb's names. A storage
  is well formed when its directories are what \<^verbatim>\<open>NewS3Storage\<close> makes of the options.
\<close>

locale storage_env =
  lock_service "api D" view "plat D" + lru_cache "lru D" content + file_naming "fdString D"
  for D :: "('w, 'c) storage_deps" and view :: "'w \<Rightarrow> string \<Rightarrow> bytes option"
    and content :: "'c \<Rightarrow> string \<Rightarrow> memFile option" +
  assumes bits: "typeBits D TypeManifest = 1" "typeBits D TypeJournal = 2"
    "typeBits D TypeTable = 4" "typeBits D TypeTemp = 8"
    and cancel_quiet: "view (CancelCtx (plat_rt (plat D)) w) = view w"

definition wf_dirs :: "('w, 'c) S3Storage \<Rightarrow> bool" where
  "wf_dirs s = ((localDir s = '''' \<or> clean_dir (localDir s)) \<and> (pendingDir s = '''' \<or> clean_dir (pendingDir s)))"

definition pending_path :: "('w, 'c) S3Storage \<Rightarrow> string \<Rightarrow> string" where
  "pending_path s name = filepath_Join [pendingDir s, name]"

text \<open>Configuration and flags, which the operations on files leave alone.\<close>

definition same_config :: "('w, 'c) S3Storage \<Rightarrow> ('w, 'c) S3Storage \<Rightarrow> bool" where
  "same_config s t = (s3Lock t = s3Lock s \<and> opt t = opt s \<and> closed t = closed s \<and> localDir t = localDir s
     \<and> pendingDir t = pendingDir s \<and> retryStopped t = retryStopped s \<and> retryRunning t = retryRunning s
     \<and> lockLost t = lockLost s \<and> lockHeld t = lockHeld s \<and> shadowPrefix t = shadowPrefix s
     \<and> monitors t = monitors s)"

lemma same_config_refl [simp]: "same_config s s"
  by (simp add: same_config_def)

lemma same_config_trans: "same_config s t \<Longrightarrow> same_config t u \<Longrightarrow> same_config s u"
  by (simp add: same_config_def)

lemma same_config_upd [simp]:
  "same_config s (t\<lparr>net := w\<rparr>) = same_config s t"
  "same_config s (t\<lparr>disk := h\<rparr>) = same_config s t"
  "same_config s (t\<lparr>cache := c\<rparr>) = same_config s t"
  "same_config s (cache_update f t) = same_config s t"
  "same_config (s\<lparr>net := w\<rparr>) t = same_config s t"
  "same_config (s\<lparr>disk := h\<rparr>) t = same_config s t"
  "same_config (s\<lparr>cache := c\<rparr>) t = same_config s t"
  by (simp_all add: same_config_def)

section \<open>Names and paths\<close>

context file_naming
begin

lemma name_no_temp: "valid_fd fd \<Longrightarrow> \<not> HasPrefix (fdString fd) ''.tmp-''"
proof
  assume v: "valid_fd fd" and "HasPrefix (fdString fd) ''.tmp-''"
  then obtain r where r: "fdString fd = ''.tmp-'' @ r" by (auto simp: HasPrefix_iff)
  have "parse_numbered (''.tmp-'' @ r) = None"
    by (simp add: parse_numbered_def scan_d_def scan_sign_def is_space_def is_digit_def)
  moreover have "parse_manifest (''.tmp-'' @ r) = None"
    by (simp add: parse_manifest_def scan_lit_def HasPrefix_def)
  ultimately have "parseFileDesc (''.tmp-'' @ r) = None" by (simp add: parseFileDesc_def)
  with parse_name [OF v] r show False by simp
qed

lemma name_plain: "valid_fd fd \<Longrightarrow> plain_name (fdString fd)"
proof -
  assume v: "valid_fd fd"
  have "parseFileDesc ''.'' = None" and "parseFileDesc ''..'' = None"
    by (simp_all add: fmt_simps is_digit_def)
  with parse_name [OF v] name_not_Nil [OF v] name_chars(1) [OF v] show ?thesis
    by (auto simp: plain_name_def)
qed

lemma name_cksum_plain: "valid_fd fd \<Longrightarrow> plain_name (fdString fd @ ''.cksum'')"
  using name_plain name_not_Nil by (intro plain_name_append) (auto simp: plain_name_def Suc_le_eq)

end

section \<open>Effects\<close>

text \<open>\<open>within view K P s t\<close>: between \<open>s\<close> and \<open>t\<close> only objects in \<open>K\<close> and files in \<open>P\<close> changed.\<close>

definition within ::
  "('w \<Rightarrow> string \<Rightarrow> bytes option) \<Rightarrow> string set \<Rightarrow> string set \<Rightarrow> ('w, 'c) S3Storage \<Rightarrow> ('w, 'c) S3Storage \<Rightarrow> bool"
where
  "within view K P s t = (same_config s t
     \<and> (\<forall>k. k \<notin> K \<longrightarrow> view (net t) k = view (net s) k)
     \<and> (\<forall>q. q \<notin> P \<longrightarrow> data_at (disk t) q = data_at (disk s) q))"

lemma within_refl [simp]: "within view K P s s"
  by (simp add: within_def)

lemma within_trans: "within view K P s t \<Longrightarrow> within view K P t u \<Longrightarrow> within view K P s u"
  by (auto simp: within_def intro: same_config_trans)

lemma within_mono: "within view K P s t \<Longrightarrow> K \<subseteq> K' \<Longrightarrow> P \<subseteq> P' \<Longrightarrow> within view K' P' s t"
  by (auto simp: within_def)

definition shadow_key :: "('w, 'c) S3Storage \<Rightarrow> string \<Rightarrow> string" where
  "shadow_key s name = shadowPrefix s @ ''/'' @ name"

definition pending_files :: "('w, 'c) S3Storage \<Rightarrow> string \<Rightarrow> string set" where
  "pending_files s name = {pending_path s name, pending_path s name @ ''.cksum''}"

definition temps :: "string \<Rightarrow> string set" where
  "temps dir = {q. temp_file dir q}"

lemma pending_path_config [simp]:
  "pending_path (s\<lparr>net := w\<rparr>) n = pending_path s n" "pending_path (s\<lparr>disk := h\<rparr>) n = pending_path s n"
  "pending_path (s\<lparr>cache := c\<rparr>) n = pending_path s n" "pending_path (cache_update f s) n = pending_path s n"
  by (simp_all add: pending_path_def)

lemma same_config_paths:
  "same_config s t \<Longrightarrow> pending_path t n = pending_path s n \<and> pending_files t n = pending_files s n
     \<and> shadow_key t n = shadow_key s n \<and> wf_dirs t = wf_dirs s \<and> shouldCacheLocally t fd = shouldCacheLocally s fd"
  by (simp add: same_config_def pending_path_def pending_files_def shadow_key_def wf_dirs_def shouldCacheLocally_def)

context storage_env
begin

lemma pending_path_plain:
  assumes "valid_fd fd" and "clean_dir (pendingDir s)"
  shows "filepath_Dir (pending_path s (fdString D fd)) = pendingDir s"
    and "pending_path s (fdString D fd) \<notin> temps (pendingDir s)"
    and "pending_path s (fdString D fd) @ ''.cksum'' \<notin> temps (pendingDir s)"
proof -
  have n: "plain_name (fdString D fd)" using assms(1) by (rule name_plain)
  then show "filepath_Dir (pending_path s (fdString D fd)) = pendingDir s"
    using assms(2) by (simp add: pending_path_def Join_plain Dir_plain)
  show "pending_path s (fdString D fd) \<notin> temps (pendingDir s)"
    using plain_not_temp [OF assms(2) n name_no_temp [OF assms(1)]] by (simp add: temps_def pending_path_def)
  have j: "pending_path s (fdString D fd) @ ''.cksum'' = filepath_Join [pendingDir s, fdString D fd @ ''.cksum'']"
    using assms(2) n name_cksum_plain [OF assms(1)] by (simp add: pending_path_def Join_plain)
  have "\<not> HasPrefix (fdString D fd @ ''.cksum'') ''.tmp-''"
  proof
    assume "HasPrefix (fdString D fd @ ''.cksum'') ''.tmp-''"
    then have "HasPrefix (fdString D fd) ''.tmp-'' \<or> HasPrefix (fdString D fd) ''.'' \<or> fdString D fd = []"
      by (cases "fdString D fd") (auto simp: HasPrefix_def)
    moreover have "\<not> HasPrefix (fdString D fd) ''.''"
    proof
      assume "HasPrefix (fdString D fd) ''.''"
      then obtain r where r: "fdString D fd = CHR ''.'' # r" by (auto simp: HasPrefix_iff)
      have "parse_numbered (CHR ''.'' # r) = None"
        by (simp add: parse_numbered_def scan_d_def scan_sign_def is_space_def is_digit_def)
      moreover have "parse_manifest (CHR ''.'' # r) = None"
        by (simp add: parse_manifest_def scan_lit_def HasPrefix_def)
      ultimately show False using parse_name [OF assms(1)] r by (simp add: parseFileDesc_def)
    qed
    ultimately show False using name_no_temp [OF assms(1)] name_not_Nil [OF assms(1)] by blast
  qed
  then show "pending_path s (fdString D fd) @ ''.cksum'' \<notin> temps (pendingDir s)"
    unfolding j temps_def using plain_not_temp [OF assms(2) name_cksum_plain [OF assms(1)]] by simp
qed

lemma remove_pending_effect:
  "wp (remove_pending name) (\<lambda>_ t. within view {} (pending_files s name) s t \<and> cache t = cache s \<and> net t = net s
     \<and> (\<forall>q. data_at (disk t) q = data_at (disk s) q \<or> data_at (disk t) q = None)) s"
  unfolding remove_pending_def
  by (auto simp: wp_simps within_def pending_files_def pending_path_def intro!: wp_Remove)

lemma uploadToShadow_effect:
  "wp (uploadToShadow D name data) (\<lambda>_ t. within view {shadow_key s name} {} s t \<and> cache t = cache s \<and> disk t = disk s) s"
  unfolding uploadToShadow_def
  by (auto simp: wp_simps within_def shadow_key_def intro!: wp_put)

lemma cleanShadow_effect:
  "wp (cleanShadow D name) (\<lambda>_ t. within view {shadow_key s name} {} s t \<and> cache t = cache s \<and> disk t = disk s) s"
  unfolding cleanShadow_def
  by (auto simp: wp_simps within_def shadow_key_def intro!: wp_remove)

end

text \<open>
  The result of \<open>uploadFile\<close>: nil means the object has the data, and so has the cache; on an error
  the object has the data it had before or the new data, and so has the pending file.
\<close>

definition uploaded ::
  "('w, 'c) storage_deps \<Rightarrow> ('w \<Rightarrow> string \<Rightarrow> bytes option) \<Rightarrow> file_desc \<Rightarrow> bytes
     \<Rightarrow> ('w, 'c) S3Storage \<Rightarrow> error option \<Rightarrow> ('w, 'c) S3Storage \<Rightarrow> bool"
where
  "uploaded D view fd data s r t =
     (let n = fdString D fd; p = pending_path s n in
        within view {n, shadow_key s n} (pending_files s n \<union> temps (pendingDir s)) s t
      \<and> (lockLost s \<longrightarrow> r \<noteq> None \<and> t = s)
      \<and> (case r of
           None \<Rightarrow> view (net t) n = Some data
             \<and> cache t = cache_Add (lru D) n \<lparr>mf_fd = fd, mf_data = data\<rparr> (cache s)
             \<and> (\<forall>q. data_at (disk t) q = data_at (disk s) q \<or> data_at (disk t) q = None)
         | Some e \<Rightarrow> cache t = cache s
             \<and> view (net t) n \<in> {view (net s) n, Some data}
             \<and> data_at (disk t) p \<in> {data_at (disk s) p, Some data}))"

context storage_env
begin

lemma persistToLocal_effect:
  assumes "valid_fd fd" and "clean_dir (pendingDir s)"
  shows "wp (persistToLocal D fd data) (\<lambda>r t.
      within view {shadow_key s (fdString D fd)} (pending_files s (fdString D fd) \<union> temps (pendingDir s)) s t
    \<and> cache t = cache s
    \<and> (case r of
         None \<Rightarrow> data_at (disk t) (pending_path s (fdString D fd)) = Some data
       | Some e \<Rightarrow> data_at (disk t) (pending_path s (fdString D fd)) = data_at (disk s) (pending_path s (fdString D fd)))) s"
proof -
  let ?n = "fdString D fd" and ?p = "filepath_Join [pendingDir s, fdString D fd]"
  note pp = pending_path_plain [OF assms]
  have p: "pending_path s ?n = ?p" by (simp add: pending_path_def)
  have d: "filepath_Dir ?p = pendingDir s" using pp(1) p by simp
  have t: "\<not> temp_file (pendingDir s) ?p" "\<not> temp_file (pendingDir s) (?p @ ''.cksum'')"
    using pp(2,3) p by (simp_all add: temps_def)
  have shadow: "wp (uploadToShadow D ?n data) Q u"
    if "\<And>v. within view {shadow_key u ?n} {} u v \<Longrightarrow> cache v = cache u \<Longrightarrow> disk v = disk u \<Longrightarrow> Q () v" for Q u
    by (rule wp_weaken [OF uploadToShadow_effect]) (use that in auto)
  have "pendingDir s \<noteq> ''''" using assms(2) clean_dir_not_Nil by auto
  then show ?thesis
    unfolding persistToLocal_def
    by (auto simp: wp_simps within_def p d t pending_files_def shadow_key_def temps_def same_config_def
        intro!: wp_MkdirAll wp_atomicWrite wp_WriteFile shadow split: sum.split)
qed

lemma shadow_key_not_name: "valid_fd fd \<Longrightarrow> fdString D fd \<noteq> shadow_key s name"
  using name_chars(1) [of fd "CHR ''/''"] by (auto simp: shadow_key_def)

end

context storage_env
begin

lemma upload_done_effect:
  "wp (upload_done D fd data)
     (\<lambda>r t. within view {shadow_key s (fdString D fd)} (pending_files s (fdString D fd)) s t \<and> r = None
       \<and> cache t = cache_Add (lru D) (fdString D fd) \<lparr>mf_fd = fd, mf_data = data\<rparr> (cache s)
       \<and> (\<forall>q. data_at (disk t) q = data_at (disk s) q \<or> data_at (disk t) q = None)) s"
  unfolding upload_done_def wp_bind
proof (rule wp_weaken [OF remove_pending_effect], goal_cases)
  case (1 r u)
  let ?n = "fdString D fd"
  have k: "shadow_key u ?n = shadow_key s ?n" using 1 by (simp add: within_def same_config_paths)
  have u: "within view {shadow_key s ?n} (pending_files s ?n) s u" using 1 by (auto intro: within_mono)
  show ?case
  proof (rule wp_weaken [OF cleanShadow_effect], goal_cases)
    case (1 r' t)
    then have t: "within view {shadow_key s ?n} (pending_files s ?n) u t" unfolding k by (auto intro: within_mono)
    show ?case
      using within_trans [OF u t] 1 \<open>within view {} (pending_files s ?n) s u \<and> _\<close>
      by (auto simp: wp_simps cache_add_def makeCacheKey_def within_def)
  qed
qed

lemma upload_failed_effect:
  assumes fd: "valid_fd fd" and dir: "pendingDir s = '''' \<or> clean_dir (pendingDir s)"
  shows "wp (upload_failed D fd data err) (\<lambda>r t.
      within view {shadow_key s (fdString D fd)} (pending_files s (fdString D fd) \<union> temps (pendingDir s)) s t
    \<and> r = Some (Wrapf (''failed to upload file '' @ fdString D fd) err) \<and> cache t = cache s
    \<and> data_at (disk t) (pending_path s (fdString D fd)) \<in> {data_at (disk s) (pending_path s (fdString D fd)), Some data}) s"
proof (cases "pendingDir s = ''''")
  case True
  then show ?thesis by (simp add: upload_failed_def wp_simps)
next
  case False
  with dir have "clean_dir (pendingDir s)" by simp
  note persist = persistToLocal_effect [OF fd this]
  show ?thesis
    by (simp add: upload_failed_def wp_bind wp_gets False, rule wp_weaken [OF persist])
      (auto simp: wp_return split: option.splits)
qed

lemma uploadFile_effect:
  assumes fd: "valid_fd fd" and dir: "pendingDir s = '''' \<or> clean_dir (pendingDir s)"
  shows "wp (uploadFile D fd data) (uploaded D view fd data s) s"
proof -
  let ?n = "fdString D fd" and ?p = "pending_path s (fdString D fd)"
  have ne: "?n \<noteq> shadow_key s ?n" using fd by (rule shadow_key_not_name)
  have failed: "wp (upload_failed D fd data err) (uploaded D view fd data s) (s\<lparr>net := w\<rparr>)"
    if v: "view w = view (net s) \<or> view w = (view (net s))(?n \<mapsto> data)" and l: "\<not> lockLost s" for err w
  proof (rule wp_weaken [OF upload_failed_effect], goal_cases)
    case (3 r t)
    have w: "view w k = view (net s) k" if "k \<noteq> ?n" for k
      using that v by (elim disjE) simp_all
    have wn: "view w ?n \<in> {view (net s) ?n, Some data}" using v by auto
    have "within view {?n, shadow_key s ?n} (pending_files s ?n \<union> temps (pendingDir s)) s t"
      using w 3 by (simp add: within_def shadow_key_def pending_files_def)
    moreover have "view (net t) ?n = view w ?n"
      using 3 ne by (simp add: within_def shadow_key_def)
    ultimately show ?case using 3 wn l by (simp add: uploaded_def Let_def)
  qed (use fd dir in simp_all)
  have good: "wp (upload_done D fd data) (uploaded D view fd data s) (s\<lparr>net := w\<rparr>)"
    if "view w = (view (net s))(?n \<mapsto> data)" "\<not> lockLost s" for w
    by (rule wp_weaken [OF upload_done_effect])
      (use that ne in \<open>auto simp: uploaded_def within_def Let_def shadow_key_def pending_files_def\<close>)
  show ?thesis
    unfolding uploadFile_def
    by (auto simp: wp_simps uploaded_def [of _ _ _ _ _ "Some _" s] Let_def intro!: wp_put good failed)
qed

end

text \<open>What is gone after a successful upload, on a disk without faults and with a service that answers.\<close>

definition upload_cleaned ::
  "('w, 'c) storage_deps \<Rightarrow> ('w \<Rightarrow> string \<Rightarrow> bytes option) \<Rightarrow> string \<Rightarrow> 'w \<Rightarrow> ('w, 'c) S3Storage \<Rightarrow> ('w, 'c) S3Storage \<Rightarrow> bool"
where
  "upload_cleaned D view n w s t =
     ((pendingDir s \<noteq> '''' \<longrightarrow> faults (disk s) = [] \<longrightarrow>
         data_at (disk t) (pending_path s n) = None \<and> data_at (disk t) (pending_path s n @ ''.cksum'') = None)
    \<and> (shadowPrefix s \<noteq> '''' \<longrightarrow> fst (api_Remove (api D) StorageCtx (shadow_key s n) w) = None \<longrightarrow>
         view (net t) (shadow_key s n) = None))"

context storage_env
begin

lemma remove_pending_gone:
  "wp (remove_pending n) (\<lambda>_ t. net t = net s \<and> shadowPrefix t = shadowPrefix s \<and> (pendingDir s \<noteq> '''' \<longrightarrow> faults (disk s) = [] \<longrightarrow>
     faults (disk t) = [] \<and> data_at (disk t) (pending_path s n) = None
     \<and> data_at (disk t) (pending_path s n @ ''.cksum'') = None)) s"
  unfolding remove_pending_def
  by (auto simp: wp_simps pending_path_def intro!: wp_Remove_ok)

lemma cleanShadow_gone:
  "wp (cleanShadow D n) (\<lambda>_ t. disk t = disk s \<and> (shadowPrefix s \<noteq> '''' \<longrightarrow>
     fst (api_Remove (api D) StorageCtx (shadow_key s n) (net s)) = None \<longrightarrow> view (net t) (shadow_key s n) = None)) s"
proof (cases "shadowPrefix s = ''''")
  case True
  then show ?thesis by (simp add: cleanShadow_def wp_simps)
next
  case False
  then show ?thesis
    by (simp add: cleanShadow_def wp_simps) (rule wp_on_net_exact, rule wp_remove, auto simp: shadow_key_def wp_return)
qed

lemma upload_done_cleaned: "wp (upload_done D fd data) (\<lambda>_. upload_cleaned D view (fdString D fd) (net s) s) s"
  unfolding upload_done_def wp_bind
proof (rule wp_weaken [OF remove_pending_gone], goal_cases)
  case (1 r u)
  then show ?case
    by (intro wp_weaken [OF cleanShadow_gone])
      (auto simp: wp_simps cache_add_def upload_cleaned_def shadow_key_def)
qed

lemma uploadFile_branches:
  "wp (uploadFile D fd data) (\<lambda>r t.
     if \<not> isMetadataKey (fdString D fd) \<and> MaxFileSize (opt s) < int (length data) then r = Some ErrFileTooLarge \<and> t = s
     else if lockLost s then r = Some ErrLockLost \<and> t = s
     else case api_PutBytes (api D) StorageCtx (fdString D fd) data (net s) of
       (None, w) \<Rightarrow> r = None \<and> upload_cleaned D view (fdString D fd) w s t
     | (Some err, w) \<Rightarrow> r = Some (Wrapf (''failed to upload file '' @ fdString D fd) err)) s"
proof -
  have done': "wp (upload_done D fd data) (\<lambda>r t. r = None \<and> upload_cleaned D view (fdString D fd) w s t) (s\<lparr>net := w\<rparr>)" for w
    by (simp add: wp_conj, rule conjI, rule wp_weaken [OF upload_done_effect], simp, rule wp_weaken [OF upload_done_cleaned])
      (simp add: upload_cleaned_def shadow_key_def)
  have any: "wp f Q u" if "\<And>r t. Q r t" for f :: "(('w, 'c) S3Storage, 'r) state" and Q u
    using that by (simp add: wp_def split: prod.split)
  have fail: "wp (upload_failed D fd data err) (\<lambda>r t. r = Some (Wrapf (''failed to upload file '' @ fdString D fd) err)) u" for err u
    unfolding upload_failed_def by (simp add: wp_simps any)
  show ?thesis
    unfolding uploadFile_def
    by (auto simp: wp_simps wp_on_net split: prod.split option.split intro!: done' [simplified] fail [simplified])
qed

end

text \<open>The effects of the building blocks as rules, for a continuation \<open>Q\<close>.\<close>

context storage_env
begin

lemma wp_remove_pending:
  assumes "\<And>t. within view {} (pending_files s n) s t \<Longrightarrow> cache t = cache s \<Longrightarrow> net t = net s \<Longrightarrow> Q () t"
  shows "wp (remove_pending n) Q s"
  by (rule wp_weaken [OF remove_pending_effect]) (use assms in auto)

lemma wp_cleanShadow:
  assumes "\<And>t. within view {shadow_key s n} {} s t \<Longrightarrow> cache t = cache s \<Longrightarrow> disk t = disk s \<Longrightarrow> Q () t"
  shows "wp (cleanShadow D n) Q s"
  by (rule wp_weaken [OF cleanShadow_effect]) (use assms in auto)

lemma wp_uploadToShadow:
  assumes "\<And>t. within view {shadow_key s n} {} s t \<Longrightarrow> cache t = cache s \<Longrightarrow> disk t = disk s \<Longrightarrow> Q () t"
  shows "wp (uploadToShadow D n d) Q s"
  by (rule wp_weaken [OF uploadToShadow_effect]) (use assms in auto)

end

section \<open>The fallback on a working disk\<close>

text \<open>
  What it takes for the pending directory to accept a file: no system call fails, the directory and
  its parents are there, a temporary name can be drawn, and no directory has the name of the file.
\<close>

definition disk_ready :: "('w, 'c) S3Storage \<Rightarrow> string \<Rightarrow> bool" where
  "disk_ready s name = (faults (disk s) = []
     \<and> list_all (\<lambda>q. dir_exists (disk s) q \<and> data_at (disk s) q = None) (ancestors (pendingDir s))
     \<and> temp_supply (pendingDir s) (disk s)
     \<and> node_at (disk s) (pending_path s name) \<noteq> Some Dir
     \<and> node_at (disk s) (pending_path s name @ ''.cksum'') \<noteq> Some Dir)"

definition pending_holds :: "('w, 'c) S3Storage \<Rightarrow> string \<Rightarrow> bytes \<Rightarrow> bool" where
  "pending_holds s name data = (data_at (disk s) (pending_path s name) = Some data
     \<and> data_at (disk s) (pending_path s name @ ''.cksum'') = Some (cksum_of data))"

lemma fold_dirs_exist:
  "list_all (dir_exists h) ps \<Longrightarrow> fold (\<lambda>q g. if dir_exists g q then g else put_node q Dir g) ps h = h"
  by (induction ps) auto

lemma ok_MkdirAll:
  assumes "faults h = []" and "list_all (\<lambda>q. dir_exists h q \<and> data_at h q = None) (ancestors p)"
  shows "os_MkdirAll p h = (Inr (), h)"
proof -
  have "list_all (dir_exists h) (ancestors p)" using assms(2) by (simp add: list_all_iff)
  moreover have "\<not> list_ex (\<lambda>q. data_at h q \<noteq> None) (ancestors p)"
    using assms(2) by (auto simp: list_all_iff list_ex_iff)
  ultimately show ?thesis using assms(1) by (simp add: os_MkdirAll_def fold_dirs_exist)
qed

lemma dir_not_temp: "clean_dir d \<Longrightarrow> \<not> temp_file d d"
  using temp_path_plain by (auto simp: temp_file_def temp_path_def Join_plain)

context storage_env
begin

lemma persistToLocal_ok:
  assumes fd: "valid_fd fd" and dir: "clean_dir (pendingDir s)" and ready: "disk_ready s (fdString D fd)"
  shows "wp (persistToLocal D fd data) (\<lambda>r t. r = None \<and> pending_holds t (fdString D fd) data) s"
proof -
  let ?n = "fdString D fd" and ?d = "pendingDir s" and ?p = "pending_path s (fdString D fd)"
  have j: "filepath_Join [?d, ?n] = ?p" by (simp add: pending_path_def)
  have dp: "filepath_Dir ?p = ?d" and tp: "\<not> temp_file ?d ?p" and tc: "\<not> temp_file ?d (?p @ ''.cksum'')"
    using pending_path_plain [OF fd dir] by (simp_all add: temps_def)
  have td: "\<not> temp_file ?d ?d" using dir by (rule dir_not_temp)
  have ex: "dir_exists (disk s) ?d" and no: "data_at (disk s) ?d = None"
    using ready by (simp_all add: disk_ready_def ancestors_def)
  have pd: "?d \<noteq> ?p" using dir name_plain [OF fd] by (simp add: pending_path_def Join_plain)
  obtain h where h: "atomicWriteFile ?p data (disk s) = (Inr (), h)" "faults h = []"
    using atomicWrite_ok [of "disk s" ?p data] ready dp ex tp td by (auto simp: disk_ready_def)
  have keep: "node_at h q = node_at (disk s) q" if "q \<noteq> ?p" "\<not> temp_file ?d q" for q
    using atomicWrite_other [of ?p q "disk s" data] that h(1) dp by (simp add: keeps_at_def)
  have hp: "node_at h ?p = Some (File data)"
    using atomicWrite_target(1) [OF h(1)] tp dp by simp
  have "filepath_Dir (?p @ ''.cksum'') = ?d"
    using dir name_plain [OF fd] name_cksum_plain [OF fd] Dir_plain [OF dir name_cksum_plain [OF fd]]
    by (simp add: pending_path_def Join_plain)
  moreover have "node_at h (?p @ ''.cksum'') \<noteq> Some Dir"
    using keep [of "?p @ ''.cksum''"] tc ready by (simp add: disk_ready_def)
  moreover have "dir_exists h ?d" using ex keep [OF pd td] by (simp add: dir_exists_def)
  ultimately have w: "os_WriteFile (?p @ ''.cksum'') (cksum_of data) h =
      (Inr (), put_node (?p @ ''.cksum'') (File (cksum_of data)) (put_node (?p @ ''.cksum'') (File []) h))"
    using h(2) by (simp add: ok_WriteFile)
  have mk: "os_MkdirAll ?d (disk s) = (Inr (), disk s)"
    using ready by (intro ok_MkdirAll) (simp_all add: disk_ready_def)
  have shadow: "wp (uploadToShadow D ?n data) (\<lambda>_. Q) u" if "\<And>v. same_config u v \<Longrightarrow> disk v = disk u \<Longrightarrow> Q v" for Q u
    by (rule wp_weaken [OF uploadToShadow_effect]) (use that in \<open>auto simp: within_def\<close>)
  have "?d \<noteq> ''''" using dir clean_dir_not_Nil by auto
  then show ?thesis
    unfolding persistToLocal_def
    by (auto simp: wp_simps wp_on_disk j dp mk h w pending_holds_def data_at_def hp
        dest!: same_config_paths [where n = ?n] intro!: shadow)
qed

lemma uploadFile_persists:
  assumes "valid_fd fd" and "clean_dir (pendingDir s)" and "disk_ready s (fdString D fd)"
  shows "wp (uploadFile D fd data) (\<lambda>r t. r \<in> {None, Some ErrFileTooLarge, Some ErrLockLost}
     \<or> pending_holds t (fdString D fd) data) s"
proof -
  define Q :: "error option \<Rightarrow> ('w, 'c) S3Storage \<Rightarrow> bool"
    where "Q = (\<lambda>r t. r \<in> {None, Some ErrFileTooLarge, Some ErrLockLost} \<or> pending_holds t (fdString D fd) data)"
  have early: "Q (Some ErrFileTooLarge) t" "Q (Some ErrLockLost) t" for t by (simp_all add: Q_def)
  have ne: "pendingDir s \<noteq> ''''" using assms(2) clean_dir_not_Nil by auto
  have "wp (upload_failed D fd data err) (\<lambda>r t. pending_holds t (fdString D fd) data) (s\<lparr>net := w\<rparr>)" for err w
    by (simp add: upload_failed_def wp_simps ne, rule wp_weaken [OF persistToLocal_ok])
      (use assms in \<open>simp_all add: disk_ready_def wp_return\<close>)
  then have f: "wp (upload_failed D fd data err) Q (s\<lparr>net := w\<rparr>)" for err w
    by (rule wp_weaken) (simp add: Q_def)
  have g: "wp (upload_done D fd data) Q u" for u
    by (rule wp_weaken [OF upload_done_effect]) (simp add: Q_def)
  have "wp (uploadFile D fd data) Q s"
    unfolding uploadFile_def by (auto simp: wp_simps early intro!: wp_put f g)
  then show ?thesis unfolding Q_def .
qed

end

section \<open>A storage for examples\<close>

text \<open>The constants of goleveldb: one bit per type.\<close>

fun leveldb_bits :: "file_type \<Rightarrow> int" where
  "leveldb_bits TypeManifest = 1"
| "leveldb_bits TypeJournal = 2"
| "leveldb_bits TypeTable = 4"
| "leveldb_bits TypeTemp = 8"
| "leveldb_bits (TypeOther n) = n"

definition demo_deps :: "(sim_world, lru_list) storage_deps" where
  "demo_deps = \<lparr>api = mem_api, plat = sim_platform 7, lru = lru_list_ops, fdString = leveldb_String,
     typeBits = leveldb_bits\<rparr>"

lemma demo_deps_simps [simp]:
  "api demo_deps = mem_api" "plat demo_deps = sim_platform 7" "lru demo_deps = lru_list_ops"
  "fdString demo_deps = leveldb_String" "typeBits demo_deps = leveldb_bits"
  by (simp_all add: demo_deps_def)

lemma demo_env: "storage_env demo_deps sim_objs lru_list_content"
proof (intro storage_env.intro storage_env_axioms.intro)
  show "lock_service (api demo_deps) sim_objs (plat demo_deps)" by (simp add: mem_service)
  show "lru_cache (lru demo_deps) lru_list_content" by (simp add: lru_list.lru_cache_axioms)
  show "file_naming (fdString demo_deps)" unfolding demo_deps_simps by (rule ldb.file_naming_axioms)
qed (simp_all add: sim_platform_def sim_rt_def sim_objs_def)

interpretation demo: storage_env demo_deps sim_objs lru_list_content
  by (rule demo_env)

text \<open>
  A storage with the given objects, request outcomes and extra files on disk, on the directories
  \<^verbatim>\<open>/c/db\<close> and \<^verbatim>\<open>/c/db/pending_uploads\<close>.
\<close>

definition demo_storage ::
  "(string \<times> bytes) list \<Rightarrow> sdk_outcome list \<Rightarrow> fs_table \<Rightarrow> (sim_world, lru_list) S3Storage"
where
  "demo_storage objs outcomes files =
     \<lparr>net = \<lparr>sim_table = objs, sim_outcomes = outcomes, sim_clock = 5, sim_canceled = False\<rparr>,
      disk = \<lparr>fs = [(''/c'', Dir), (''/c/db'', Dir), (''/c/db/pending_uploads'', Dir)] @ files,
        faults = [], rands = [1, 2, 3, 4], disk_trace = []\<rparr>,
      s3Lock = NewS3Lock demo_option, opt = demo_option, cache = (2, []), closed = False,
      localDir = ''/c/db'', pendingDir = ''/c/db/pending_uploads'', retryStopped = False,
      retryRunning = True, lockLost = False, lockHeld = True, shadowPrefix = ''sh'', monitors = 1,
      warnings = []\<rparr>"

lemma demo_storage_simps [simp]:
  "opt (demo_storage o' f d) = demo_option" "lockLost (demo_storage o' f d) = False"
  "localDir (demo_storage o' f d) = ''/c/db''" "pendingDir (demo_storage o' f d) = ''/c/db/pending_uploads''"
  "closed (demo_storage o' f d) = False" "shadowPrefix (demo_storage o' f d) = ''sh''"
  "lockHeld (demo_storage o' f d) = True" "retryStopped (demo_storage o' f d) = False"
  "cache (demo_storage o' f d) = (2, [])"
  by (simp_all add: demo_storage_def)

lemma demo_dirs [simp]: "clean_dir ''/c/db''" "clean_dir ''/c/db/pending_uploads''"
  by (simp_all add: clean_dir_def fmt_simps)

lemmas storage_exec =
  uploadToShadow_def [THEN wp_unfold] cleanShadow_def [THEN wp_unfold] persistToLocal_def [THEN wp_unfold]
  remove_pending_def [THEN wp_unfold] upload_failed_def [THEN wp_unfold] upload_done_def [THEN wp_unfold]
  uploadFile_def [THEN wp_unfold] cache_add_def [THEN wp_unfold] cache_remove_def [THEN wp_unfold]
  makeCacheKey_def

text \<open>The names that the examples use, both ways.\<close>

lemma demo_fd:
  "valid_fd (FileDesc TypeTable 1)" "leveldb_String (FileDesc TypeTable 1) = ''000001.ldb''"
  "valid_fd (FileDesc TypeTable 3)" "leveldb_String (FileDesc TypeTable 3) = ''000003.ldb''"
  "valid_fd (FileDesc TypeJournal 2)" "leveldb_String (FileDesc TypeJournal 2) = ''000002.log''"
  "valid_fd (FileDesc TypeManifest 4)" "leveldb_String (FileDesc TypeManifest 4) = ''MANIFEST-000004''"
  by (simp_all add: valid_fd_def known_type_def fmt_simps)

lemma demo_parse:
  "parseFileDesc ''000001.ldb'' = Some (FileDesc TypeTable 1)"
  "parseFileDesc ''000003.ldb'' = Some (FileDesc TypeTable 3)"
  "parseFileDesc ''000002.log'' = Some (FileDesc TypeJournal 2)"
  "parseFileDesc ''MANIFEST-000004'' = Some (FileDesc TypeManifest 4)"
  using ldb.parse_name demo_fd by metis+

lemma demo_key: "CHR ''/'' \<notin> set n \<Longrightarrow> parseS3Key n = ('''', n)"
  by (simp add: parseS3Key_def LastIndex_def)

text \<open>The name in \<^verbatim>\<open>CURRENT\<close> is found under its final newline.\<close>

lemma demo_trim:
  assumes "valid_fd fd"
  shows "TrimSpace (leveldb_String fd @ [CHR 0x0A]) = leveldb_String fd"
  using ldb.name_not_Nil [OF assms] ldb.name_chars(2) [OF assms] by (intro TrimSpace_newline) auto

section \<open>Properties\<close>

lemmas uploadFile_run = storage_env.uploadFile_effect [THEN wp_run]

lemmas uploadFile_branches_run = storage_env.uploadFile_branches [THEN wp_run]

text \<open>
  C24: \<open>uploadFile\<close> branch by branch. A file over the limit that is no metadata is refused with \<open>ErrFileTooLarge\<close>,
  any file with the lock lost with \<open>ErrLockLost\<close>, and then nothing is done. Otherwise the result is that of one put
  request. When it succeeds, the result is nil, the object and the cache hold exactly the data, no file appears or changes
  locally, the pending copy and its checksum are gone (on a disk without faults), and the shadow
  copy too when its removal succeeds. When the put fails, its error is returned, wrapped; the cache is as it was, and
  the object has its old or the new data. In all cases no object is touched but the file's and its shadow, and no
  local file but the pending one, its checksum and temporary files.
\<close>

theorem uploadFile_outcome:
  assumes "storage_env D view content" and "valid_fd fd" and "wf_dirs s"
    and "run_state (uploadFile D fd data) s = (r, t)"
  shows "let n = fdString D fd; put = api_PutBytes (api D) StorageCtx n data (net s) in
      (\<forall>k. k \<notin> {n, shadow_key s n} \<longrightarrow> view (net t) k = view (net s) k)
    \<and> (\<forall>q. q \<notin> pending_files s n \<union> temps (pendingDir s) \<longrightarrow> data_at (disk t) q = data_at (disk s) q)
    \<and> (if \<not> isMetadataKey n \<and> MaxFileSize (opt s) < int (length data) then r = Some ErrFileTooLarge \<and> t = s
       else if lockLost s then r = Some ErrLockLost \<and> t = s
       else case fst put of
         None \<Rightarrow> r = None \<and> view (net t) n = Some data
           \<and> content (cache t) n = Some \<lparr>mf_fd = fd, mf_data = data\<rparr>
           \<and> (\<forall>q. data_at (disk t) q = data_at (disk s) q \<or> data_at (disk t) q = None)
           \<and> (pendingDir s \<noteq> '''' \<longrightarrow> faults (disk s) = [] \<longrightarrow>
                data_at (disk t) (pending_path s n) = None \<and> data_at (disk t) (pending_path s n @ ''.cksum'') = None)
           \<and> (shadowPrefix s \<noteq> '''' \<longrightarrow> fst (api_Remove (api D) StorageCtx (shadow_key s n) (snd put)) = None \<longrightarrow>
                view (net t) (shadow_key s n) = None)
       | Some err \<Rightarrow> r = Some (Wrapf (''failed to upload file '' @ n) err) \<and> cache t = cache s
           \<and> view (net t) n \<in> {view (net s) n, Some data})"
proof -
  have add: "content (cache_Add (lru D) k f c) k = Some f" for k f c
    using assms(1) by (simp add: storage_env_def lru_cache.add_same)
  have dir: "pendingDir s = '''' \<or> clean_dir (pendingDir s)" using assms(3) by (simp add: wf_dirs_def)
  note up = uploadFile_run [OF assms(1,2) dir assms(4)]
  note up = up [unfolded uploaded_def within_def Let_def]
  obtain e w where put: "api_PutBytes (api D) StorageCtx (fdString D fd) data (net s) = (e, w)" by force
  show ?thesis
    using up uploadFile_branches_run [OF assms(1,4)]
    unfolding Let_def put fst_conv snd_conv upload_cleaned_def by (cases e) (simp_all add: add split: if_splits)
qed

text \<open>The upload of a file of three bytes, with a stale pending copy, and the refusal of one of two bytes more than the limit.\<close>

theorem uploadFile_outcome_witness:
  "(\<exists>t. run_state (uploadFile demo_deps (FileDesc TypeTable 1) ''abc'') (demo_storage [] [] []) = (None, t)
     \<and> sim_objs (net t) ''000001.ldb'' = Some ''abc'')
   \<and> fst (run_state (uploadFile demo_deps (FileDesc TypeTable 1) ''0123456789'') (demo_storage [] [] [])) = Some ErrFileTooLarge"
proof -
  have wf: "wf_dirs (demo_storage [] [] [])" by (simp add: wf_dirs_def)
  obtain r t where t: "run_state (uploadFile demo_deps (FileDesc TypeTable 1) ''abc'') (demo_storage [] [] []) = (r, t)" by force
  obtain r' t' where t': "run_state (uploadFile demo_deps (FileDesc TypeTable 1) ''0123456789'') (demo_storage [] [] []) = (r', t')" by force
  have "fst (api_PutBytes mem_api StorageCtx ''000001.ldb'' ''abc'' (net (demo_storage [] [] []))) = None"
    by (simp add: demo_storage_def mem_eval)
  with uploadFile_outcome [OF demo_env demo_fd(1) wf t] uploadFile_outcome [OF demo_env demo_fd(1) wf t'] t t' show ?thesis
    by (simp add: demo_fd isMetadataKey_def HasPrefix_def demo_option_def Let_def del: leveldb_String.simps)
qed

text \<open>
  C12: on a working disk an upload that fails leaves the data in the pending directory, complete and
  with a matching checksum, although the error is reported to the caller (unless the file was
  refused for its size or because the lock is lost).
\<close>

theorem failed_upload_is_persisted:
  assumes "storage_env D view content" and "valid_fd fd" and "clean_dir (pendingDir s)"
    and "disk_ready s (fdString D fd)" and "run_state (uploadFile D fd data) s = (Some e, t)"
    and "e \<noteq> ErrFileTooLarge" and "e \<noteq> ErrLockLost"
  shows "data_at (disk t) (pending_path s (fdString D fd)) = Some data
    \<and> data_at (disk t) (pending_path s (fdString D fd) @ ''.cksum'') = Some (fmt_08x (ChecksumIEEE data))"
proof -
  have "pending_holds t (fdString D fd) data"
    using wp_run [OF storage_env.uploadFile_persists [OF assms(1-4)] assms(5)] assms(6,7) by simp
  moreover have "pendingDir s = '''' \<or> clean_dir (pendingDir s)" using assms(3) by simp
  then have "same_config s t"
    using uploadFile_run [OF assms(1,2) _ assms(5)] by (simp add: uploaded_def within_def Let_def)
  ultimately show ?thesis by (simp add: pending_holds_def cksum_of_def same_config_paths)
qed

theorem failed_upload_is_persisted_witness:
  "\<exists>e t. run_state (uploadFile demo_deps (FileDesc TypeTable 1) ''abc'') (demo_storage [] [Rejected] []) = (Some e, t)
     \<and> data_at (disk t) ''/c/db/pending_uploads/000001.ldb'' = Some ''abc''"
proof -
  let ?s = "demo_storage [] [Rejected] []"
  let ?e = "Wrapf ''failed to upload file 000001.ldb'' (OtherError ''rejected'')"
  have "wp (uploadFile demo_deps (FileDesc TypeTable 1) ''abc'') (\<lambda>r t. r = Some ?e) ?s"
    by (simp add: demo_storage_def storage_exec demo_option_def lru_list_ops_def isMetadataKey_def HasPrefix_def
        wp_exec mem_eval host_eval path_eval atomicWriteFile_def demo_fd AList.delete_eq fmt_eval del: leveldb_String.simps cong: wp_state_cong)
  then obtain t where t: "run_state (uploadFile demo_deps (FileDesc TypeTable 1) ''abc'') ?s = (Some ?e, t)"
    by (rule wp_obtain)
  have j: "pending_path ?s ''000001.ldb'' = ''/c/db/pending_uploads/000001.ldb''"
    by (simp add: pending_path_def fmt_simps)
  have ready: "disk_ready ?s (fdString demo_deps (FileDesc TypeTable 1))"
    unfolding disk_ready_def demo_deps_simps demo_fd j
    by (simp add: demo_storage_def temp_supply_def host_eval path_eval fmt_eval)
  have "clean_dir (pendingDir ?s)" by simp
  from failed_upload_is_persisted [OF demo_env demo_fd(1) this ready t] t show ?thesis
    unfolding demo_deps_simps demo_fd j by simp
qed

end
