(* ===== verification/Storage_Files.thy ===== *)
theory Storage_Files
  imports Storage_State
begin

text \<open>
  The operations of goleveldb's \<^verbatim>\<open>storage.Storage\<close> interface on files and on the \<^verbatim>\<open>CURRENT\<close>
  pointer, as \<^verbatim>\<open>S3Storage\<close> implements them (\<^verbatim>\<open>s3/storage.go\<close>): readers and writers, \<open>SetMeta\<close>,
  \<open>GetMeta\<close>, \<open>List\<close>, \<open>Open\<close> and \<open>Create\<close>. Each of them holds the mutex of the storage from start to
  end, so each is one step.
\<close>

section \<open>Readers and writers\<close>

record memReader =
  rd_data :: bytes
  rd_closed :: bool

definition memReader_Close :: "memReader \<Rightarrow> error option \<times> memReader" where
  "memReader_Close r = (if rd_closed r then (Some StorageErrClosed, r) else (None, r\<lparr>rd_closed := True\<rparr>))"

abbreviation new_reader :: "bytes \<Rightarrow> memReader" where
  "new_reader data \<equiv> \<lparr>rd_data = data, rd_closed = False\<rparr>"

text \<open>
  The two closures that \<open>Create\<close> stores in \<^verbatim>\<open>syncFn\<close>. The path is the local cache file of journals
  and manifests.
\<close>

datatype sync_fn = UploadOnly | LocalThenUpload string

lemma wp_sync_fn [wp_simps]:
  "wp (case x of UploadOnly \<Rightarrow> f | LocalThenUpload p \<Rightarrow> g p) Q s
     = (case x of UploadOnly \<Rightarrow> wp f Q s | LocalThenUpload p \<Rightarrow> wp (g p) Q s)"
  by (simp split: sync_fn.split)

record memWriter =
  mw_fd :: file_desc
  mw_buf :: bytes
  mw_closed :: bool
  mw_syncFn :: "sync_fn option"
  mw_localPath :: string

definition run_syncFn :: "('w, 'c) storage_deps \<Rightarrow> memWriter \<Rightarrow> (('w, 'c) S3Storage, error option) state" where
  "run_syncFn D w =
     (case mw_syncFn w of
        None \<Rightarrow> ret None
      | Some f \<Rightarrow> (case f of
          UploadOnly \<Rightarrow> uploadFile D (mw_fd w) (mw_buf w)
        | LocalThenUpload localPath \<Rightarrow> do {
            e \<leftarrow> on_disk (atomicWriteFile localPath (mw_buf w));
            case e of
              Inl err \<Rightarrow> ret (Some (Wrapf ''failed to write local cache'' err))
            | Inr _ \<Rightarrow> uploadFile D (mw_fd w) (mw_buf w) }))"

definition memWriter_Write ::
  "memWriter \<Rightarrow> bytes \<Rightarrow> (('w, 'c) S3Storage, (nat \<times> error option) \<times> memWriter) state"
where
  "memWriter_Write w p =
     (if mw_closed w then ret ((0, Some StorageErrClosed), w)
      else do {
        let w' = w\<lparr>mw_buf := mw_buf w @ p\<rparr>;
        (if mw_localPath w' \<noteq> '''' then do { on_disk (atomicWriteFile (mw_localPath w') (mw_buf w')); ret () }
         else ret ());
        ret ((length p, None), w') })"

definition memWriter_Sync ::
  "('w, 'c) storage_deps \<Rightarrow> memWriter \<Rightarrow> (('w, 'c) S3Storage, error option) state"
where
  "memWriter_Sync D w = (if mw_closed w then ret (Some StorageErrClosed) else run_syncFn D w)"

definition memWriter_Close ::
  "('w, 'c) storage_deps \<Rightarrow> memWriter \<Rightarrow> (('w, 'c) S3Storage, error option \<times> memWriter) state"
where
  "memWriter_Close D w =
     (if mw_closed w then ret (Some StorageErrClosed, w)
      else do { e \<leftarrow> run_syncFn D w; ret (e, w\<lparr>mw_closed := True\<rparr>) })"

section \<open>The common prologue\<close>

text \<open>
  The operations that write start with the same two tests; \<open>err\<close> makes the result of an error.
\<close>

definition guarded :: "(error \<Rightarrow> 'r) \<Rightarrow> (('w, 'c) S3Storage, 'r) state \<Rightarrow> (('w, 'c) S3Storage, 'r) state" where
  "guarded err body = do {
     c \<leftarrow> gets closed;
     lost \<leftarrow> gets lockLost;
     if c then ret (err StorageErrClosed)
     else if lost then ret (err ErrLockLost)
     else body }"

lemma wp_guarded:
  assumes "closed s \<Longrightarrow> Q (err StorageErrClosed) s" and "\<not> closed s \<Longrightarrow> lockLost s \<Longrightarrow> Q (err ErrLockLost) s"
    and "\<not> closed s \<Longrightarrow> \<not> lockLost s \<Longrightarrow> wp body Q s"
  shows "wp (guarded err body) Q s"
  using assms by (simp add: guarded_def wp_simps)

lemma guarded_closed: "closed s \<Longrightarrow> run_state (guarded err body) s = (err StorageErrClosed, s)"
  by (simp add: guarded_def gets_def)

lemma guarded_lost: "\<not> closed s \<Longrightarrow> lockLost s \<Longrightarrow> run_state (guarded err body) s = (err ErrLockLost, s)"
  by (simp add: guarded_def gets_def)

section \<open>The current manifest\<close>

definition SetMeta :: "('w, 'c) storage_deps \<Rightarrow> file_desc \<Rightarrow> (('w, 'c) S3Storage, error option) state" where
  "SetMeta D fd = guarded Some (do {
     e \<leftarrow> on_net (api_PutBytes (api D) StorageCtx ''CURRENT'' (fdString D fd @ [CHR 0x0A]));
     case e of Some err \<Rightarrow> ret (Some (Wrapf ''failed to set meta'' err)) | None \<Rightarrow> ret None })"

text \<open>\<open>GetMeta\<close> in three steps: is there a pointer, what does it say, is its target there.\<close>

definition meta_target :: "('w, 'c) storage_deps \<Rightarrow> file_desc \<Rightarrow> (('w, 'c) S3Storage, error + file_desc) state" where
  "meta_target D fd = do {
     e \<leftarrow> on_net (api_Exists (api D) StorageCtx (fdString D fd));
     case e of
       Inl err \<Rightarrow> ret (Inl (Wrapf ''failed to check meta file existence'' err))
     | Inr found \<Rightarrow> ret (if \<not> found then Inl OsErrNotExist else Inr fd) }"

definition read_meta :: "('w, 'c) storage_deps \<Rightarrow> (('w, 'c) S3Storage, error + file_desc) state" where
  "read_meta D = do {
     r \<leftarrow> on_net (api_GetBytes (api D) StorageCtx ''CURRENT'');
     case r of
       Inl err \<Rightarrow> ret (Inl (Wrapf ''failed to get meta'' err))
     | Inr data \<Rightarrow> (case parseFileDesc (TrimSpace data) of
           None \<Rightarrow> ret (Inl (NewError (''invalid CURRENT file content: '' @ TrimSpace data)))
         | Some fd \<Rightarrow> meta_target D fd) }"

definition GetMeta :: "('w, 'c) storage_deps \<Rightarrow> (('w, 'c) S3Storage, error + file_desc) state" where
  "GetMeta D = do {
     c \<leftarrow> gets closed;
     if c then ret (Inl StorageErrClosed)
     else do {
       e \<leftarrow> on_net (api_Exists (api D) StorageCtx ''CURRENT'');
       case e of
         Inl err \<Rightarrow> ret (Inl (Wrapf ''failed to check CURRENT existence'' err))
       | Inr found \<Rightarrow> (if \<not> found then ret (Inl OsErrNotExist) else read_meta D) } }"

section \<open>Listing\<close>

definition has_type :: "('w, 'c) storage_deps \<Rightarrow> int \<Rightarrow> file_desc \<Rightarrow> bool" where
  "has_type D ft fd = (and (typeBits D (fd_Type fd)) ft \<noteq> 0)"

definition is_data_entry :: "string \<times> bool \<Rightarrow> bool" where
  "is_data_entry = (\<lambda>(name, isDir). \<not> isDir \<and> \<not> HasSuffix name ''.cksum'')"

definition pending_fds :: "(('w, 'c) S3Storage, file_desc list) state" where
  "pending_fds = do {
     dir \<leftarrow> gets pendingDir;
     if dir = '''' then ret [] else do {
       entries \<leftarrow> on_disk (os_ReadDir dir);
       ret (case entries of
          Inl _ \<Rightarrow> []
        | Inr es \<Rightarrow> List.map_filter (\<lambda>e. if is_data_entry e then parseFileDesc (fst e) else None) es) } }"

definition List_files :: "('w, 'c) storage_deps \<Rightarrow> int \<Rightarrow> (('w, 'c) S3Storage, error + file_desc list) state" where
  "List_files D ft = do {
     c \<leftarrow> gets closed;
     if c then ret (Inl StorageErrClosed)
     else do {
       r \<leftarrow> on_net (api_List (api D) StorageCtx);
       case r of
         Inl err \<Rightarrow> ret (Inl (Wrapf ''failed to list files'' err))
       | Inr allFiles \<Rightarrow> do {
           pendingFiles \<leftarrow> pending_fds;
           let seen = map (fdString D) pendingFiles;
           ret (Inr (filter (has_type D ft) pendingFiles
             @ filter (\<lambda>fd. fdString D fd \<notin> set seen \<and> has_type D ft fd) allFiles)) } } }"

section \<open>Opening and creating\<close>

definition cache_get :: "('w, 'c) storage_deps \<Rightarrow> file_desc \<Rightarrow> (('w, 'c) S3Storage, memFile option) state" where
  "cache_get D fd = State (\<lambda>s. case cache_Get (lru D) (makeCacheKey D fd) (cache s) of (r, c) \<Rightarrow> (r, s\<lparr>cache := c\<rparr>))"

definition open_pending :: "string \<Rightarrow> error \<Rightarrow> (('w, 'c) S3Storage, error + memReader) state" where
  "open_pending name err = do {
     dir \<leftarrow> gets pendingDir;
     local \<leftarrow> (if dir = '''' then ret (Inl err) else on_disk (os_ReadFile (filepath_Join [dir, name])));
     case local of
       Inr localData \<Rightarrow> ret (Inr (new_reader localData))
     | Inl _ \<Rightarrow>
         ret (Inl (if errors_Is err OsErrNotExist \<or> isNotFoundError err then OsErrNotExist
                   else Wrapf (''failed to open file '' @ name) err)) }"

definition Open :: "('w, 'c) storage_deps \<Rightarrow> file_desc \<Rightarrow> (('w, 'c) S3Storage, error + memReader) state" where
  "Open D fd = do {
     c \<leftarrow> gets closed;
     if c then ret (Inl StorageErrClosed)
     else do {
       hit \<leftarrow> cache_get D fd;
       case hit of
         Some file \<Rightarrow> ret (Inr (new_reader (mf_data file)))
       | None \<Rightarrow> do {
           r \<leftarrow> on_net (api_GetBytes (api D) StorageCtx (fdString D fd));
           case r of
             Inr data \<Rightarrow> do {
               maxSize \<leftarrow> gets (\<lambda>s. MaxFileSize (opt s));
               (if int (length data) \<le> maxSize then cache_add D fd data else ret ());
               ret (Inr (new_reader data)) }
           | Inl err \<Rightarrow> open_pending (fdString D fd) err } } }"

definition Create :: "('w, 'c) storage_deps \<Rightarrow> file_desc \<Rightarrow> (('w, 'c) S3Storage, error + memWriter) state" where
  "Create D fd = guarded Inl (do {
     let writer = \<lparr>mw_fd = fd, mw_buf = '''', mw_closed = False, mw_syncFn = Some UploadOnly, mw_localPath = ''''\<rparr>;
     cache_add D fd '''';
     local \<leftarrow> gets (\<lambda>s. shouldCacheLocally s fd);
     if \<not> local then ret (Inr writer)
     else do {
       dir \<leftarrow> gets localDir;
       let localPath = filepath_Join [dir, fdString D fd];
       e \<leftarrow> on_disk (os_MkdirAll (filepath_Dir localPath));
       case e of
         Inl err \<Rightarrow> ret (Inl (Wrapf ''failed to create local dir'' err))
       | Inr _ \<Rightarrow> ret (Inr (writer\<lparr>mw_localPath := localPath, mw_syncFn := Some (LocalThenUpload localPath)\<rparr>)) } })"

section \<open>Effects\<close>

lemma cksum_path_not_name [simp]: "p @ ''.cksum'' \<noteq> p" "p \<noteq> p @ ''.cksum''"
  by simp_all

definition local_path :: "('w, 'c) S3Storage \<Rightarrow> string \<Rightarrow> string" where
  "local_path s name = filepath_Join [localDir s, name]"

text \<open>The descriptor that the content of \<^verbatim>\<open>CURRENT\<close> stands for.\<close>

definition current_fd :: "(string \<Rightarrow> bytes option) \<Rightarrow> file_desc option" where
  "current_fd objs = (case objs ''CURRENT'' of None \<Rightarrow> None | Some d \<Rightarrow> parseFileDesc (TrimSpace d))"

text \<open>The files of the pending directory, and the descriptors that their names stand for.\<close>

definition pending_data :: "('w, 'c) S3Storage \<Rightarrow> string \<Rightarrow> bytes option" where
  "pending_data s name = data_at (disk s) (dir_prefix (pendingDir s) @ name)"

definition pending_set :: "('w, 'c) S3Storage \<Rightarrow> file_desc set" where
  "pending_set s = {fd. \<exists>n. n \<noteq> [] \<and> CHR ''/'' \<notin> set n \<and> pending_data s n \<noteq> None
     \<and> \<not> HasSuffix n ''.cksum'' \<and> parseFileDesc n = Some fd}"

context storage_env
begin

lemma wp_cache_get:
  assumes "\<And>c. content c = content (cache s) \<Longrightarrow> Q (content (cache s) (fdString D fd)) (s\<lparr>cache := c\<rparr>)"
  shows "wp (cache_get D fd) Q s"
proof -
  obtain r c where g: "cache_Get (lru D) (fdString D fd) (cache s) = (r, c)" by force
  then have "r = content (cache s) (fdString D fd)" by (rule get_result)
  moreover have "content c = content (cache s)" using g by (rule get_content)
  ultimately show ?thesis using assms g by (simp add: cache_get_def wp_def makeCacheKey_def)
qed

lemma SetMeta_effect:
  "wp (SetMeta D fd) (\<lambda>r t. within view {''CURRENT''} {} s t \<and> disk t = disk s \<and> cache t = cache s
     \<and> (closed s \<longrightarrow> r = Some StorageErrClosed \<and> t = s)
     \<and> (\<not> closed s \<and> lockLost s \<longrightarrow> r = Some ErrLockLost \<and> t = s)
     \<and> view (net t) ''CURRENT'' \<in> {view (net s) ''CURRENT'', Some (fdString D fd @ [CHR 0x0A])}
     \<and> (r = None \<longrightarrow> view (net t) ''CURRENT'' = Some (fdString D fd @ [CHR 0x0A]))) s"
  unfolding SetMeta_def by (auto simp: wp_simps within_def intro!: wp_guarded wp_put)

end

context storage_env
begin

lemma GetMeta_effect:
  "wp (GetMeta D) (\<lambda>r t. within view {} {} s t \<and> disk t = disk s \<and> cache t = cache s
     \<and> (closed s \<longrightarrow> r = Inl StorageErrClosed)
     \<and> (\<forall>fd. r = Inr fd \<longrightarrow> current_fd (view (net s)) = Some fd \<and> view (net s) (fdString D fd) \<noteq> None)
     \<and> (r = Inl OsErrNotExist \<longrightarrow> view (net s) ''CURRENT'' = None
          \<or> (\<exists>fd. current_fd (view (net s)) = Some fd \<and> view (net s) (fdString D fd) = None))) s"
  unfolding GetMeta_def read_meta_def meta_target_def
  by (auto simp: wp_simps within_def current_fd_def intro!: wp_exists wp_get split: option.split)

text \<open>The current manifest as \<open>SetMeta\<close> writes it is read back.\<close>

lemma current_fd_written:
  assumes "valid_fd fd" and "objs ''CURRENT'' = Some (fdString D fd @ [CHR 0x0A])"
  shows "current_fd objs = Some fd"
proof -
  have "TrimSpace (fdString D fd @ [CHR 0x0A]) = fdString D fd"
    using name_not_Nil [OF assms(1)] name_chars(2) [OF assms(1)] by (intro TrimSpace_newline) auto
  then show ?thesis using assms parse_name by (simp add: current_fd_def)
qed

lemma if_Some: "(if P then x else None) = Some y \<longleftrightarrow> P \<and> x = Some y"
  by simp

lemma wp_pending_fds:
  assumes "\<And>fds h. data_at h = data_at (disk s) \<Longrightarrow> (fds = [] \<or> pendingDir s \<noteq> '''' \<and> set fds = pending_set s) \<Longrightarrow>
      Q fds (s\<lparr>disk := h\<rparr>)"
  shows "wp pending_fds Q s"
proof (cases "pendingDir s = ''''")
  case True
  then show ?thesis using assms [of "disk s" "[]"] by (simp add: pending_fds_def wp_simps)
next
  case False
  let ?f = "\<lambda>e. if is_data_entry e then parseFileDesc (fst e) else None"
  have "wp (on_disk (os_ReadDir (pendingDir s))) (\<lambda>entries. wp (ret (case entries of
          Inl _ \<Rightarrow> [] | Inr es \<Rightarrow> List.map_filter ?f es)) Q) s"
  proof (rule wp_ReadDir, goal_cases)
    case (1 es h)
    have "fd \<in> set (List.map_filter ?f es) \<longleftrightarrow> fd \<in> pending_set s" for fd
    proof -
      have "fd \<in> set (List.map_filter ?f es)
          \<longleftrightarrow> (\<exists>n. (n, False) \<in> set es \<and> \<not> HasSuffix n ''.cksum'' \<and> parseFileDesc n = Some fd)"
        unfolding set_map_filter_iff if_Some Bex_def split_paired_Ex
        by (simp add: is_data_entry_def) (metis (full_types))
      then show ?thesis by (simp add: 1(4) pending_set_def pending_data_def conj_assoc)
    qed
    then have "set (List.map_filter ?f es) = pending_set s" by blast
    then show ?case using 1(1) False by (simp add: wp_return assms)
  next
    case (2 e h)
    then show ?case by (simp add: wp_return assms)
  qed
  then show ?thesis using False by (simp only: pending_fds_def wp_bind wp_gets if_False)
qed

lemma List_effect:
  "wp (List_files D ft) (\<lambda>r t. within view {} {} s t \<and> cache t = cache s
     \<and> (closed s \<longrightarrow> r = Inl StorageErrClosed)
     \<and> (\<forall>fds. r = Inr fds \<longrightarrow> (\<exists>pend. (pend = {} \<or> pendingDir s \<noteq> '''' \<and> pend = pending_set s)
          \<and> set fds = {fd. has_type D ft fd \<and> (fd \<in> pend \<or> fd \<in> listed_fds (view (net s)) \<and> fdString D fd \<notin> fdString D ` pend)}))) s"
    (is "wp _ ?Q s")
proof -
  have pend: "wp pending_fds (\<lambda>pendingFiles. wp (Let (map (fdString D) pendingFiles) (\<lambda>seen. 
        ret (Inr (filter (has_type D ft) pendingFiles
             @ filter (\<lambda>fd. fdString D fd \<notin> set seen \<and> has_type D ft fd) allFiles)))) Q) u"
    if "\<And>fds h. data_at h = data_at (disk u) \<Longrightarrow> (fds = [] \<or> pendingDir u \<noteq> '''' \<and> set fds = pending_set u) \<Longrightarrow>
      Q (Inr (filter (has_type D ft) fds @ filter (\<lambda>fd. fdString D fd \<notin> fdString D ` set fds \<and> has_type D ft fd) allFiles))
        (u\<lparr>disk := h\<rparr>)" for allFiles Q u
    by (rule wp_pending_fds) (use that in \<open>simp add: wp_simps Let_def\<close>)
  have set_eq: "set (filter (has_type D ft) fds @ filter (\<lambda>fd. fdString D fd \<notin> fdString D ` set fds \<and> has_type D ft fd) all)
      = {fd. has_type D ft fd \<and> (fd \<in> set fds \<or> fd \<in> set all \<and> fdString D fd \<notin> fdString D ` set fds)}" for fds all
    by auto
  show "wp (List_files D ft) ?Q s"
  proof (cases "closed s")
    case True
    then show ?thesis by (simp add: List_files_def wp_simps)
  next
    case False
    have "wp (on_net (api_List (api D) StorageCtx)) (\<lambda>r. wp (case r of
         Inl err \<Rightarrow> ret (Inl (Wrapf ''failed to list files'' err))
       | Inr allFiles \<Rightarrow> do {
           pendingFiles \<leftarrow> pending_fds;
           let seen = map (fdString D) pendingFiles;
           ret (Inr (filter (has_type D ft) pendingFiles
             @ filter (\<lambda>fd. fdString D fd \<notin> set seen \<and> has_type D ft fd) allFiles)) }) ?Q) s"
    proof (rule wp_list, goal_cases)
    case (1 fds w)
    then show ?case
      unfolding sum.case wp_bind
    proof (intro pend, goal_cases)
      case (1 fds' h)
      have "pending_set (s\<lparr>net := w\<rparr>) = pending_set s" by (simp add: pending_set_def pending_data_def)
      with 1 have p: "set fds' = {} \<or> pendingDir s \<noteq> [] \<and> set fds' = pending_set s" by auto
      have "within view {} {} s (s\<lparr>net := w, disk := h\<rparr>)"
        using 1 \<open>view w = view (net s)\<close> by (simp add: within_def)
      moreover note set_eq [of fds' fds]
      ultimately show ?case using p False \<open>set fds = _\<close> by auto
    qed
  next
    case (2 e w)
    then show ?case using False by (simp add: wp_return within_def)
  qed
  then show ?thesis using False by (simp only: List_files_def wp_bind [of "gets _"] wp_bind [of "on_net _"] wp_gets if_False)
  qed
qed

lemma open_pending_effect:
  assumes "\<And>h d. data_at h = data_at (disk s) \<Longrightarrow> pendingDir s \<noteq> '''' \<Longrightarrow>
      data_at (disk s) (pending_path s name) = Some d \<Longrightarrow> Q (Inr (new_reader d)) (s\<lparr>disk := h\<rparr>)"
    and "\<And>h e. data_at h = data_at (disk s) \<Longrightarrow>
      (e = OsErrNotExist \<Longrightarrow> errors_Is err OsErrNotExist \<or> isNotFoundError err) \<Longrightarrow> Q (Inl e) (s\<lparr>disk := h\<rparr>)"
  shows "wp (open_pending name err) Q s"
proof (cases "pendingDir s = ''''")
  case True
  then show ?thesis using assms(2) [of "disk s"] by (auto simp: open_pending_def wp_simps)
next
  case False
  have "wp (on_disk (os_ReadFile (pending_path s name)))
      (\<lambda>local. wp (case local of
         Inr localData \<Rightarrow> ret (Inr (new_reader localData))
       | Inl _ \<Rightarrow> ret (Inl (if errors_Is err OsErrNotExist \<or> isNotFoundError err then OsErrNotExist
                   else Wrapf (''failed to open file '' @ name) err))) Q) s"
    by (rule wp_ReadFile) (use assms False in \<open>auto simp: wp_simps\<close>)
  then show ?thesis using False by (simp only: open_pending_def wp_bind wp_gets if_False pending_path_def)
qed

lemma Open_effect:
  "wp (Open D fd) (\<lambda>r t. same_config s t \<and> view (net t) = view (net s) \<and> data_at (disk t) = data_at (disk s)
     \<and> (closed s \<longrightarrow> r = Inl StorageErrClosed)
     \<and> (\<forall>k f. content (cache t) k = Some f \<longrightarrow> content (cache s) k = Some f
          \<or> k = fdString D fd \<and> view (net s) k = Some (mf_data f))
     \<and> (\<forall>rd. r = Inr rd \<longrightarrow> \<not> rd_closed rd \<and>
          (case content (cache s) (fdString D fd) of
             Some f \<Rightarrow> rd_data rd = mf_data f
           | None \<Rightarrow> view (net s) (fdString D fd) = Some (rd_data rd)
              \<or> pendingDir s \<noteq> '''' \<and> data_at (disk s) (pending_path s (fdString D fd)) = Some (rd_data rd)))
     \<and> (r = Inl OsErrNotExist \<longrightarrow> content (cache s) (fdString D fd) = None \<and> view (net s) (fdString D fd) = None)) s"
proof -
  have add: "content (cache_Add (lru D) k f c) k' = Some g \<Longrightarrow>
      k' \<noteq> k \<and> content c k' = Some g \<or> k' = k \<and> g = f" for k f c k' g
    using add_cases by metis
  show ?thesis
    unfolding Open_def cache_add_def makeCacheKey_def
    by (auto simp: wp_simps intro!: wp_cache_get wp_get open_pending_effect split: option.split dest!: add)
qed

end

section \<open>Writing a file\<close>

text \<open>The writer that \<open>Create\<close> makes, and a client that writes a whole file.\<close>

definition new_writer :: "('w, 'c) storage_deps \<Rightarrow> ('w, 'c) S3Storage \<Rightarrow> file_desc \<Rightarrow> memWriter" where
  "new_writer D s fd =
     (if shouldCacheLocally s fd
      then \<lparr>mw_fd = fd, mw_buf = '''', mw_closed = False,
        mw_syncFn = Some (LocalThenUpload (local_path s (fdString D fd))), mw_localPath = local_path s (fdString D fd)\<rparr>
      else \<lparr>mw_fd = fd, mw_buf = '''', mw_closed = False, mw_syncFn = Some UploadOnly, mw_localPath = ''''\<rparr>)"

definition write_chunks :: "memWriter \<Rightarrow> bytes list \<Rightarrow> (('w, 'c) S3Storage, memWriter) state" where
  "write_chunks = fold_each (\<lambda>w p. do { r \<leftarrow> memWriter_Write w p; ret (snd r) })"

definition write_file ::
  "('w, 'c) storage_deps \<Rightarrow> file_desc \<Rightarrow> bytes list \<Rightarrow> (('w, 'c) S3Storage, error option) state"
where
  "write_file D fd chunks = do {
     r \<leftarrow> Create D fd;
     case r of
       Inl e \<Rightarrow> ret (Some e)
     | Inr w \<Rightarrow> do {
         w' \<leftarrow> write_chunks w chunks;
         c \<leftarrow> memWriter_Close D w';
         ret (fst c) } }"

text \<open>Only files changed.\<close>

definition disk_only :: "('w, 'c) S3Storage \<Rightarrow> ('w, 'c) S3Storage \<Rightarrow> bool" where
  "disk_only s t = (t = s\<lparr>disk := disk t\<rparr>)"

lemma disk_only_refl [simp]: "disk_only s s"
  by (simp add: disk_only_def)

lemma disk_only_upd [simp]: "disk_only s (t\<lparr>disk := h\<rparr>) = disk_only s t"
  unfolding disk_only_def by (cases s; cases t) auto

lemma disk_only_trans: "disk_only s t \<Longrightarrow> disk_only t u \<Longrightarrow> disk_only s u"
  unfolding disk_only_def by (cases s; cases t; cases u) auto

lemma disk_only_fields:
  assumes "disk_only s t"
  shows "same_config s t" and "net t = net s" and "cache t = cache s"
  using assms unfolding disk_only_def same_config_def by (cases s; cases t; simp)+

lemma wp_Write:
  assumes "mw_closed w \<Longrightarrow> Q ((0, Some StorageErrClosed), w) s"
    and "\<And>t. \<not> mw_closed w \<Longrightarrow> disk_only s t \<Longrightarrow> Q ((length p, None), w\<lparr>mw_buf := mw_buf w @ p\<rparr>) t"
  shows "wp (memWriter_Write w p) Q s"
  unfolding memWriter_Write_def
  by (auto simp: wp_simps Let_def intro!: wp_on_disk_any assms)

lemma write_chunks_effect:
  "\<not> mw_closed w \<Longrightarrow> wp (write_chunks w ps) (\<lambda>w' t. w' = w\<lparr>mw_buf := mw_buf w @ concat ps\<rparr> \<and> disk_only s t) s"
proof (induction ps arbitrary: w s)
  case Nil
  then show ?case by (simp add: write_chunks_def wp_simps)
next
  case (Cons p ps)
  have "wp (write_chunks (w\<lparr>mw_buf := mw_buf w @ p\<rparr>) ps)
      (\<lambda>w' u. w' = w\<lparr>mw_buf := mw_buf w @ concat (p # ps)\<rparr> \<and> disk_only s u) t" if "disk_only s t" for t
    using Cons.IH [of "w\<lparr>mw_buf := mw_buf w @ p\<rparr>" t] Cons.prems
    by (auto elim!: wp_weaken intro: disk_only_trans [OF that])
  then show ?case
    using Cons.prems unfolding write_chunks_def fold_each.simps wp_bind
    by (intro wp_Write) (auto simp: wp_return)
qed

context storage_env
begin

lemma wp_Create:
  assumes "closed s \<Longrightarrow> Q (Inl StorageErrClosed) s" and "\<not> closed s \<Longrightarrow> lockLost s \<Longrightarrow> Q (Inl ErrLockLost) s"
    and "\<And>t. \<not> closed s \<Longrightarrow> \<not> lockLost s \<Longrightarrow> data_at (disk t) = data_at (disk s) \<Longrightarrow>
      disk_only (s\<lparr>cache := cache_Add (lru D) (fdString D fd) \<lparr>mf_fd = fd, mf_data = ''''\<rparr> (cache s)\<rparr>) t \<Longrightarrow>
      Q (Inr (new_writer D s fd)) t \<and> (\<forall>e. Q (Inl (Wrapf ''failed to create local dir'' e)) t)"
  shows "wp (Create D fd) Q s"
proof -
  let ?u = "s\<lparr>cache := cache_Add (lru D) (fdString D fd) \<lparr>mf_fd = fd, mf_data = ''''\<rparr> (cache s)\<rparr>"
  have c: "cache_update (cache_Add (lru D) (fdString D fd) \<lparr>mf_fd = fd, mf_data = ''''\<rparr>) s = ?u" by simp
  have sc: "shouldCacheLocally ?u fd = shouldCacheLocally s fd" by (simp add: shouldCacheLocally_def)
  show ?thesis
    unfolding Create_def
  proof (rule wp_guarded, goal_cases)
    case 3
    have f: "Q (Inr (new_writer D s fd)) (?u\<lparr>disk := h\<rparr>)"
      "Q (Inl (Wrapf ''failed to create local dir'' e)) (?u\<lparr>disk := h\<rparr>)" if "data_at h = data_at (disk s)" for h e
      using assms(3) [OF 3, of "?u\<lparr>disk := h\<rparr>"] that by auto
    have n: "Q (Inr (new_writer D s fd)) ?u" using f(1) [of "disk s"] by simp
    note start = wp_let wp_bind cache_add_def makeCacheKey_def wp_modify c wp_gets sc
    show ?case
    proof (cases "shouldCacheLocally s fd")
      case True
      then show ?thesis
        unfolding start
        using f by (auto simp: wp_simps new_writer_def local_path_def intro!: wp_MkdirAll split: sum.split)
    next
      case False
      then show ?thesis unfolding start using n by (simp add: wp_simps new_writer_def)
    qed
  qed (use assms(1,2) in auto)
qed

end

text \<open>The outcome of \<open>Sync\<close> and \<open>Close\<close> on an open writer.\<close>

definition synced ::
  "('w, 'c) storage_deps \<Rightarrow> ('w \<Rightarrow> string \<Rightarrow> bytes option) \<Rightarrow> file_desc \<Rightarrow> bytes
     \<Rightarrow> ('w, 'c) S3Storage \<Rightarrow> error option \<Rightarrow> ('w, 'c) S3Storage \<Rightarrow> bool"
where
  "synced D view fd data s r t =
     (let n = fdString D fd in
        within view {n, shadow_key s n} UNIV s t
      \<and> (lockLost s \<longrightarrow> r \<noteq> None \<and> net t = net s \<and> cache t = cache s)
      \<and> (case r of
           None \<Rightarrow> view (net t) n = Some data \<and> cache t = cache_Add (lru D) n \<lparr>mf_fd = fd, mf_data = data\<rparr> (cache s)
         | Some e \<Rightarrow> cache t = cache s \<and> view (net t) n \<in> {view (net s) n, Some data}))"

context storage_env
begin

lemma uploadFile_synced:
  assumes "valid_fd fd" and "wf_dirs s" and "disk_only s u"
  shows "wp (uploadFile D fd data) (synced D view fd data s) u"
proof -
  have u: "same_config s u" "net u = net s" "cache u = cache s" using disk_only_fields [OF assms(3)] by simp_all
  then have "pendingDir u = '''' \<or> clean_dir (pendingDir u)"
    using assms(2) by (simp add: wf_dirs_def same_config_def)
  from uploadFile_effect [OF assms(1) this] show ?thesis
  proof (rule wp_weaken)
    fix r t assume "uploaded D view fd data u r t"
    moreover have "shadow_key u n = shadow_key s n" "lockLost u = lockLost s" for n
      using u by (simp_all add: same_config_def shadow_key_def)
    ultimately show "synced D view fd data s r t"
      using u by (auto simp: uploaded_def synced_def Let_def within_def intro: same_config_trans split: option.splits)
  qed
qed

lemma run_syncFn_effect:
  assumes "valid_fd (mw_fd w)" and "wf_dirs s" and "mw_syncFn w \<noteq> None" and "disk_only s u"
  shows "wp (run_syncFn D w) (synced D view (mw_fd w) (mw_buf w) s) u"
proof (cases "mw_syncFn w")
  case (Some f)
  show ?thesis
  proof (cases f)
    case UploadOnly
    then show ?thesis using Some uploadFile_synced [OF assms(1,2,4)] by (simp add: run_syncFn_def)
  next
    case (LocalThenUpload p)
    have fail: "synced D view (mw_fd w) (mw_buf w) s (Some e) (u\<lparr>disk := h\<rparr>)" for e h
      using disk_only_fields [OF assms(4)] by (simp add: synced_def within_def Let_def)
    have "disk_only s (u\<lparr>disk := h\<rparr>)" for h using assms(4) by simp
    then show ?thesis
      unfolding run_syncFn_def Some option.case LocalThenUpload sync_fn.case
      by (auto simp: wp_simps intro!: wp_on_disk_any uploadFile_synced [OF assms(1,2)] fail split: sum.split)
  qed
qed (use assms(3) in simp)

lemma Close_effect:
  assumes "valid_fd (mw_fd w)" and "wf_dirs s" and "mw_syncFn w \<noteq> None" and "\<not> mw_closed w" and "disk_only s u"
  shows "wp (memWriter_Close D w)
    (\<lambda>r t. snd r = w\<lparr>mw_closed := True\<rparr> \<and> synced D view (mw_fd w) (mw_buf w) s (fst r) t) u"
  unfolding memWriter_Close_def using assms(4)
  by (simp add: wp_simps wp_fun) (rule wp_weaken [OF run_syncFn_effect [OF assms(1-3,5)]], simp)

lemma write_file_effect:
  assumes "valid_fd fd" and "wf_dirs s"
  shows "wp (write_file D fd chunks) (\<lambda>r t.
       (closed s \<longrightarrow> r = Some StorageErrClosed \<and> t = s)
     \<and> (\<not> closed s \<and> lockLost s \<longrightarrow> r = Some ErrLockLost \<and> t = s)
     \<and> (\<not> closed s \<and> \<not> lockLost s \<longrightarrow>
          synced D view fd (concat chunks)
            (s\<lparr>cache := cache_Add (lru D) (fdString D fd) \<lparr>mf_fd = fd, mf_data = ''''\<rparr> (cache s)\<rparr>) r t)) s"
proof -
  let ?u = "s\<lparr>cache := cache_Add (lru D) (fdString D fd) \<lparr>mf_fd = fd, mf_data = ''''\<rparr> (cache s)\<rparr>"
  have wf: "wf_dirs ?u" using assms(2) by (simp add: wf_dirs_def)
  let ?w = "\<lambda>b. (new_writer D s fd)\<lparr>mw_buf := b\<rparr>"
  have w: "mw_fd (?w b) = fd" "mw_syncFn (?w b) \<noteq> None" "\<not> mw_closed (?w b)" "mw_buf (?w b) = b" for b
    by (simp_all add: new_writer_def)
  have buf: "mw_buf (new_writer D s fd) = []" "\<not> mw_closed (new_writer D s fd)" by (simp_all add: new_writer_def)
  have close: "wp (memWriter_Close D (?w b)) (\<lambda>c. synced D view fd b ?u (fst c)) v" if "disk_only ?u v" for b v
    using Close_effect [of "?w b" ?u v] assms(1) wf w that by (simp only:) (auto elim: wp_weaken)
  have rest: "wp (write_chunks (new_writer D s fd) chunks)
      (\<lambda>w'. wp (memWriter_Close D w') (\<lambda>c. synced D view fd (concat chunks) ?u (fst c))) t" if "disk_only ?u t" for t
    by (rule wp_weaken [OF write_chunks_effect [OF buf(2)]])
      (use that close in \<open>auto simp: buf intro: disk_only_trans\<close>)
  show ?thesis
    unfolding write_file_def wp_bind
  proof (rule wp_Create, goal_cases)
    case (3 t)
    then have "synced D view fd (concat chunks) ?u (Some e) t" for e
      using disk_only_fields [of ?u t] by (simp add: synced_def within_def Let_def)
    then show ?case using rest [of t] 3 by (simp add: wp_simps wp_fun)
  qed (simp_all add: wp_return)
qed

text \<open>An object in the cache is served from the cache.\<close>

lemma Open_cached:
  assumes "\<not> closed s" and "content (cache s) (fdString D fd) = Some f"
  shows "fst (run_state (Open D fd) s) = Inr (new_reader (mf_data f))"
proof -
  have "wp (Open D fd) (\<lambda>r t. r = Inr (new_reader (mf_data f))) s"
    unfolding Open_def using assms by (auto simp: wp_simps intro!: wp_cache_get)
  then show ?thesis by (simp add: wp_def split: prod.splits)
qed

end

section \<open>Properties\<close>

lemmas write_file_run = storage_env.write_file_effect [THEN wp_run]

lemmas files_exec = storage_exec wp_sync_fn
  memWriter_Write_def [THEN wp_unfold] memWriter_Close_def [THEN wp_unfold] run_syncFn_def [THEN wp_unfold]
  guarded_def [THEN wp_unfold] Create_def [THEN wp_unfold] write_file_def [THEN wp_unfold]
  SetMeta_def [THEN wp_unfold] List_files_def [THEN wp_unfold] pending_fds_def [THEN wp_unfold]
  open_pending_def [THEN wp_unfold] Open_def [THEN wp_unfold] write_chunks_def fold_each.simps shouldCacheLocally_def

lemma written_is_cached:
  assumes "storage_env D view content" and "valid_fd fd" and "wf_dirs s"
    and "run_state (write_file D fd chunks) s = (None, t)"
  shows "content (cache t) (fdString D fd) = Some \<lparr>mf_fd = fd, mf_data = concat chunks\<rparr>" and "\<not> closed t"
    and "view (net t) (fdString D fd) = Some (concat chunks)"
proof -
  from write_file_run [OF assms] have c: "\<not> closed s" and "\<not> lockLost s" by auto
  with write_file_run [OF assms] obtain c0 where
      t: "synced D view fd (concat chunks) (s\<lparr>cache := c0\<rparr>) None t" by blast
  have "content (cache_Add (lru D) k f c) k = Some f" for k f c
    using assms(1) by (simp add: storage_env_def lru_cache.add_same)
  with t c show "content (cache t) (fdString D fd) = Some \<lparr>mf_fd = fd, mf_data = concat chunks\<rparr>" and "\<not> closed t"
    and "view (net t) (fdString D fd) = Some (concat chunks)"
    by (simp_all add: synced_def within_def same_config_def Let_def)
qed

text \<open>
  C2: What was written is read. After \<open>Create\<close>, any writes and a \<open>Close\<close> that returned nil, the object
  holds the concatenation of the chunks and \<open>Open\<close> returns a reader on it.
\<close>

theorem write_then_open:
  assumes "storage_env D view content" and "valid_fd fd" and "wf_dirs s"
    and "run_state (write_file D fd chunks) s = (None, t)"
  shows "fst (run_state (Open D fd) t) = Inr \<lparr>rd_data = concat chunks, rd_closed = False\<rparr>
    \<and> view (net t) (fdString D fd) = Some (concat chunks)"
  using storage_env.Open_cached [OF assms(1)] written_is_cached [OF assms] by simp

theorem write_then_open_witness:
  "\<exists>t. run_state (write_file demo_deps (FileDesc TypeTable 1) [''ab'', ''c'']) (demo_storage [] [] []) = (None, t)
     \<and> fst (run_state (Open demo_deps (FileDesc TypeTable 1)) t) = Inr \<lparr>rd_data = ''abc'', rd_closed = False\<rparr>"
proof -
  have "wp (write_file demo_deps (FileDesc TypeTable 1) [''ab'', ''c'']) (\<lambda>r t. r = None) (demo_storage [] [] [])"
    by (simp add: demo_storage_def files_exec demo_option_def lru_list_ops_def isMetadataKey_def HasPrefix_def
        wp_exec mem_eval host_eval path_eval demo_fd del: leveldb_String.simps cong: wp_state_cong)
  then obtain t where t: "run_state (write_file demo_deps (FileDesc TypeTable 1) [''ab'', ''c'']) (demo_storage [] [] []) = (None, t)"
    by (rule wp_obtain)
  have "wf_dirs (demo_storage [] [] [])" by (simp add: wf_dirs_def)
  from write_then_open [OF demo_env demo_fd(1) this t] t show ?thesis by simp
qed

text \<open>
  \<open>Create\<close> puts an empty file into the cache. When the upload in \<open>Close\<close> then fails, the cache still
  holds it, so \<open>Open\<close> returns an empty file, although the data is in the pending directory and
  whatever the object holds.
\<close>

theorem failed_write_reads_as_empty:
  assumes "storage_env D view content" and "valid_fd fd" and "wf_dirs s"
    and "run_state (write_file D fd chunks) s = (Some e, t)" and "\<not> closed s" and "\<not> lockLost s"
  shows "fst (run_state (Open D fd) t) = Inr \<lparr>rd_data = '''', rd_closed = False\<rparr>"
proof -
  have "content (cache_Add (lru D) k f c) k = Some f" for k f c
    using assms(1) by (simp add: storage_env_def lru_cache.add_same)
  then have "content (cache t) (fdString D fd) = Some \<lparr>mf_fd = fd, mf_data = ''''\<rparr>" and "\<not> closed t"
    using write_file_run [OF assms(1-4)] assms(5,6)
    by (simp_all add: synced_def within_def same_config_def Let_def)
  then show ?thesis using storage_env.Open_cached [OF assms(1)] by simp
qed

theorem failed_write_reads_as_empty_witness:
  "\<exists>e t. run_state (write_file demo_deps (FileDesc TypeTable 1) [''ab'', ''c'']) (demo_storage [] [Rejected] []) = (Some e, t)
     \<and> data_at (disk t) ''/c/db/pending_uploads/000001.ldb'' = Some ''abc''
     \<and> fst (run_state (Open demo_deps (FileDesc TypeTable 1)) t) = Inr \<lparr>rd_data = '''', rd_closed = False\<rparr>"
proof -
  let ?s = "demo_storage [] [Rejected] []"
  let ?e = "Wrapf ''failed to upload file 000001.ldb'' (OtherError ''rejected'')"
  have "wp (write_file demo_deps (FileDesc TypeTable 1) [''ab'', ''c''])
     (\<lambda>r t. r = Some ?e \<and> data_at (disk t) ''/c/db/pending_uploads/000001.ldb'' = Some ''abc'') ?s"
    by (simp add: demo_storage_def files_exec demo_option_def lru_list_ops_def isMetadataKey_def HasPrefix_def
        wp_exec mem_eval host_eval path_eval atomicWriteFile_def demo_fd AList.delete_eq fmt_eval data_at_def
        del: leveldb_String.simps cong: wp_state_cong)
  then obtain t where t: "run_state (write_file demo_deps (FileDesc TypeTable 1) [''ab'', ''c'']) ?s = (Some ?e, t)"
    and d: "data_at (disk t) ''/c/db/pending_uploads/000001.ldb'' = Some ''abc''"
    by (auto simp: wp_def split: prod.splits)
  have "wf_dirs ?s" by (simp add: wf_dirs_def)
  from failed_write_reads_as_empty [OF demo_env demo_fd(1) this t] t d show ?thesis by simp
qed

text \<open>
  C20: The manifest pointer round trips. After \<open>SetMeta\<close> returned nil, \<^verbatim>\<open>CURRENT\<close> holds the name and a newline,
  \<open>GetMeta\<close> reports no other descriptor, and it says that there is no database only when the
  manifest itself is missing. An error of \<open>SetMeta\<close> leaves \<^verbatim>\<open>CURRENT\<close> with its old or the new content.
\<close>

theorem SetMeta_GetMeta:
  assumes "storage_env D view content" and "valid_fd fd" and "run_state (SetMeta D fd) s = (e, t)"
    and "run_state (GetMeta D) t = (r, u)"
  shows "view (net t) ''CURRENT'' \<in> {view (net s) ''CURRENT'', Some (fdString D fd @ [CHR 0x0A])}
    \<and> (e = None \<longrightarrow> view (net t) ''CURRENT'' = Some (fdString D fd @ [CHR 0x0A])
        \<and> (\<forall>fd'. r = Inr fd' \<longrightarrow> fd' = fd \<and> view (net t) (fdString D fd) \<noteq> None)
        \<and> (r = Inl OsErrNotExist \<longrightarrow> view (net t) (fdString D fd) = None))"
proof -
  note set = storage_env.SetMeta_effect [OF assms(1), THEN wp_run, OF assms(3)]
  note get = storage_env.GetMeta_effect [OF assms(1), THEN wp_run, OF assms(4)]
  have "current_fd (view (net t)) = Some fd" if "e = None"
    using storage_env.current_fd_written [OF assms(1,2)] set that by blast
  then show ?thesis using set get by auto
qed

theorem SetMeta_GetMeta_witness:
  "\<exists>t u. run_state (SetMeta demo_deps (FileDesc TypeTable 1)) (demo_storage [(''000001.ldb'', ''x'')] [] []) = (None, t)
     \<and> run_state (GetMeta demo_deps) t = (Inr (FileDesc TypeTable 1), u)
     \<and> sim_objs (net t) ''CURRENT'' = Some (''000001.ldb'' @ [CHR 0x0A])"
proof -
  let ?s = "demo_storage [(''000001.ldb'', ''x'')] [] []"
  have "wp (SetMeta demo_deps (FileDesc TypeTable 1)) (\<lambda>r t. r = None
      \<and> wp (GetMeta demo_deps) (\<lambda>r' u. r' = Inr (FileDesc TypeTable 1)) t) ?s"
    by (simp add: demo_storage_def files_exec demo_option_def GetMeta_def [THEN wp_unfold]
        read_meta_def [THEN wp_unfold] meta_target_def [THEN wp_unfold]
        wp_exec mem_eval host_eval path_eval demo_fd demo_parse demo_trim [OF demo_fd(1), unfolded demo_fd, simplified] del: leveldb_String.simps cong: wp_state_cong)
  then obtain t u where t: "run_state (SetMeta demo_deps (FileDesc TypeTable 1)) ?s = (None, t)"
    and u: "run_state (GetMeta demo_deps) t = (Inr (FileDesc TypeTable 1), u)"
    by (auto simp: wp_def split: prod.splits)
  from SetMeta_GetMeta [OF demo_env demo_fd(1) t u] t u show ?thesis
    by (auto simp: demo_fd simp del: leveldb_String.simps)
qed





end
