(* ===== verification/Pending_Files.thy ===== *)
theory Pending_Files
  imports Storage_Files
begin

text \<open>
  The pending directory of \<^verbatim>\<open>S3Storage\<close> (\<^verbatim>\<open>s3/storage.go\<close>): what is restored into it from the shadow
  copies (\<open>syncFromShadow\<close>), how it is read, checked and ordered (\<open>readPendingFiles\<close>), its pressure
  warning, and the manual \<open>RetryPendingUploads\<close>. The goroutines that upload its files are in
  \<^verbatim>\<open>Upload_Pool\<close>.
\<close>

section \<open>Restoring from the shadow copies\<close>

definition restore_shadow :: "('w, 'c) storage_deps \<Rightarrow> string \<Rightarrow> (('w, 'c) S3Storage, unit) state" where
  "restore_shadow D key = do {
     sp \<leftarrow> gets shadowPrefix;
     dir \<leftarrow> gets pendingDir;
     let name = TrimPrefix key (sp @ ''/'');
     if name = '''' then ret () else do {
       let localPath = filepath_Join [dir, name];
       st \<leftarrow> on_disk (os_Stat localPath);
       case st of
         Inr _ \<Rightarrow> ret ()
       | Inl _ \<Rightarrow> do {
           r \<leftarrow> on_net (api_GetBytes (api D) StorageCtx key);
           case r of
             Inl _ \<Rightarrow> ret ()
           | Inr data \<Rightarrow> do {
               w \<leftarrow> on_disk (atomicWriteFile localPath data);
               case w of
                 Inl _ \<Rightarrow> ret ()
               | Inr _ \<Rightarrow> do {
                   on_disk (os_WriteFile (localPath @ ''.cksum'') (cksum_of data));
                   ret () } } } } }"

definition syncFromShadow :: "('w, 'c) storage_deps \<Rightarrow> (('w, 'c) S3Storage, error option) state" where
  "syncFromShadow D = do {
     sp \<leftarrow> gets shadowPrefix;
     dir \<leftarrow> gets pendingDir;
     if sp = '''' \<or> dir = '''' then ret None else do {
       r \<leftarrow> on_net (api_ListNames (api D) StorageCtx (sp @ ''/''));
       case r of
         Inl err \<Rightarrow> ret (Some (Wrapf ''failed to list shadow prefix'' err))
       | Inr keys \<Rightarrow> do { for_each keys (restore_shadow D); ret None } } }"

section \<open>Reading the directory\<close>

record pendingFileEntry =
  pe_name :: string
  pe_data :: bytes
  pe_fd :: file_desc
  pe_localPath :: string

definition pendingFilePriority :: "file_desc \<Rightarrow> nat" where
  "pendingFilePriority fd =
     (case fd_Type fd of TypeTable \<Rightarrow> 0 | TypeJournal \<Rightarrow> 1 | TypeManifest \<Rightarrow> 2 | _ \<Rightarrow> 99)"

text \<open>
  \<^verbatim>\<open>sort.Slice\<close> of the standard library: it sorts, in an order of its own among entries that compare
  equal.
\<close>

type_synonym slice_sorter =
  "(pendingFileEntry \<Rightarrow> pendingFileEntry \<Rightarrow> bool) \<Rightarrow> pendingFileEntry list \<Rightarrow> pendingFileEntry list"

definition pending_less :: "pendingFileEntry \<Rightarrow> pendingFileEntry \<Rightarrow> bool" where
  "pending_less x y = (pendingFilePriority (pe_fd x) < pendingFilePriority (pe_fd y))"

text \<open>The checksum test; a file that fails it is deleted together with its checksum.\<close>

definition verify_cksum :: "string \<Rightarrow> bytes \<Rightarrow> (('w, 'c) S3Storage, bool) state" where
  "verify_cksum localPath data = do {
     c \<leftarrow> on_disk (os_ReadFile (localPath @ ''.cksum''));
     case c of
       Inl _ \<Rightarrow> ret True
     | Inr cksumData \<Rightarrow>
         (if TrimSpace cksumData \<noteq> cksum_of data then do {
            on_disk (os_Remove localPath);
            on_disk (os_Remove (localPath @ ''.cksum''));
            ret False }
          else ret True) }"

definition read_pending_entry ::
  "pendingFileEntry list \<Rightarrow> string \<times> bool \<Rightarrow> (('w, 'c) S3Storage, pendingFileEntry list) state"
where
  "read_pending_entry files entry =
     (if \<not> is_data_entry entry then ret files
      else do {
        dir \<leftarrow> gets pendingDir;
        let name = fst entry;
        let localPath = filepath_Join [dir, name];
        r \<leftarrow> on_disk (os_ReadFile localPath);
        case r of
          Inl _ \<Rightarrow> ret files
        | Inr data \<Rightarrow> (case parseFileDesc name of
              None \<Rightarrow> ret files
            | Some fd \<Rightarrow> do {
                good \<leftarrow> verify_cksum localPath data;
                ret (if good then files @ [\<lparr>pe_name = name, pe_data = data, pe_fd = fd, pe_localPath = localPath\<rparr>]
                     else files) }) })"

definition readPendingFiles :: "slice_sorter \<Rightarrow> (('w, 'c) S3Storage, error + pendingFileEntry list) state" where
  "readPendingFiles sorter = do {
     dir \<leftarrow> gets pendingDir;
     if dir = '''' then ret (Inr []) else do {
       r \<leftarrow> on_disk (os_ReadDir dir);
       case r of
         Inl err \<Rightarrow> ret (if os_IsNotExist err then Inr [] else Inl err)
       | Inr entries \<Rightarrow> do {
           files \<leftarrow> fold_each read_pending_entry [] entries;
           ret (Inr (sorter pending_less files)) } } }"

definition HasPendingUploads :: "(('w, 'c) S3Storage, bool) state" where
  "HasPendingUploads = do {
     dir \<leftarrow> gets pendingDir;
     if dir = '''' then ret False else do {
       r \<leftarrow> on_disk (os_ReadDir dir);
       ret (case r of Inl _ \<Rightarrow> False | Inr entries \<Rightarrow> list_ex is_data_entry entries) } }"

text \<open>The size is an \<^verbatim>\<open>int64\<close>; \<^verbatim>\<open>entry.Info\<close> is a \<^verbatim>\<open>stat\<close> of the entry.\<close>

definition add_pending_size :: "nat \<times> int \<Rightarrow> string \<times> bool \<Rightarrow> (('w, 'c) S3Storage, nat \<times> int) state" where
  "add_pending_size acc entry =
     (if \<not> is_data_entry entry then ret acc
      else do {
        dir \<leftarrow> gets pendingDir;
        info \<leftarrow> on_disk (os_Stat (filepath_Join [dir, fst entry]));
        ret (case info of
               Inr (n, isDir) \<Rightarrow> (fst acc + 1, wrap64 (snd acc + n))
             | Inl _ \<Rightarrow> (fst acc + 1, snd acc)) })"

definition checkPendingPressure :: "(('w, 'c) S3Storage, unit) state" where
  "checkPendingPressure = do {
     o' \<leftarrow> gets opt;
     dir \<leftarrow> gets pendingDir;
     if MaxPendingSize o' \<le> 0 \<or> \<not> OnPendingWarning o' \<or> dir = '''' then ret () else do {
       r \<leftarrow> on_disk (os_ReadDir dir);
       case r of
         Inl _ \<Rightarrow> ret ()
       | Inr entries \<Rightarrow> do {
           acc \<leftarrow> fold_each add_pending_size (0, 0) entries;
           (if MaxPendingSize o' < snd acc then modify (warnings_update (\<lambda>ws. ws @ [acc])) else ret ()) } } }"

section \<open>The manual retry\<close>

definition retry_pending_entry ::
  "('w, 'c) storage_deps \<Rightarrow> nat \<times> nat \<Rightarrow> string \<times> bool \<Rightarrow> (('w, 'c) S3Storage, nat \<times> nat) state"
where
  "retry_pending_entry D counts entry =
     (if snd entry then ret counts
      else do {
        dir \<leftarrow> gets pendingDir;
        let name = fst entry;
        let localPath = filepath_Join [dir, name];
        let failed = (fst counts, snd counts + 1);
        r \<leftarrow> on_disk (os_ReadFile localPath);
        case r of
          Inl _ \<Rightarrow> ret failed
        | Inr data \<Rightarrow> (case parseFileDesc name of
              None \<Rightarrow> ret failed
            | Some fd \<Rightarrow> do {
                e \<leftarrow> on_net (api_PutBytes (api D) StorageCtx (fdString D fd) data);
                case e of
                  Some _ \<Rightarrow> ret failed
                | None \<Rightarrow> do { on_disk (os_Remove localPath); ret (fst counts + 1, snd counts) } }) })"

definition RetryPendingUploads ::
  "('w, 'c) storage_deps \<Rightarrow> (('w, 'c) S3Storage, (nat \<times> nat) \<times> error option) state"
where
  "RetryPendingUploads D = do {
     dir \<leftarrow> gets pendingDir;
     cacheDir \<leftarrow> gets (\<lambda>s. LocalCacheDir (opt s));
     if dir = '''' \<or> cacheDir = '''' then ret ((0, 0), None) else do {
       r \<leftarrow> on_disk (os_ReadDir dir);
       case r of
         Inl err \<Rightarrow> ret ((0, 0), if os_IsNotExist err then None
                                 else Some (Wrapf ''failed to read pending dir'' err))
       | Inr entries \<Rightarrow> do {
           counts \<leftarrow> fold_each (retry_pending_entry D) (0, 0) entries;
           ret (counts, None) } } }"

section \<open>The interface of the sort\<close>

locale slice_sort =
  fixes sorter :: slice_sorter
  assumes sort_mset: "mset (sorter lt es) = mset es"
    and sort_sorted: "(\<And>x y. lt x y \<longleftrightarrow> f x < (f y :: nat)) \<Longrightarrow> sorted (map f (sorter lt es))"
begin

lemma sort_set: "set (sorter lt es) = set es"
  using sort_mset [of lt es] by (metis set_mset_mset)

lemma sort_distinct: "distinct (map g es) \<Longrightarrow> distinct (map g (sorter lt es))"
  using sort_mset [of lt es] by (metis mset_map mset_eq_imp_distinct_iff)

lemma sort_pending: "sorted (map (\<lambda>e. pendingFilePriority (pe_fd e)) (sorter pending_less es))"
  by (rule sort_sorted) (simp add: pending_less_def)

end

text \<open>Go sorts short slices by insertion, each element after the ones it is not less than.\<close>

fun slice_insert :: "('a \<Rightarrow> 'a \<Rightarrow> bool) \<Rightarrow> 'a \<Rightarrow> 'a list \<Rightarrow> 'a list" where
  "slice_insert lt x [] = [x]"
| "slice_insert lt x (y # ys) = (if lt x y then x # y # ys else y # slice_insert lt x ys)"

definition slice_insertion :: "('a \<Rightarrow> 'a \<Rightarrow> bool) \<Rightarrow> 'a list \<Rightarrow> 'a list" where
  "slice_insertion lt xs = fold (slice_insert lt) xs []"

lemma slice_insert_mset: "mset (slice_insert lt x ys) = add_mset x (mset ys)"
  by (induction ys) auto

lemma slice_insert_set: "set (slice_insert lt x ys) = insert x (set ys)"
  by (metis slice_insert_mset set_mset_mset set_mset_add_mset_insert)

lemma slice_insert_sorted:
  assumes "\<And>x y. lt x y \<longleftrightarrow> f x < (f y :: nat)"
  shows "sorted (map f ys) \<Longrightarrow> sorted (map f (slice_insert lt x ys))"
  by (induction ys) (auto simp: assms slice_insert_set)

lemma slice_fold:
  "mset (fold (slice_insert lt) xs acc) = mset xs + mset acc"
  "(\<And>x y. lt x y \<longleftrightarrow> f x < (f y :: nat)) \<Longrightarrow> sorted (map f acc) \<Longrightarrow> sorted (map f (fold (slice_insert lt) xs acc))"
  by (induction xs arbitrary: acc) (simp_all add: slice_insert_mset slice_insert_sorted)

interpretation go_sort: slice_sort slice_insertion
  by unfold_locales (simp_all add: slice_insertion_def slice_fold)

section \<open>Effects\<close>

text \<open>The state of the pending directory: its data files, and which of them their checksum refutes.\<close>

definition pending_names :: "('w, 'c) S3Storage \<Rightarrow> string set" where
  "pending_names s = {n. n \<noteq> [] \<and> CHR ''/'' \<notin> set n \<and> pending_data s n \<noteq> None
     \<and> \<not> HasSuffix n ''.cksum'' \<and> parseFileDesc n \<noteq> None}"

definition intact :: "('w, 'c) S3Storage \<Rightarrow> string \<Rightarrow> bool" where
  "intact s n = (\<forall>c. pending_data s (n @ ''.cksum'') = Some c \<longrightarrow> TrimSpace c = cksum_of (the (pending_data s n)))"

definition pending_entry :: "('w, 'c) S3Storage \<Rightarrow> string \<Rightarrow> pendingFileEntry" where
  "pending_entry s n = \<lparr>pe_name = n, pe_data = the (pending_data s n), pe_fd = the (parseFileDesc n),
     pe_localPath = filepath_Join [pendingDir s, n]\<rparr>"

lemma parsed_plain: "parseFileDesc n = Some fd \<Longrightarrow> CHR ''/'' \<notin> set n \<Longrightarrow> plain_name n"
proof -
  assume p: "parseFileDesc n = Some fd" "CHR ''/'' \<notin> set n"
  have "parseFileDesc ''.'' = None" and "parseFileDesc ''..'' = None" and "parseFileDesc '''' = None"
    by (simp_all add: fmt_simps is_digit_def)
  with p show ?thesis by (auto simp: plain_name_def)
qed

lemma pending_name_path:
  assumes "clean_dir (pendingDir s)" and "n \<in> pending_names s"
  shows "filepath_Join [pendingDir s, n] = dir_prefix (pendingDir s) @ n"
    and "filepath_Join [pendingDir s, n] @ ''.cksum'' = dir_prefix (pendingDir s) @ n @ ''.cksum''"
  using assms parsed_plain by (auto simp: pending_names_def Join_dir_prefix)

lemma wp_verify_cksum:
  assumes "\<And>h. data_at h = data_at (disk t) \<Longrightarrow> (faults (disk t) = [] \<Longrightarrow> faults h = []
        \<and> (\<forall>c. data_at (disk t) (p @ ''.cksum'') = Some c \<longrightarrow> TrimSpace c = cksum_of d)) \<Longrightarrow> Q True (t\<lparr>disk := h\<rparr>)"
    and "\<And>h c. data_at (disk t) (p @ ''.cksum'') = Some c \<Longrightarrow> TrimSpace c \<noteq> cksum_of d \<Longrightarrow>
        \<forall>q. q \<notin> {p, p @ ''.cksum''} \<longrightarrow> data_at h q = data_at (disk t) q \<Longrightarrow>
        \<forall>q. data_at h q \<in> {None, data_at (disk t) q} \<Longrightarrow>
        (faults (disk t) = [] \<Longrightarrow> faults h = [] \<and> data_at h p = None \<and> data_at h (p @ ''.cksum'') = None) \<Longrightarrow>
        Q False (t\<lparr>disk := h\<rparr>)"
  shows "wp (verify_cksum p d) Q t"
  unfolding verify_cksum_def wp_bind
proof (rule wp_ReadFile_ok, goal_cases)
  case (1 c h)
  show ?case
  proof (cases "TrimSpace c = cksum_of d")
    case True
    then show ?thesis using 1 assms(1) by (simp add: wp_return)
  next
    case False
    have "wp (on_disk (os_Remove p)) (\<lambda>_. wp (on_disk (os_Remove (p @ ''.cksum''))) (\<lambda>_. Q False)) (t\<lparr>disk := h\<rparr>)"
    proof (rule wp_Remove_ok, rule wp_Remove_ok, goal_cases)
      case (1 r1 h1 x1 r2 h2 x2)
      then show ?case
        using \<open>data_at h = _\<close> \<open>faults (disk t) = [] \<Longrightarrow> faults h = []\<close> \<open>data_at (disk t) _ = Some c\<close> False
        by simp (rule assms(2), auto)
    qed
    then show ?thesis using False by (simp add: wp_simps wp_fun)
  qed
next
  case (2 e h)
  then show ?case using assms(1) [of h] by (simp add: wp_return)
qed

section \<open>What reading the directory does\<close>

definition corrupt_names :: "('w, 'c) S3Storage \<Rightarrow> string set" where
  "corrupt_names s = {n \<in> pending_names s. \<not> intact s n}"

definition entry_files :: "('w, 'c) S3Storage \<Rightarrow> string \<Rightarrow> string set" where
  "entry_files s n = {dir_prefix (pendingDir s) @ n, dir_prefix (pendingDir s) @ n @ ''.cksum''}"

text \<open>The state after the names in \<open>N\<close> have been read.\<close>

definition reading :: "('w, 'c) S3Storage \<Rightarrow> string set \<Rightarrow> pendingFileEntry list \<Rightarrow> ('w, 'c) S3Storage \<Rightarrow> bool" where
  "reading s N acc t = (disk_only s t
     \<and> distinct (map pe_name acc)
     \<and> (\<forall>e \<in> set acc. pe_name e \<in> N \<inter> pending_names s \<and> e = pending_entry s (pe_name e)
          \<and> data_at (disk t) (pe_localPath e) = Some (pe_data e))
     \<and> (\<forall>q. data_at (disk t) q = data_at (disk s) q
          \<or> data_at (disk t) q = None \<and> (\<exists>n \<in> N \<inter> corrupt_names s. q \<in> entry_files s n))
     \<and> (faults (disk s) = [] \<longrightarrow> faults (disk t) = []
          \<and> pe_name ` set acc = N \<inter> pending_names s - corrupt_names s
          \<and> (\<forall>n \<in> N \<inter> corrupt_names s. \<forall>q \<in> entry_files s n. data_at (disk t) q = None)))"

lemma cksum_suffix: "HasSuffix (n @ ''.cksum'') ''.cksum''"
  by (simp add: HasSuffix_iff)

lemma entry_files_other:
  assumes "n \<in> pending_names s" and "m \<in> pending_names s" and "m \<noteq> n"
  shows "entry_files s n \<inter> entry_files s m = {}"
  using assms cksum_suffix by (auto simp: entry_files_def pending_names_def)

lemma reading_disk: "reading s N acc (t\<lparr>disk := h\<rparr>) \<Longrightarrow> data_at h' = data_at h \<Longrightarrow> (faults h = [] \<Longrightarrow> faults h' = [])
    \<Longrightarrow> reading s N acc (t\<lparr>disk := h'\<rparr>)"
  by (simp add: reading_def)

text \<open>An entry that is no data file, or has a foreign name, is passed over.\<close>

lemma reading_skip: "reading s N acc t \<Longrightarrow> n \<notin> pending_names s \<Longrightarrow> reading s (insert n N) acc t"
proof -
  assume r: "reading s N acc t" and "n \<notin> pending_names s"
  then have "insert n N \<inter> pending_names s = N \<inter> pending_names s"
    and "insert n N \<inter> corrupt_names s = N \<inter> corrupt_names s" by (auto simp: corrupt_names_def)
  then show ?thesis using r unfolding reading_def by simp
qed

lemma reading_add:
  assumes r: "reading s N acc t" and n: "n \<in> pending_names s" "n \<notin> N"
    and d: "data_at (disk t) (filepath_Join [pendingDir s, n]) = Some (the (pending_data s n))"
    and i: "faults (disk s) = [] \<Longrightarrow> intact s n"
  shows "reading s (insert n N) (acc @ [pending_entry s n]) t"
proof -
  have e: "pe_name (pending_entry s n) = n" "pe_localPath (pending_entry s n) = filepath_Join [pendingDir s, n]"
    "pe_data (pending_entry s n) = the (pending_data s n)" by (simp_all add: pending_entry_def)
  have "n \<notin> pe_name ` set acc" using r n by (auto simp: reading_def)
  then have "distinct (map pe_name (acc @ [pending_entry s n]))" using r e by (simp add: reading_def)
  moreover have "insert n N \<inter> pending_names s - corrupt_names s = insert n (N \<inter> pending_names s - corrupt_names s)"
    if "faults (disk s) = []" using n i [OF that] by (auto simp: corrupt_names_def)
  moreover have "insert n N \<inter> corrupt_names s = N \<inter> corrupt_names s" if "faults (disk s) = []"
    using n i [OF that] by (auto simp: corrupt_names_def)
  ultimately show ?thesis using r n d e unfolding reading_def by auto
qed

lemma reading_drop:
  assumes r: "reading s N acc t" and n: "n \<in> corrupt_names s" "n \<notin> N"
    and q: "\<And>q. q \<notin> entry_files s n \<Longrightarrow> data_at h q = data_at (disk t) q"
    and sub: "\<And>q. data_at h q \<in> {None, data_at (disk t) q}"
    and ok: "faults (disk t) = [] \<Longrightarrow> faults h = [] \<and> (\<forall>q \<in> entry_files s n. data_at h q = None)"
    and dir: "clean_dir (pendingDir s)"
  shows "reading s (insert n N) acc (t\<lparr>disk := h\<rparr>)"
proof -
  have p: "n \<in> pending_names s" using n by (simp add: corrupt_names_def)
  have rs: "data_at (disk t) x = data_at (disk s) x
      \<or> data_at (disk t) x = None \<and> (\<exists>m \<in> N \<inter> corrupt_names s. x \<in> entry_files s m)" for x
    using r by (simp add: reading_def)
  have own: "data_at h (pe_localPath e) = Some (pe_data e)" if e: "e \<in> set acc" for e
  proof -
    have m: "pe_name e \<in> pending_names s" "pe_name e \<in> N" "e = pending_entry s (pe_name e)"
      using r e by (auto simp: reading_def)
    then have "pe_localPath e = filepath_Join [pendingDir s, pe_name e]" by (metis pending_entry_def pendingFileEntry.select_convs(4))
    then have "pe_localPath e \<in> entry_files s (pe_name e)"
      using pending_name_path(1) [OF dir m(1)] by (simp add: entry_files_def)
    moreover have "entry_files s n \<inter> entry_files s (pe_name e) = {}"
      using entry_files_other [OF p m(1)] m(2) n(2) by blast
    ultimately have "data_at h (pe_localPath e) = data_at (disk t) (pe_localPath e)" using q by blast
    then show ?thesis using r e by (simp add: reading_def)
  qed
  have "insert n N \<inter> pending_names s - corrupt_names s = N \<inter> pending_names s - corrupt_names s" using n by auto
  moreover have "\<forall>q. data_at h q = data_at (disk s) q
          \<or> data_at h q = None \<and> (\<exists>m \<in> insert n N \<inter> corrupt_names s. q \<in> entry_files s m)"
  proof
    fix x
    show "data_at h x = data_at (disk s) x
          \<or> data_at h x = None \<and> (\<exists>m \<in> insert n N \<inter> corrupt_names s. x \<in> entry_files s m)"
      using rs [of x] q [of x] sub [of x] n by (cases "x \<in> entry_files s n") auto
  qed
  moreover have "\<forall>m \<in> insert n N \<inter> corrupt_names s. \<forall>q \<in> entry_files s m. data_at h q = None" if "faults (disk s) = []"
    using r ok sub that n unfolding reading_def by (metis (no_types, lifting) IntE IntI insertE singletonD)
  ultimately show ?thesis using r own ok unfolding reading_def by auto
qed

lemma reading_same: "reading s N acc t \<Longrightarrow> data_at h = data_at (disk t) \<Longrightarrow> (faults (disk t) = [] \<Longrightarrow> faults h = [])
    \<Longrightarrow> reading s N acc (t\<lparr>disk := h\<rparr>)"
  by (simp add: reading_def)

lemma read_entry:
  assumes r: "reading s N acc t" and dir: "clean_dir (pendingDir s)"
    and n: "\<not> isDir \<Longrightarrow> n \<notin> N \<and> n \<noteq> [] \<and> CHR ''/'' \<notin> set n \<and> pending_data s n \<noteq> None"
  shows "wp (read_pending_entry acc (n, isDir)) (reading s (if isDir then N else insert n N)) t"
proof (cases "is_data_entry (n, isDir)")
  case False
  then have "isDir \<or> n \<notin> pending_names s" by (auto simp: is_data_entry_def pending_names_def)
  then show ?thesis using False r reading_skip [OF r] by (auto simp: read_pending_entry_def wp_return is_data_entry_def)
next
  case True
  then have f: "\<not> isDir" "\<not> HasSuffix n ''.cksum''" by (simp_all add: is_data_entry_def)
  have pd: "pendingDir t = pendingDir s" using r disk_only_fields [of s t] by (simp add: reading_def same_config_def)
  let ?p = "filepath_Join [pendingDir s, n]"
  have skip: "reading s (insert n N) acc (t\<lparr>disk := h\<rparr>)"
    if "n \<notin> pending_names s" "data_at h = data_at (disk t)" "faults (disk t) = [] \<Longrightarrow> faults h = []" for h
    using reading_skip [OF r that(1)] that(2,3) by (rule reading_same)
  have "wp (on_disk (os_ReadFile ?p)) (\<lambda>r. wp (case r of
          Inl _ \<Rightarrow> ret acc
        | Inr data \<Rightarrow> (case parseFileDesc n of
              None \<Rightarrow> ret acc
            | Some fd \<Rightarrow> do {
                good \<leftarrow> verify_cksum ?p data;
                ret (if good then acc @ [\<lparr>pe_name = n, pe_data = data, pe_fd = fd, pe_localPath = ?p\<rparr>]
                     else acc) })) (reading s (insert n N))) t"
  proof (cases "parseFileDesc n")
    case None
    then have np: "n \<notin> pending_names s" by (simp add: pending_names_def)
    show ?thesis by (rule wp_ReadFile_ok) (simp_all add: None wp_return skip [OF np])
  next
    case (Some fd)
    then have np: "n \<in> pending_names s" using n f by (simp add: pending_names_def)
    have p: "?p = dir_prefix (pendingDir s) @ n" using pending_name_path(1) [OF dir np] .
    have own: "data_at (disk t) q = data_at (disk s) q" if q: "q \<in> entry_files s n" for q
    proof -
      have "q \<notin> entry_files s m" if m: "m \<in> N \<inter> corrupt_names s" for m
        using entry_files_other [OF np, of m] n f q m by (auto simp: corrupt_names_def)
      then show ?thesis using r by (auto simp: reading_def)
    qed
    then have dat: "data_at (disk t) ?p = pending_data s n"
      and ck: "data_at (disk t) (?p @ ''.cksum'') = pending_data s (n @ ''.cksum'')"
      by (simp_all add: p pending_data_def entry_files_def)
    have ef: "entry_files s n = {?p, ?p @ ''.cksum''}" by (simp add: p entry_files_def)
    show ?thesis
    proof (rule wp_ReadFile_ok, goal_cases)
      case (1 d h)
      have d: "the (pending_data s n) = d" using 1 dat by simp
      have rh: "reading s N acc (t\<lparr>disk := h\<rparr>)" using r 1(1,2) by (rule reading_same)
      show ?case
        unfolding sum.case Some option.case wp_bind wp_fun
      proof (rule wp_verify_cksum, goal_cases)
        case v: (1 h')
        have "reading s (insert n N) (acc @ [pending_entry s n]) (t\<lparr>disk := h\<rparr>\<lparr>disk := h'\<rparr>)"
        proof (rule reading_add)
          show "reading s N acc (t\<lparr>disk := h\<rparr>\<lparr>disk := h'\<rparr>)" by (rule reading_same [OF rh]) (use v in simp_all)
          show "intact s n" if "faults (disk s) = []"
          proof -
            have "faults (disk (t\<lparr>disk := h\<rparr>)) = []" using rh that by (simp add: reading_def)
            then show ?thesis using v(2) 1(1) ck d by (simp add: intact_def)
          qed
        qed (use np n f 1 v dat in auto)
        then show ?case by (simp add: pending_entry_def d Some)
      next
        case v: (2 h' c)
        have "\<not> intact s n" using v(1,2) 1(1) ck d by (simp add: intact_def)
        then have "n \<in> corrupt_names s" using np by (simp add: corrupt_names_def)
        then have "reading s (insert n N) acc (t\<lparr>disk := h\<rparr>\<lparr>disk := h'\<rparr>)"
          by (rule reading_drop [OF rh]) (use v n f dir ef in auto)
        then show ?case by simp
      qed
    next
      case (2 e h)
      have rh: "reading s N acc (t\<lparr>disk := h\<rparr>)" using r 2(1) by (rule reading_same) (use 2(2) in blast)
      have ff: "faults (disk s) \<noteq> []" using 2(2) dat np r by (auto simp: reading_def pending_names_def)
      have "reading s (insert n N) acc (t\<lparr>disk := h\<rparr>)" using rh ff by (auto simp: reading_def)
      then show ?case by (simp add: wp_return)
    qed
  qed
  then show ?thesis using True f(1) by (simp add: read_pending_entry_def wp_bind [of "gets _"] wp_gets wp_let pd wp_bind [of "on_disk _"])
qed

lemma reading_perm: "reading s N acc t \<Longrightarrow> mset es = mset acc \<Longrightarrow> reading s N es t"
proof -
  assume r: "reading s N acc t" and m: "mset es = mset acc"
  have "set es = set acc" using m by (metis set_mset_mset)
  moreover have "distinct (map pe_name es) = distinct (map pe_name acc)"
    using m by (metis mset_map mset_eq_imp_distinct_iff)
  ultimately show ?thesis using r by (simp add: reading_def)
qed

lemma reading_all:
  assumes "reading s N acc t" and "pending_names s \<subseteq> N"
  shows "reading s UNIV acc t"
proof -
  have "N \<inter> pending_names s = UNIV \<inter> pending_names s" and "N \<inter> corrupt_names s = UNIV \<inter> corrupt_names s"
    using assms(2) by (auto simp: corrupt_names_def)
  then show ?thesis using assms(1) unfolding reading_def by simp
qed

text \<open>Nothing read and nothing touched: the directory could not be listed.\<close>

definition unread :: "('w, 'c) S3Storage \<Rightarrow> ('w, 'c) S3Storage \<Rightarrow> bool" where
  "unread s t = (disk_only s t \<and> data_at (disk t) = data_at (disk s)
     \<and> (faults (disk s) = [] \<longrightarrow> pendingDir s = '''' \<or> \<not> dir_exists (disk s) (pendingDir s)))"

definition files_read ::
  "('w, 'c) S3Storage \<Rightarrow> error + pendingFileEntry list \<Rightarrow> ('w, 'c) S3Storage \<Rightarrow> bool"
where
  "files_read s r t =
     (case r of
        Inl e \<Rightarrow> unread s t
      | Inr es \<Rightarrow> sorted (map (\<lambda>e. pendingFilePriority (pe_fd e)) es) \<and> (reading s UNIV es t \<or> es = [] \<and> unread s t))"

context slice_sort
begin

lemma readPendingFiles_effect:
  assumes dir: "pendingDir s = '''' \<or> clean_dir (pendingDir s)"
  shows "wp (readPendingFiles sorter) (files_read s) s"
proof (cases "pendingDir s = ''''")
  case True
  then show ?thesis by (simp add: readPendingFiles_def wp_simps files_read_def unread_def)
next
  case False
  with dir have cd: "clean_dir (pendingDir s)" by simp
  have "wp (on_disk (os_ReadDir (pendingDir s))) (\<lambda>r. wp (case r of
         Inl err \<Rightarrow> ret (if os_IsNotExist err then Inr [] else Inl err)
       | Inr entries \<Rightarrow> do {
           files \<leftarrow> fold_each read_pending_entry [] entries;
           ret (Inr (sorter pending_less files)) }) (files_read s)) s"
  proof (rule wp_ReadDir_ok, goal_cases)
    case (1 es h)
    let ?N = "\<lambda>ys. {n. (n, False) \<in> set ys}"
    have start: "reading s (?N []) [] (s\<lparr>disk := h\<rparr>)" using 1(1,2) by (simp add: reading_def)
    show ?case
      unfolding sum.case wp_bind
    proof (rule wp_fold_each_upto [where I = "\<lambda>ys. reading s (?N ys)"], goal_cases)
      case e: (1 ys x zs acc t)
      obtain n isDir where x: "x = (n, isDir)" by force
      have nn: "n \<notin> ?N ys" using 1(3) e(1) x by (auto simp: rev_image_eqI)
      have ch: "n \<noteq> [] \<and> CHR ''/'' \<notin> set n \<and> pending_data s n \<noteq> None" if "\<not> isDir"
        using 1(5) [of n] e(1) x that by (simp add: pending_data_def)
      have N: "(if isDir then ?N ys else insert n (?N ys)) = ?N (ys @ [x])" using x by auto
      show ?case
        using read_entry [OF e(2) cd, of isDir n] nn ch unfolding x N [unfolded x] by simp
    next
      case 2
      show ?case by (rule start)
    next
      case (3 acc t)
      have "pending_names s \<subseteq> ?N es" using 1(5) by (auto simp: pending_names_def pending_data_def)
      then have "reading s UNIV (sorter pending_less acc) t"
        using reading_all [OF 3] reading_perm sort_mset by blast
      then show ?case using sort_pending by (simp add: wp_return files_read_def)
    qed
  next
    case (2 e h)
    then have "unread s (s\<lparr>disk := h\<rparr>)" by (auto simp: unread_def)
    then show ?case by (simp add: wp_return files_read_def)
  qed
  then show ?thesis using False by (simp only: readPendingFiles_def wp_bind [of "gets _"] wp_gets if_False wp_bind [of "on_disk _"])
qed

end

lemmas readPendingFiles_run = slice_sort.readPendingFiles_effect [THEN wp_run]

section \<open>What restoring does\<close>

text \<open>No call brings back the faults of a machine that has none left.\<close>

lemma faults_put [simp]: "faults (put_node p n h) = faults h" "faults (del_node p h) = faults h" "faults (set_fs t h) = faults h"
  by (simp_all add: put_node_def del_node_def set_fs_def)

lemma fault_free_Stat: "faults h = [] \<Longrightarrow> faults (snd (os_Stat p h)) = []"
  by (simp add: os_Stat_def next_fault_def split: option.split fs_node.split list.split)

lemma fault_free_WriteFile: "faults h = [] \<Longrightarrow> faults (snd (os_WriteFile p d h)) = []"
  by (simp add: os_WriteFile_def next_fault_def split: option.split fs_node.split list.split)

lemma fault_free_Remove: "faults h = [] \<Longrightarrow> faults (snd (os_Remove p h)) = []"
  by (simp add: os_Remove_def next_fault_def split: option.split fs_node.split list.split)

lemma fault_free_Rename: "faults h = [] \<Longrightarrow> faults (snd (os_Rename p q h)) = []"
  by (simp add: os_Rename_def next_fault_def split: option.split fs_node.split list.split)

lemma fault_free_CreateTemp: "faults h = [] \<Longrightarrow> faults (snd (os_CreateTemp p q h)) = []"
  by (simp add: os_CreateTemp_def next_fault_def split: option.split fs_node.split list.split)

lemma fault_free_Write: "faults h = [] \<Longrightarrow> faults (snd (file_Write p d h)) = []"
  by (simp add: file_Write_def next_fault_def split: option.split fs_node.split list.split)

lemma fault_free_Close: "faults h = [] \<Longrightarrow> faults (snd (file_Close h)) = []"
  by (simp add: file_Close_def next_fault_def split: option.split fs_node.split list.split)

lemmas fault_free = fault_free_Stat fault_free_WriteFile fault_free_Remove fault_free_Rename fault_free_CreateTemp fault_free_Write fault_free_Close

lemma fault_freeD:
  "os_CreateTemp p q h = (x, h1) \<Longrightarrow> faults h = [] \<Longrightarrow> faults h1 = []"
  "file_Write p d h = (y, h1) \<Longrightarrow> faults h = [] \<Longrightarrow> faults h1 = []"
  "file_Close h = (y, h1) \<Longrightarrow> faults h = [] \<Longrightarrow> faults h1 = []"
  "os_Rename p q h = (y, h1) \<Longrightarrow> faults h = [] \<Longrightarrow> faults h1 = []"
  using fault_free by (metis snd_conv)+

lemma fault_free_atomic:
  assumes "faults h = []"
  shows "faults (snd (atomicWriteFile p d h)) = []"
proof -
  obtain r1 h1 where 1: "os_CreateTemp (filepath_Dir p) ''.tmp-'' h = (r1, h1)" by force
  then have f1: "faults h1 = []" using assms by (rule fault_freeD)
  show ?thesis
  proof (cases r1)
    case (Inr tmp)
    obtain r2 h2 where 2: "file_Write tmp d h1 = (r2, h2)" by force
    then have f2: "faults h2 = []" using f1 by (rule fault_freeD)
    obtain r3 h3 where 3: "file_Close h2 = (r3, h3)" by force
    then have f3: "faults h3 = []" using f2 by (rule fault_freeD)
    obtain r4 h4 where 4: "os_Rename tmp p h3 = (r4, h4)" by force
    then have f4: "faults h4 = []" using f3 by (rule fault_freeD)
    show ?thesis
      using Inr 1 2 3 4 f2 f3 f4 by (simp add: atomicWriteFile_def fault_free split: sum.split)
  qed (simp add: atomicWriteFile_def 1 f1)
qed

lemma wp_WriteFile_any:
  assumes "\<And>r h x. data_at h = (data_at (disk m))(p := x) \<Longrightarrow> (\<forall>q. q \<noteq> p \<longrightarrow> node_at h q = node_at (disk m) q) \<Longrightarrow>
      (faults (disk m) = [] \<Longrightarrow> faults h = []) \<Longrightarrow> Q r (m\<lparr>disk := h\<rparr>)"
  shows "wp (on_disk (os_WriteFile p d)) Q m"
proof (simp only: wp_on_disk, split prod.split, intro allI impI)
  fix r h assume c: "os_WriteFile p d (disk m) = (r, h)"
  have "data_at h = (data_at (disk m))(p := data_at h p)"
    using c other_WriteFile [of _ p d "disk m"] by (intro data_at_upd) simp
  moreover have "\<forall>q. q \<noteq> p \<longrightarrow> node_at h q = node_at (disk m) q"
    using c other_WriteFile [of _ p d "disk m"] by simp
  moreover have "faults h = []" if "faults (disk m) = []" using fault_free_WriteFile [OF that, of p d] c by simp
  ultimately show "Q r (m\<lparr>disk := h\<rparr>)" by (rule assms)
qed

lemma wp_Stat_ok:
  assumes "\<And>r h. data_at h = data_at (disk m) \<Longrightarrow> node_at h = node_at (disk m) \<Longrightarrow>
      (faults (disk m) = [] \<Longrightarrow> faults h = [] \<and> (\<forall>e. r = Inl e \<longrightarrow> data_at (disk m) p = None)) \<Longrightarrow> Q r (m\<lparr>disk := h\<rparr>)"
  shows "wp (on_disk (os_Stat p)) Q m"
proof (simp only: wp_on_disk, split prod.split, intro allI impI)
  fix r h assume c: "os_Stat p (disk m) = (r, h)"
  have "data_at h = data_at (disk m)"
    using read_node(2) [of p "disk m"] c by (intro ext data_at_cong) simp
  moreover have "node_at h = node_at (disk m)" using read_node(2) [of p "disk m"] c by (intro ext) simp
  moreover have "faults h = [] \<and> (\<forall>e. r = Inl e \<longrightarrow> data_at (disk m) p = None)" if "faults (disk m) = []"
    using c that by (auto simp: os_Stat_def next_fault_def data_at_def split: option.splits fs_node.splits)
  ultimately show "Q r (m\<lparr>disk := h\<rparr>)" by (rule assms) 
qed

text \<open>
  What \<open>syncFromShadow\<close> may change, for each shadow copy: temporary files beside its local path, the
  checksum, and the file itself, which then holds the data of the shadow copy. On a working disk
  it does so only when the file was missing, unless the path is a checksum or a temporary file.
\<close>

definition has_shadow :: "('w \<Rightarrow> string \<Rightarrow> bytes option) \<Rightarrow> ('w, 'c) S3Storage \<Rightarrow> string \<Rightarrow> bool" where
  "has_shadow view s m = (view (net s) (shadow_key s m) \<noteq> None)"

definition side_file :: "('w \<Rightarrow> string \<Rightarrow> bytes option) \<Rightarrow> ('w, 'c) S3Storage \<Rightarrow> string \<Rightarrow> bool" where
  "side_file view s q = (\<exists>m. has_shadow view s m
     \<and> (temp_file (filepath_Dir (pending_path s m)) q \<or> q = pending_path s m @ ''.cksum''))"

definition missing :: "('w \<Rightarrow> string \<Rightarrow> bytes option) \<Rightarrow> ('w, 'c) S3Storage \<Rightarrow> string \<Rightarrow> bool" where
  "missing view s m = (faults (disk s) = [] \<longrightarrow>
     data_at (disk s) (pending_path s m) = None \<or> side_file view s (pending_path s m))"

definition restored_at ::
  "('w \<Rightarrow> string \<Rightarrow> bytes option) \<Rightarrow> ('w, 'c) S3Storage \<Rightarrow> string \<Rightarrow> bytes option \<Rightarrow> bool"
where
  "restored_at view s q x = (x = data_at (disk s) q \<or> (\<exists>m. has_shadow view s m
     \<and> (temp_file (filepath_Dir (pending_path s m)) q
        \<or> q = pending_path s m @ ''.cksum'' \<and> missing view s m
        \<or> q = pending_path s m \<and> x = view (net s) (shadow_key s m) \<and> missing view s m)))"

definition restored :: "('w \<Rightarrow> string \<Rightarrow> bytes option) \<Rightarrow> ('w, 'c) S3Storage \<Rightarrow> ('w, 'c) S3Storage \<Rightarrow> bool" where
  "restored view s t = (same_config s t \<and> view (net t) = view (net s) \<and> cache t = cache s
     \<and> (faults (disk s) = [] \<longrightarrow> faults (disk t) = [])
     \<and> (\<forall>q. restored_at view s q (data_at (disk t) q))
     \<and> (\<forall>q. \<not> side_file view s q \<longrightarrow> (\<forall>m. has_shadow view s m \<longrightarrow> q \<noteq> pending_path s m) \<longrightarrow>
          node_at (disk t) q = node_at (disk s) q))"

lemma restored_missing:
  assumes "restored view s t" and "faults (disk s) = [] \<Longrightarrow> data_at (disk t) (pending_path s m) = None"
  shows "missing view s m"
proof -
  have "restored_at view s (pending_path s m) (data_at (disk t) (pending_path s m))"
    using assms(1) by (simp add: restored_def)
  then show ?thesis
    using assms(2) unfolding missing_def restored_at_def side_file_def has_shadow_def by metis
qed

context storage_env
begin

lemma restored_write:
  assumes r: "restored view s t" and v: "view w = view (net s)" "view (net s) (shadow_key s n) = Some d"
    and a: "atomicWriteFile (pending_path s n) d h0 = (x, h)"
    and h0: "data_at h0 = data_at (disk t)" "node_at h0 = node_at (disk t)" "faults (disk s) = [] \<Longrightarrow> faults h0 = []"
    and m: "missing view s n"
  shows "restored view s (t\<lparr>net := w, disk := h\<rparr>)"
proof -
  let ?p = "pending_path s n"
  have sh: "has_shadow view s n" using v(2) by (simp add: has_shadow_def)
  have ff: "faults h = []" if "faults (disk s) = []" using fault_free_atomic [OF h0(3) [OF that], of ?p d] a by simp
  have "restored_at view s q (data_at h q)" for q
  proof (cases "temp_file (filepath_Dir ?p) q")
    case True
    then show ?thesis using sh by (auto simp: restored_at_def)
  next
    case False
    have old: "restored_at view s q (data_at (disk t) q)" using r by (simp add: restored_def)
    show ?thesis
    proof (cases "q = ?p")
      case True
      then have target: "node_at h ?p = (case x of Inl e \<Rightarrow> node_at h0 ?p | Inr _ \<Rightarrow> Some (File d))"
        using atomicWrite_target(1) [OF a] False by simp
      show ?thesis
      proof (cases x)
        case (Inl e)
        then have "data_at h q = data_at (disk t) q" using target True h0(1) by (metis data_at_cong sum.case(1))
        then show ?thesis using old by simp
      next
        case (Inr u)
        then have "data_at h q = Some d" using target True by (simp add: data_at_def)
        then show ?thesis using v(2) True sh m by (auto simp: restored_at_def)
      qed
    next
      case neq: False
      then have "data_at h q = data_at (disk t) q"
        using atomicWrite_other [OF False neq, of h0 d] a h0(1) by (metis data_at_cong keeps_at_def snd_conv)
      then show ?thesis using old by simp
    qed
  qed
  moreover have "node_at h q = node_at (disk s) q"
    if q: "\<not> side_file view s q" "\<forall>m. has_shadow view s m \<longrightarrow> q \<noteq> pending_path s m" for q
  proof -
    have "\<not> temp_file (filepath_Dir ?p) q" and "q \<noteq> ?p" using q sh by (auto simp: side_file_def)
    then have "node_at h q = node_at h0 q" using atomicWrite_other [of ?p q h0 d] a by (simp add: keeps_at_def)
    then show ?thesis using r h0(2) q by (simp add: restored_def)
  qed
  ultimately show ?thesis using r v ff by (simp add: restored_def)
qed

lemma restored_cksum:
  assumes "restored view s t" and "data_at h = (data_at (disk t))(pending_path s n @ ''.cksum'' := x)"
    and "\<forall>q. q \<noteq> pending_path s n @ ''.cksum'' \<longrightarrow> node_at h q = node_at (disk t) q"
    and "faults (disk t) = [] \<Longrightarrow> faults h = []" and "has_shadow view s n" and "missing view s n"
  shows "restored view s (t\<lparr>disk := h\<rparr>)"
proof -
  have "restored_at view s q (data_at h q)" for q
    using assms by (cases "q = pending_path s n @ ''.cksum''") (auto simp: restored_def restored_at_def)
  moreover have "q \<noteq> pending_path s n @ ''.cksum''" if "\<not> side_file view s q" for q
    using that assms(5) by (auto simp: side_file_def)
  ultimately show ?thesis using assms by (simp add: restored_def)
qed

lemma wp_restore_save:
  assumes r: "restored view s t" and k: "view (net s) (shadow_key s n) = Some d"
    and h: "data_at h = data_at (disk t)" "node_at h = node_at (disk t)"
      "faults (disk t) = [] \<Longrightarrow> faults h = [] \<and> data_at (disk t) (pending_path s n) = None"
    and w: "view w = view (net t)"
  shows "wp (on_disk (atomicWriteFile (pending_path s n) d)) (\<lambda>w. wp (case w of Inl _ \<Rightarrow> ret ()
       | Inr _ \<Rightarrow> do { on_disk (os_WriteFile (pending_path s n @ ''.cksum'') (cksum_of d)); ret () }) (\<lambda>_. restored view s))
     (t\<lparr>disk := h, net := w\<rparr>)"
proof -
  have ft: "faults (disk t) = []" if "faults (disk s) = []" using r that by (simp add: restored_def)
  have vt: "view (net t) = view (net s)" using r by (simp add: restored_def)
  have sh: "has_shadow view s n" using k by (simp add: has_shadow_def)
  have m: "missing view s n" by (rule restored_missing [OF r]) (use h ft in blast)
  have rest: "wp (case x of Inl _ \<Rightarrow> ret ()
       | Inr _ \<Rightarrow> do { on_disk (os_WriteFile (pending_path s n @ ''.cksum'') (cksum_of d)); ret () }) (\<lambda>_. restored view s) u"
    if u: "restored view s u" for u and x :: "error + unit"
  proof (cases x)
    case (Inr v)
    show ?thesis
      unfolding Inr sum.case wp_bind wp_fun
      by (rule wp_WriteFile_any) (auto intro: restored_cksum [OF u] sh m)
  qed (use u in \<open>simp add: wp_return\<close>)
  have "restored view s (t\<lparr>net := w, disk := h'\<rparr>)" if "atomicWriteFile (pending_path s n) d h = (x, h')" for x h'
    by (rule restored_write [OF r _ k that]) (use h w vt ft m in auto)
  then have "restored view s (t\<lparr>disk := h, net := w\<rparr>\<lparr>disk := h'\<rparr>)"
    if "atomicWriteFile (pending_path s n) d h = (x, h')" for x h'
    using that by (simp add: restored_def)
  then show ?thesis by (subst wp_on_disk) (auto split: prod.split intro: rest)
qed

lemma restore_shadow_effect:
  assumes r: "restored view s t" and k: "key = shadow_key s n"
  shows "wp (restore_shadow D key) (\<lambda>_. restored view s) t"
proof -
  have c: "shadowPrefix t = shadowPrefix s" "pendingDir t = pendingDir s"
    using r by (simp_all add: restored_def same_config_def)
  have tp: "TrimPrefix key (shadowPrefix s @ ''/'') = n" unfolding k shadow_key_def by (metis TrimPrefix_append append.assoc)
  let ?p = "pending_path s n"
  have same: "restored view s (t\<lparr>disk := h\<rparr>)" if "data_at h = data_at (disk t)" "node_at h = node_at (disk t)" "faults (disk t) = [] \<Longrightarrow> faults h = []" for h
    using r that by (simp add: restored_def)
  show ?thesis
  proof (cases "n = ''''")
    case True
    then show ?thesis using r by (simp add: restore_shadow_def wp_simps c tp)
  next
    case False
    have "wp (on_disk (os_Stat ?p)) (\<lambda>st. wp (case st of Inr _ \<Rightarrow> ret ()
       | Inl _ \<Rightarrow> do {
           r \<leftarrow> on_net (api_GetBytes (api D) StorageCtx key);
           case r of Inl _ \<Rightarrow> ret ()
           | Inr data \<Rightarrow> do {
               w \<leftarrow> on_disk (atomicWriteFile ?p data);
               case w of Inl _ \<Rightarrow> ret ()
               | Inr _ \<Rightarrow> do { on_disk (os_WriteFile (?p @ ''.cksum'') (cksum_of data)); ret () } } }) (\<lambda>_. restored view s)) t"
    proof (rule wp_Stat_ok, goal_cases)
      case (1 st h)
      show ?case
      proof (cases st)
        case (Inl e)
        show ?thesis
          unfolding Inl sum.case wp_bind
        proof (rule wp_get, goal_cases)
          case g: (1 d w)
          then show ?case unfolding sum.case wp_bind using 1 Inl r k by (intro wp_restore_save) (auto simp: restored_def)
        next
          case g: (2 e' w)
          have "restored view s (t\<lparr>disk := h\<rparr>)" using same 1 by blast
          then show ?case using g by (simp add: wp_return restored_def)
        qed
      next
        case (Inr b)
        then show ?thesis using same 1 by (simp add: wp_return)
      qed
    qed
    then show ?thesis using False
      by (simp only: restore_shadow_def wp_bind [of "gets _"] wp_gets wp_let c tp if_False wp_bind [of "on_disk _"] pending_path_def)
  qed
qed

lemma syncFromShadow_effect: "wp (syncFromShadow D) (\<lambda>_. restored view s) s"
proof -
  have r0: "restored view s s" by (simp add: restored_def restored_at_def)
  have net: "restored view s (s\<lparr>net := w\<rparr>)" if "view w = view (net s)" for w
    using that by (simp add: restored_def restored_at_def)
  have loop: "wp (for_each ks (restore_shadow D)) (\<lambda>_. restored view s) (s\<lparr>net := w\<rparr>)"
    if v: "view w = view (net s)" and ks: "set ks \<subseteq> {k. HasPrefix k (shadowPrefix s @ ''/'')}" for ks w
  proof (rule wp_for_each [where I = "restored view s"], goal_cases)
    case (1 k t)
    then obtain n where "k = shadow_key s n" using ks by (auto simp: HasPrefix_iff shadow_key_def)
    with 1 show ?case by (intro restore_shadow_effect)
  qed (use v net in simp_all)
  then show ?thesis
    unfolding syncFromShadow_def
    by (auto simp: wp_simps wp_fun r0 net intro!: wp_names loop)
qed

end

text \<open>
  When the shadow prefix holds only names of files, restoring keeps every pending file, its checksum
  and the directory.
\<close>

definition clean_shadows :: "('w, 'c) storage_deps \<Rightarrow> ('w \<Rightarrow> string \<Rightarrow> bytes option) \<Rightarrow> ('w, 'c) S3Storage \<Rightarrow> bool" where
  "clean_shadows D view s = (\<forall>m. has_shadow view s m \<longrightarrow> (\<exists>fd. valid_fd fd \<and> m = fdString D fd))"

lemma parsed_no_dot: "parseFileDesc n = Some fd \<Longrightarrow> \<not> HasPrefix n ''.''"
proof
  assume p: "parseFileDesc n = Some fd" and "HasPrefix n ''.''"
  then obtain r where r: "n = CHR ''.'' # r" by (auto simp: HasPrefix_iff)
  have "parse_numbered (CHR ''.'' # r) = None"
    by (simp add: parse_numbered_def scan_d_def scan_sign_def is_space_def is_digit_def)
  moreover have "parse_manifest (CHR ''.'' # r) = None"
    by (simp add: parse_manifest_def scan_lit_def HasPrefix_def)
  ultimately show False using p r by (simp add: parseFileDesc_def)
qed

lemma temp_file_dot: "clean_dir d \<Longrightarrow> temp_file d (dir_prefix d @ n) \<Longrightarrow> HasPrefix n ''.''"
  using temp_path_plain Join_dir_prefix by (auto simp: temp_file_def temp_path_def HasPrefix_def)

context storage_env
begin

lemma clean_shadow_path:
  assumes "clean_shadows D view s" and "clean_dir (pendingDir s)" and "has_shadow view s m"
  shows "pending_path s m = dir_prefix (pendingDir s) @ m" and "filepath_Dir (pending_path s m) = pendingDir s"
    and "\<not> HasSuffix m ''.cksum''" and "m \<noteq> ''''"
proof -
  obtain fd where fd: "valid_fd fd" "m = fdString D fd" using assms(1,3) by (auto simp: clean_shadows_def)
  then have "plain_name m" using name_plain by simp
  then show "pending_path s m = dir_prefix (pendingDir s) @ m"
    using assms(2) by (simp add: pending_path_def Join_dir_prefix)
  show "filepath_Dir (pending_path s m) = pendingDir s" using pending_path_plain(1) [OF fd(1) assms(2)] fd(2) by simp
  show "\<not> HasSuffix m ''.cksum''" using name_not_cksum fd by simp
  show "m \<noteq> ''''" using name_not_Nil fd by simp
qed

lemma restored_pending:
  assumes r: "restored view s t" and dir: "clean_dir (pendingDir s)" and cs: "clean_shadows D view s"
    and ok: "faults (disk s) = []" and n: "n \<in> pending_names s"
  shows "pending_data t n = pending_data s n" and "pending_data t (n @ ''.cksum'') = pending_data s (n @ ''.cksum'')"
proof -
  have sc: "pendingDir t = pendingDir s" using r by (simp add: restored_def same_config_def)
  have nn: "n \<noteq> []" "\<not> HasSuffix n ''.cksum''" "pending_data s n \<noteq> None" using n by (auto simp: pending_names_def)
  have dot: "\<not> HasPrefix n ''.''" using n parsed_no_dot by (auto simp: pending_names_def)
  then have dot': "\<not> HasPrefix (n @ x) ''.''" for x using nn(1) by (cases n) (auto simp: HasPrefix_def)
  note path = clean_shadow_path [OF cs dir]
  have no_temp: "\<not> temp_file (pendingDir s) (dir_prefix (pendingDir s) @ n @ x)" for x
    using temp_file_dot [OF dir] dot' by blast
  have side: "\<not> side_file view s (dir_prefix (pendingDir s) @ n)"
    unfolding side_file_def using path no_temp [of "''''"] nn(2) cksum_suffix by auto
  have miss: "\<not> missing view s n" if "has_shadow view s n"
    using ok nn(3) side path(1) [OF that] by (simp add: missing_def pending_data_def)
  have at: "restored_at view s q (data_at (disk t) q)" for q using r by (simp add: restored_def)
  have "data_at (disk t) (dir_prefix (pendingDir s) @ n) = data_at (disk s) (dir_prefix (pendingDir s) @ n)"
    using at [of "dir_prefix (pendingDir s) @ n"] no_temp [of "''''"] path nn(2) cksum_suffix miss
    by (auto simp: restored_at_def)
  then show "pending_data t n = pending_data s n" by (simp add: pending_data_def sc)
  have suf: "\<not> has_shadow view s (n @ ''.cksum'')" using path(3) cksum_suffix by blast
  have "data_at (disk t) (dir_prefix (pendingDir s) @ n @ ''.cksum'') = data_at (disk s) (dir_prefix (pendingDir s) @ n @ ''.cksum'')"
    using at [of "dir_prefix (pendingDir s) @ n @ ''.cksum''"] no_temp [of "''.cksum''"] path miss suf
    by (auto simp: restored_at_def)
  then show "pending_data t (n @ ''.cksum'') = pending_data s (n @ ''.cksum'')" by (simp add: pending_data_def sc)
qed

lemma restored_dir:
  assumes r: "restored view s t" and dir: "clean_dir (pendingDir s)" and cs: "clean_shadows D view s"
  shows "dir_exists (disk t) (pendingDir s) = dir_exists (disk s) (pendingDir s)"
proof -
  note path = clean_shadow_path [OF cs dir]
  have ne: "dir_prefix (pendingDir s) @ m \<noteq> pendingDir s" if "m \<noteq> ''''" for m
  proof
    assume "dir_prefix (pendingDir s) @ m = pendingDir s"
    then have "length (dir_prefix (pendingDir s)) + length m = length (pendingDir s)" by (metis length_append)
    moreover have "length (pendingDir s) \<le> length (dir_prefix (pendingDir s))"
      using dir by (auto simp: dir_prefix_def clean_dir_def)
    ultimately show False using that by (cases m) simp_all
  qed
  have "\<not> side_file view s (pendingDir s)"
    unfolding side_file_def using path ne [of "_ @ ''.cksum''", symmetric] dir_not_temp [OF dir] by auto
  moreover have "\<forall>m. has_shadow view s m \<longrightarrow> pendingDir s \<noteq> pending_path s m" using path ne by metis
  ultimately have "node_at (disk t) (pendingDir s) = node_at (disk s) (pendingDir s)" using r by (simp add: restored_def)
  then show ?thesis by (simp add: dir_exists_def)
qed

end

section \<open>Properties\<close>

text \<open>
  C30: On a working disk \<open>readPendingFiles\<close> returns exactly the data files of the directory that parse and
  that no checksum refutes, each once and with its data, tables before journals before manifests
  before the rest; and it deletes exactly the refuted ones, with their checksums.
\<close>

theorem readPendingFiles_exact:
  assumes "slice_sort sorter" and "clean_dir (pendingDir s)" and "faults (disk s) = []"
    and "dir_exists (disk s) (pendingDir s)" and "run_state (readPendingFiles sorter) s = (r, t)"
  shows "\<exists>es. r = Inr es \<and> distinct es
    \<and> sorted (map (\<lambda>e. pendingFilePriority (pe_fd e)) es)
    \<and> set es = pending_entry s ` {n \<in> pending_names s. intact s n}
    \<and> data_at (disk t) = (\<lambda>q. if \<exists>n \<in> pending_names s. \<not> intact s n \<and> q \<in> entry_files s n then None
        else data_at (disk s) q)
    \<and> net t = net s \<and> cache t = cache s"
proof -
  have "pendingDir s \<noteq> ''''" using assms(2) clean_dir_not_Nil by auto
  then have "\<not> unread s t" using assms(3,4) by (simp add: unread_def)
  moreover have "files_read s r t" using readPendingFiles_run [OF assms(1) _ assms(5)] assms(2) by simp
  ultimately obtain es where es: "r = Inr es" "sorted (map (\<lambda>e. pendingFilePriority (pe_fd e)) es)"
    and rd: "reading s UNIV es t" by (cases r) (auto simp: files_read_def)
  have names: "pe_name ` set es = {n \<in> pending_names s. intact s n}" and d: "distinct (map pe_name es)"
    and e: "\<And>e. e \<in> set es \<Longrightarrow> e = pending_entry s (pe_name e)"
    using rd assms(3) by (auto simp: reading_def corrupt_names_def)
  have "set es = (\<lambda>e. pending_entry s (pe_name e)) ` set es" using e by force
  then have "set es = pending_entry s ` {n \<in> pending_names s. intact s n}" using names by (metis image_image)
  moreover have "distinct es" using d by (simp add: distinct_map)
  moreover have "data_at (disk t) q = (if \<exists>n \<in> pending_names s. \<not> intact s n \<and> q \<in> entry_files s n then None
      else data_at (disk s) q)" for q
    using rd assms(3) by (auto simp: reading_def corrupt_names_def)
  moreover have "net t = net s" "cache t = cache s" using rd disk_only_fields [of s t] by (auto simp: reading_def)
  ultimately show ?thesis using es by blast
qed

theorem readPendingFiles_exact_witness:
  "\<exists>es t. run_state (readPendingFiles slice_insertion)
       (demo_storage [] [] [(''/c/db/pending_uploads/000002.log'', File ''j''), (''/c/db/pending_uploads/000001.ldb'', File ''t'')])
     = (Inr es, t) \<and> sorted (map (\<lambda>e. pendingFilePriority (pe_fd e)) es)"
proof -
  let ?s = "demo_storage [] [] [(''/c/db/pending_uploads/000002.log'', File ''j''), (''/c/db/pending_uploads/000001.ldb'', File ''t'')]"
  obtain r t where t: "run_state (readPendingFiles slice_insertion) ?s = (r, t)" by force
  have "faults (disk ?s) = []" "dir_exists (disk ?s) (pendingDir ?s)" "clean_dir (pendingDir ?s)"
    by (simp_all add: demo_storage_def dir_exists_def node_at_def)
  from readPendingFiles_exact [OF go_sort.slice_sort_axioms this(3,1,2) t] t show ?thesis by auto
qed

text \<open>
  \<open>persistToLocal\<close> ignores that writing the checksum failed. When the checksum of an older version
  is still there, it returns nil, and the next \<open>readPendingFiles\<close> takes the new data for corrupt and
  deletes it.
\<close>

theorem stale_checksum_deletes_data:
  assumes "storage_env D view content" and "valid_fd fd" and "clean_dir (pendingDir s)"
    and "run_state (persistToLocal D fd data) s = (None, t)"
    and "data_at (disk t) (pending_path s (fdString D fd) @ ''.cksum'') = Some c" and "TrimSpace c \<noteq> cksum_of data"
    and "slice_sort sorter" and "faults (disk t) = []" and "dir_exists (disk t) (pendingDir s)"
    and "run_state (readPendingFiles sorter) t = (r, u)"
  shows "data_at (disk t) (pending_path s (fdString D fd)) = Some data
    \<and> data_at (disk u) (pending_path s (fdString D fd)) = None
    \<and> (\<exists>es. r = Inr es \<and> fdString D fd \<notin> pe_name ` set es)"
proof -
  let ?n = "fdString D fd"
  have fn: "file_naming (fdString D)" using assms(1) by (simp add: storage_env_def)
  note p = storage_env.persistToLocal_effect [OF assms(1-3), THEN wp_run, OF assms(4)]
  then have d: "data_at (disk t) (pending_path s ?n) = Some data" and sc: "same_config s t" by (auto simp: within_def)
  have dir: "pendingDir t = pendingDir s" using sc by (simp add: same_config_def)
  have plain: "plain_name ?n" using file_naming.name_plain [OF fn assms(2)] .
  then have path: "pending_path s ?n = dir_prefix (pendingDir t) @ ?n"
    using assms(3) by (simp add: pending_path_def Join_dir_prefix dir)
  have n: "?n \<in> pending_names t"
    using file_naming.name_not_Nil [OF fn assms(2)] file_naming.name_chars(1) [OF fn assms(2)]
      file_naming.name_not_cksum [OF fn assms(2)] file_naming.parse_name [OF fn assms(2)] d path
    by (auto simp: pending_names_def pending_data_def)
  have bad: "\<not> intact t ?n" using d assms(5,6) path by (simp add: intact_def pending_data_def)
  obtain es where es: "r = Inr es" "set es = pending_entry t ` {n \<in> pending_names t. intact t n}"
    and gone: "data_at (disk u) = (\<lambda>q. if \<exists>n \<in> pending_names t. \<not> intact t n \<and> q \<in> entry_files t n then None
        else data_at (disk t) q)"
    using readPendingFiles_exact [OF assms(7) _ assms(8) _ assms(10)] assms(3,9) dir by auto
  have "pending_path s ?n \<in> entry_files t ?n" using path by (simp add: entry_files_def)
  then have "data_at (disk u) (pending_path s ?n) = None" unfolding gone using n bad by (meson if_P)
  moreover have "pe_name ` set es = {n \<in> pending_names t. intact t n}"
    unfolding es(2) by (simp add: image_image pending_entry_def)
  then have "?n \<notin> pe_name ` set es" using bad by blast
  ultimately show ?thesis using d es(1) by blast
qed

lemmas pending_exec = storage_exec
  retry_pending_entry_def [THEN wp_unfold] RetryPendingUploads_def [THEN wp_unfold] fold_each.simps [THEN wp_unfold]

lemma demo_cksum: "TrimSpace ''00000000'' \<noteq> cksum_of ''new''"
  by (simp add: cksum_of_def crc_eval fmt_eval)

theorem stale_checksum_deletes_data_witness:
  "\<exists>t r u. run_state (persistToLocal demo_deps (FileDesc TypeTable 1) ''new'')
       (disk_update (faults_update (\<lambda>_. [OsOk, OsOk, OsOk, OsOk, OsOk, OsErr]))
         (demo_storage [] [] [(''/c/db/pending_uploads/000001.ldb'', File ''old''),
            (''/c/db/pending_uploads/000001.ldb.cksum'', File ''00000000'')])) = (None, t)
     \<and> run_state (readPendingFiles slice_insertion) t = (r, u)
     \<and> data_at (disk t) ''/c/db/pending_uploads/000001.ldb'' = Some ''new''
     \<and> data_at (disk u) ''/c/db/pending_uploads/000001.ldb'' = None"
proof -
  let ?s = "disk_update (faults_update (\<lambda>_. [OsOk, OsOk, OsOk, OsOk, OsOk, OsErr]))
         (demo_storage [] [] [(''/c/db/pending_uploads/000001.ldb'', File ''old''),
            (''/c/db/pending_uploads/000001.ldb.cksum'', File ''00000000'')])"
  have "wp (persistToLocal demo_deps (FileDesc TypeTable 1) ''new'') (\<lambda>r t. r = None \<and> faults (disk t) = []
      \<and> dir_exists (disk t) ''/c/db/pending_uploads''
      \<and> data_at (disk t) ''/c/db/pending_uploads/000001.ldb.cksum'' = Some ''00000000'') ?s"
    by (simp add: demo_storage_def pending_exec demo_option_def wp_exec mem_eval host_eval path_eval atomicWriteFile_def
        demo_fd AList.delete_eq fmt_eval del: leveldb_String.simps cong: wp_state_cong)
  then obtain t where t: "run_state (persistToLocal demo_deps (FileDesc TypeTable 1) ''new'') ?s = (None, t)"
    and ft: "faults (disk t) = []" and dt: "dir_exists (disk t) ''/c/db/pending_uploads''"
    and ct: "data_at (disk t) ''/c/db/pending_uploads/000001.ldb.cksum'' = Some ''00000000''"
    by (auto simp: wp_def split: prod.splits)
  obtain r u where u: "run_state (readPendingFiles slice_insertion) t = (r, u)" by force
  have pd: "pendingDir ?s = ''/c/db/pending_uploads''" by simp
  have p: "pending_path ?s (fdString demo_deps (FileDesc TypeTable 1)) = ''/c/db/pending_uploads/000001.ldb''"
    unfolding demo_deps_simps demo_fd by (simp add: pending_path_def path_eval)
  have cd: "clean_dir (pendingDir ?s)" by simp
  have ct': "data_at (disk t) (''/c/db/pending_uploads/000001.ldb'' @ ''.cksum'') = Some ''00000000''" using ct by simp
  from stale_checksum_deletes_data [OF demo_env demo_fd(1) cd t, unfolded p pd,
      OF ct' demo_cksum go_sort.slice_sort_axioms ft dt u] t u
  show ?thesis by blast
qed

text \<open>
  \<open>RetryPendingUploads\<close> does not skip checksum files, and the name of a manifest's checksum parses as
  the manifest. So it uploads the manifest, then its checksum text over it, counts two successes
  and deletes the local copy; and it does this also when the lock is not held or is lost.
\<close>

theorem RetryPendingUploads_overwrites_manifest:
  "\<exists>t. run_state (RetryPendingUploads demo_deps)
       ((demo_storage [] [] [(''/c/db/pending_uploads/MANIFEST-000004'', File d),
          (''/c/db/pending_uploads/MANIFEST-000004.cksum'', File c)])\<lparr>lockLost := True, lockHeld := False\<rparr>)
     = (((2, 0), None), t)
   \<and> sim_objs (net t) ''MANIFEST-000004'' = Some c
   \<and> data_at (disk t) ''/c/db/pending_uploads/MANIFEST-000004'' = None"
proof -
  let ?s = "(demo_storage [] [] [(''/c/db/pending_uploads/MANIFEST-000004'', File d),
          (''/c/db/pending_uploads/MANIFEST-000004.cksum'', File c)])\<lparr>lockLost := True, lockHeld := False\<rparr>"
  have parse: "parseFileDesc ''MANIFEST-000004.cksum'' = Some (FileDesc TypeManifest 4)" by (simp add: fmt_simps)
  have "wp (RetryPendingUploads demo_deps) (\<lambda>r t. r = ((2, 0), None)
     \<and> sim_objs (net t) ''MANIFEST-000004'' = Some c
     \<and> data_at (disk t) ''/c/db/pending_uploads/MANIFEST-000004'' = None) ?s"
    by (simp add: demo_storage_def pending_exec demo_option_def wp_exec mem_eval host_eval path_eval
        demo_fd demo_parse parse AList.delete_eq HasPrefix_def del: leveldb_String.simps cong: wp_state_cong)
  then show ?thesis by (auto simp: wp_def split: prod.splits)
qed

end
