(* ===== verification/Upload_Pool.thy ===== *)
theory Upload_Pool
  imports Pending_Files
begin

text \<open>
  The goroutines that upload the pending files (\<^verbatim>\<open>s3/storage.go\<close>). \<open>syncPendingToS3\<close> and
  \<open>retryPendingFilesOnce\<close> start one goroutine per file, at most \<^verbatim>\<open>PendingMaxConcurrency\<close> at a time. A
  goroutine is a program counter: each of its requests and system calls is one step, and a list of
  numbers says which goroutine moves next. A statement about every such list is a statement about
  every interleaving.
\<close>

section \<open>A pool of goroutines\<close>

datatype 'st progress = Running 'st | Finished "error option"

text \<open>
  The files whose goroutine has not been started (the loop blocks in \<^verbatim>\<open>sem <- struct{}{}\<close>), the running
  goroutines, and what the finished ones have returned, in that order.
\<close>

record 'st pool =
  waiting :: "pendingFileEntry list"
  running :: "(pendingFileEntry \<times> 'st) list"
  results :: "(string \<times> error option) list"

definition start_pool :: "pendingFileEntry list \<Rightarrow> 'st pool" where
  "start_pool files = \<lparr>waiting = files, running = [], results = []\<rparr>"

definition pool_done :: "'st pool \<Rightarrow> bool" where
  "pool_done p = (waiting p = [] \<and> running p = [])"

definition can_start :: "int \<Rightarrow> 'st pool \<Rightarrow> bool" where
  "can_start cap p = (waiting p \<noteq> [] \<and> int (length (running p)) < cap)"

definition start_next :: "'st \<Rightarrow> 'st pool \<Rightarrow> 'st pool" where
  "start_next init p = p\<lparr>waiting := tl (waiting p), running := running p @ [(hd (waiting p), init)]\<rparr>"

definition advance :: "nat \<Rightarrow> 'st progress \<Rightarrow> 'st pool \<Rightarrow> 'st pool" where
  "advance i r p = (case running p ! i of (f, _) \<Rightarrow>
     (case r of
        Running st \<Rightarrow> p\<lparr>running := (running p)[i := (f, st)]\<rparr>
      | Finished e \<Rightarrow> p\<lparr>running := take i (running p) @ drop (Suc i) (running p),
                      results := results p @ [(pe_name f, e)]\<rparr>))"

text \<open>One step: the goroutine that \<open>choice\<close> names, or the loop that starts the next one.\<close>

definition pool_step ::
  "(pendingFileEntry \<Rightarrow> 'st \<Rightarrow> ('s, 'st progress) state) \<Rightarrow> 'st \<Rightarrow> int \<Rightarrow> nat \<Rightarrow> 'st pool \<Rightarrow> ('s, 'st pool) state"
where
  "pool_step task init cap choice p =
     (let n = length (running p);
          i = choice mod (n + (if can_start cap p then 1 else 0))
      in if pool_done p then ret p
         else if i < n then do { r \<leftarrow> task (fst (running p ! i)) (snd (running p ! i)); ret (advance i r p) }
         else ret (start_next init p))"

fun pool_run ::
  "(pendingFileEntry \<Rightarrow> 'st \<Rightarrow> ('s, 'st progress) state) \<Rightarrow> 'st \<Rightarrow> int \<Rightarrow> nat \<Rightarrow> nat list \<Rightarrow> 'st pool
     \<Rightarrow> ('s, 'st pool) state"
where
  "pool_run task init cap 0 sched p = ret p"
| "pool_run task init cap (Suc fuel) sched p = do {
     p' \<leftarrow> pool_step task init cap (case sched of [] \<Rightarrow> 0 | c # _ \<Rightarrow> c) p;
     pool_run task init cap fuel (tl sched) p' }"

section \<open>Recovery after a crash\<close>

text \<open>The goroutine of \<open>syncPendingToS3\<close>, by the call it makes next.\<close>

datatype recover_stage = RecPut | RecRemove | RecRemoveCksum | RecShadow | RecCache

fun recover_task ::
  "('w, 'c) storage_deps \<Rightarrow> pendingFileEntry \<Rightarrow> recover_stage \<Rightarrow> (('w, 'c) S3Storage, recover_stage progress) state"
where
  "recover_task D f RecPut = do {
     e \<leftarrow> on_net (api_PutBytes (api D) StorageCtx (pe_name f) (pe_data f));
     ret (case e of Some err \<Rightarrow> Finished (Some err) | None \<Rightarrow> Running RecRemove) }"
| "recover_task D f RecRemove = do { on_disk (os_Remove (pe_localPath f)); ret (Running RecRemoveCksum) }"
| "recover_task D f RecRemoveCksum = do { on_disk (os_Remove (pe_localPath f @ ''.cksum'')); ret (Running RecShadow) }"
| "recover_task D f RecShadow = do { cleanShadow D (pe_name f); ret (Running RecCache) }"
| "recover_task D f RecCache = do {
     maxSize \<leftarrow> gets (\<lambda>s. MaxFileSize (opt s));
     (if int (length (pe_data f)) \<le> maxSize then cache_add D (pe_fd f) (pe_data f) else ret ());
     ret (Finished None) }"

definition upload_concurrency :: "('w, 'c) S3Storage \<Rightarrow> int" where
  "upload_concurrency s =
     (if PendingMaxConcurrency (opt s) \<le> 0 then DefaultPendingMaxConcurrency else PendingMaxConcurrency (opt s))"

definition first_error :: "(string \<times> error option) list \<Rightarrow> error option" where
  "first_error rs = (case filter (\<lambda>r. snd r \<noteq> None) rs of [] \<Rightarrow> None | r # _ \<Rightarrow> snd r)"

text \<open>Each file takes one step to start and five to upload, so six steps per file end the pool.\<close>

definition recover_files ::
  "nat list \<Rightarrow> ('w, 'c) storage_deps \<Rightarrow> pendingFileEntry list \<Rightarrow> (('w, 'c) S3Storage, recover_stage pool) state"
where
  "recover_files sched D files = do {
     cap \<leftarrow> gets upload_concurrency;
     pool_run (recover_task D) RecPut cap (6 * length files) sched (start_pool files) }"

definition syncPendingToS3 ::
  "slice_sorter \<Rightarrow> nat list \<Rightarrow> ('w, 'c) storage_deps \<Rightarrow> (('w, 'c) S3Storage, error option) state"
where
  "syncPendingToS3 sorter sched D = do {
     dir \<leftarrow> gets pendingDir;
     if dir = '''' then ret None else do {
       syncFromShadow D;
       r \<leftarrow> readPendingFiles sorter;
       case r of
         Inl err \<Rightarrow> ret (Some (Wrapf ''failed to read pending dir'' err))
       | Inr files \<Rightarrow>
           (if files = [] then ret None
            else do { p \<leftarrow> recover_files sched D files; ret (first_error (results p)) }) } }"

section \<open>The pool ends\<close>

text \<open>
  A rank of the stages that every step lowers bounds the run. The steps may need an invariant of the
  state and of the stages.
\<close>

definition pool_rank :: "('st \<Rightarrow> nat) \<Rightarrow> nat \<Rightarrow> 'st pool \<Rightarrow> nat" where
  "pool_rank rank per p = per * length (waiting p) + sum_list (map (\<lambda>x. rank (snd x)) (running p))"

lemma sum_list_update: "i < length (xs :: nat list) \<Longrightarrow> sum_list (xs[i := y]) + xs ! i = sum_list xs + y"
  by (induction xs arbitrary: i) (auto split: nat.split)

lemma sum_list_remove: "i < length xs \<Longrightarrow> sum_list (take i xs @ drop (Suc i) xs) + xs ! i = sum_list (xs :: nat list)"
proof -
  assume "i < length xs"
  then have "xs = take i xs @ xs ! i # drop (Suc i) xs" by (rule id_take_nth_drop)
  then have "sum_list xs = sum_list (take i xs @ xs ! i # drop (Suc i) xs)" by (rule arg_cong)
  then show ?thesis by simp
qed

text \<open>The step that a number names, for a pool that is not done.\<close>

lemma wp_pool_step:
  assumes "\<not> pool_done p" and "1 \<le> cap"
    and "\<And>i. i < length (running p) \<Longrightarrow>
      wp (task (fst (running p ! i)) (snd (running p ! i))) (\<lambda>r. Q (advance i r p)) s"
    and "can_start cap p \<Longrightarrow> Q (start_next init p) s"
  shows "wp (pool_step task init cap c p) Q s"
proof (cases "c mod (length (running p) + (if can_start cap p then 1 else 0)) < length (running p)")
  case True
  then show ?thesis using assms(1,3) by (simp add: pool_step_def Let_def wp_simps wp_fun)
next
  case False
  have "can_start cap p"
  proof (rule ccontr)
    assume n: "\<not> can_start cap p"
    with False have "running p = []" by (metis add.right_neutral length_greater_0_conv mod_less_divisor)
    then show False using n assms(1,2) by (simp add: can_start_def pool_done_def)
  qed
  then show ?thesis using False assms(1,4) by (simp add: pool_step_def Let_def wp_return)
qed

lemma pool_step_done: "pool_done p \<Longrightarrow> wp (pool_step task init cap c p) Q s = Q p s"
  by (simp add: pool_step_def Let_def wp_return)

text \<open>An invariant of the steps is one of the run.\<close>

lemma wp_pool_run:
  assumes "\<And>c p s. I p s \<Longrightarrow> \<not> pool_done p \<Longrightarrow> wp (pool_step task init cap c p) I s"
    and "I p s" and "\<And>p s. I p s \<Longrightarrow> Q p s"
  shows "wp (pool_run task init cap n sched p) Q s"
  using assms(2)
proof (induction n arbitrary: sched p s)
  case 0
  then show ?case using assms(3) by (simp add: wp_return)
next
  case (Suc n)
  have "wp (pool_step task init cap c p) I s" for c
    using assms(1) [OF Suc.prems] Suc.prems by (cases "pool_done p") (auto simp: pool_step_done)
  then show ?case using Suc.IH by (simp add: wp_bind) (blast intro: wp_weaken)
qed

locale ranked_task =
  fixes task :: "pendingFileEntry \<Rightarrow> 'st \<Rightarrow> ('s, 'st progress) state" and init :: 'st
    and rank :: "'st \<Rightarrow> nat" and per :: nat and ok_state :: "'s \<Rightarrow> bool" and ok_stage :: "'st \<Rightarrow> bool"
  assumes rank_pos: "0 < rank st" and rank_init: "rank init < per" and ok_init: "ok_stage init"
    and task_rank: "ok_state s \<Longrightarrow> ok_stage st \<Longrightarrow> wp (task f st) (\<lambda>r t. ok_state t
      \<and> (\<forall>st'. r = Running st' \<longrightarrow> ok_stage st' \<and> rank st' < rank st)) s"
begin

definition ok_pool :: "'st pool \<Rightarrow> bool" where
  "ok_pool p = (\<forall>x \<in> set (running p). ok_stage (snd x))"

lemma pool_rank_done: "pool_rank rank per p = 0 \<longleftrightarrow> pool_done p"
  using rank_init rank_pos by (cases "running p") (auto simp: pool_rank_def pool_done_def)

lemma advance_rank:
  assumes i: "i < length (running p)" and ok: "ok_pool p"
    and r: "\<And>st'. r = Running st' \<Longrightarrow> ok_stage st' \<and> rank st' < rank (snd (running p ! i))"
  shows "ok_pool (advance i r p) \<and> pool_rank rank per (advance i r p) < pool_rank rank per p"
proof -
  let ?f = "\<lambda>x. rank (snd x)"
  obtain f st where fst: "running p ! i = (f, st)" by force
  have rk: "pool_rank rank per q = per * length (waiting q) + sum_list (map ?f (running q))" for q
    by (simp add: pool_rank_def)
  show ?thesis
  proof (cases r)
    case (Running st')
    then have "set ((running p)[i := (f, st')]) \<subseteq> insert (f, st') (set (running p))" by (rule_tac set_update_subset_insert)
    then have "ok_pool (advance i r p)" using ok r Running by (auto simp: ok_pool_def advance_def fst)
    then show ?thesis
      using sum_list_update [of i "map ?f (running p)" "rank st'"] r i fst Running
      by (simp add: rk advance_def map_update)
  next
    case (Finished e)
    have "sum_list (map ?f (take i (running p) @ drop (Suc i) (running p))) + ?f (running p ! i) = sum_list (map ?f (running p))"
      using sum_list_remove [of i "map ?f (running p)"] i by (simp add: take_map drop_map)
    moreover have "0 < ?f (running p ! i)" by (rule rank_pos)
    ultimately have "sum_list (map ?f (take i (running p) @ drop (Suc i) (running p))) < sum_list (map ?f (running p))" by linarith
    then show ?thesis
      using fst ok by (auto simp: rk ok_pool_def advance_def Finished dest: in_set_takeD in_set_dropD)
  qed
qed

lemma pool_step_rank:
  assumes "\<not> pool_done p" and "1 \<le> cap" and "ok_pool p" and "ok_state s"
  shows "wp (pool_step task init cap c p) (\<lambda>p' t. ok_state t \<and> ok_pool p' \<and> pool_rank rank per p' < pool_rank rank per p) s"
proof (rule wp_pool_step [OF assms(1,2)], goal_cases)
  case (1 i)
  then have "ok_stage (snd (running p ! i))" using assms(3) by (simp add: ok_pool_def)
  from task_rank [OF assms(4) this] show ?case
    by (rule wp_weaken) (use advance_rank [OF 1 assms(3)] in blast)
next
  case 2
  then show ?case
    using assms(3,4) rank_init ok_init
    by (cases "waiting p") (auto simp: start_next_def pool_rank_def can_start_def ok_pool_def)
qed

lemma pool_ends:
  assumes "pool_rank rank per p \<le> n" and "1 \<le> cap" and "ok_pool p" and "ok_state s"
  shows "wp (pool_run task init cap n sched p) (\<lambda>p' t. pool_done p') s"
  using assms(1,3,4)
proof (induction n arbitrary: sched p s)
  case 0
  then show ?case using pool_rank_done [of p] by (simp add: wp_return)
next
  case (Suc n)
  show ?case
  proof (cases "pool_done p")
    case True
    then have "pool_rank rank per p \<le> n" using pool_rank_done [of p] by simp
    then show ?thesis using True Suc by (simp add: wp_bind pool_step_done)
  next
    case False
    show ?thesis
      unfolding pool_run.simps wp_bind
      by (rule wp_weaken [OF pool_step_rank [OF False assms(2) Suc.prems(2,3)]]) (use Suc in auto)
  qed
qed

lemma started_pool_ends:
  "per * length files \<le> n \<Longrightarrow> 1 \<le> cap \<Longrightarrow> ok_state s \<Longrightarrow>
     wp (pool_run task init cap n sched (start_pool files)) (\<lambda>p t. pool_done p) s"
  by (rule pool_ends) (simp_all add: pool_rank_def start_pool_def ok_pool_def)

end

fun recover_rank :: "recover_stage \<Rightarrow> nat" where
  "recover_rank RecPut = 5"
| "recover_rank RecRemove = 4"
| "recover_rank RecRemoveCksum = 3"
| "recover_rank RecShadow = 2"
| "recover_rank RecCache = 1"

interpretation recover_rank: ranked_task "recover_task D" RecPut recover_rank 6 "\<lambda>_. True" "\<lambda>_. True" for D
proof
  fix f st and s :: "('a, 'b) S3Storage"
  show "wp (recover_task D f st) (\<lambda>r t. True \<and> (\<forall>st'. r = Running st' \<longrightarrow> True \<and> recover_rank st' < recover_rank st)) s"
    by (cases st) (auto simp: wp_simps wp_on_net wp_on_disk intro!: wp_I split: prod.split option.split)
  show "0 < recover_rank st" by (cases st) simp_all
qed simp_all

lemma upload_concurrency_pos: "1 \<le> upload_concurrency s"
  by (simp add: upload_concurrency_def DefaultPendingMaxConcurrency_def)

lemma recover_files_end: "wp (recover_files sched D files) (\<lambda>p t. pool_done p) s"
  unfolding recover_files_def
  by (simp add: wp_simps) (rule recover_rank.started_pool_ends; simp add: upload_concurrency_pos)

section \<open>No file is lost\<close>

text \<open>The data of a file is still in the pending directory, or in its object.\<close>

definition kept :: "('w, 'c) S3Storage \<Rightarrow> pendingFileEntry \<Rightarrow> bool" where
  "kept t f = (data_at (disk t) (pe_localPath f) = Some (pe_data f))"

definition stored :: "('w \<Rightarrow> string \<Rightarrow> bytes option) \<Rightarrow> ('w, 'c) S3Storage \<Rightarrow> pendingFileEntry \<Rightarrow> bool" where
  "stored view t f = (view (net t) (pe_name f) = Some (pe_data f))"

definition good_files :: "('w, 'c) S3Storage \<Rightarrow> pendingFileEntry list \<Rightarrow> bool" where
  "good_files s files = (distinct (map pe_name files) \<and> (\<forall>f \<in> set files. CHR ''/'' \<notin> set (pe_name f)
     \<and> \<not> HasSuffix (pe_name f) ''.cksum'' \<and> pe_localPath f = dir_prefix (pendingDir s) @ pe_name f))"

definition all_names :: "'st pool \<Rightarrow> string list" where
  "all_names p = map pe_name (waiting p) @ map (\<lambda>x. pe_name (fst x)) (running p) @ map fst (results p)"

definition recovering ::
  "('st \<Rightarrow> bool) \<Rightarrow> ('w \<Rightarrow> string \<Rightarrow> bytes option) \<Rightarrow> ('w, 'c) S3Storage \<Rightarrow> pendingFileEntry list
     \<Rightarrow> 'st pool \<Rightarrow> ('w, 'c) S3Storage \<Rightarrow> bool"
where
  "recovering before view s files p t = (same_config s t \<and> mset (all_names p) = mset (map pe_name files)
     \<and> (\<forall>f \<in> set (waiting p). f \<in> set files \<and> kept t f)
     \<and> (\<forall>x \<in> set (running p). fst x \<in> set files \<and> (if before (snd x) then kept t (fst x) else stored view t (fst x)))
     \<and> (\<forall>f \<in> set files. \<forall>e. (pe_name f, e) \<in> set (results p) \<longrightarrow> (if e = None then stored view t f else kept t f))
     \<and> (\<forall>q. (\<forall>f \<in> set files. q \<notin> entry_files s (pe_name f)) \<longrightarrow> data_at (disk t) q = data_at (disk s) q)
     \<and> (\<forall>k. (\<forall>f \<in> set files. k \<noteq> pe_name f \<and> k \<noteq> shadow_key s (pe_name f)) \<longrightarrow> view (net t) k = view (net s) k))"

abbreviation others :: "nat \<Rightarrow> 'a list \<Rightarrow> 'a list" where
  "others i xs \<equiv> take i xs @ drop (Suc i) xs"

lemma set_update_others: "i < length xs \<Longrightarrow> set (xs[i := y]) = insert y (set (others i xs))"
  by (auto simp: upd_conv_take_nth_drop)

lemma set_others: "x \<in> set (others i xs) \<Longrightarrow> x \<in> set xs"
  by (auto dest: in_set_takeD in_set_dropD)

lemma others_distinct:
  assumes "i < length xs" and "distinct (map g xs)" and "x \<in> set (others i xs)"
  shows "g x \<noteq> g (xs ! i)"
proof -
  have "xs = take i xs @ xs ! i # drop (Suc i) xs" using assms(1) by (rule id_take_nth_drop)
  then have "distinct (map g (take i xs @ xs ! i # drop (Suc i) xs))" using assms(2) by simp
  then have "g (xs ! i) \<notin> g ` (set (take i xs) \<union> set (drop (Suc i) xs))" by auto
  moreover have "g x \<in> g ` (set (take i xs) \<union> set (drop (Suc i) xs))" using assms(3) by auto
  ultimately show ?thesis by metis
qed

lemma mset_others: "i < length xs \<Longrightarrow> add_mset (xs ! i) (mset (others i xs)) = mset xs"
  using arg_cong [OF id_take_nth_drop [of i xs], of mset] by simp

lemma all_names_start: "waiting p \<noteq> [] \<Longrightarrow> mset (all_names (start_next init p)) = mset (all_names p)"
  by (cases "waiting p") (auto simp: all_names_def start_next_def)

lemma all_names_advance:
  assumes "i < length (running p)"
  shows "mset (all_names (advance i r p)) = mset (all_names p)"
proof -
  obtain f st where i: "running p ! i = (f, st)" by force
  show ?thesis
  proof (cases r)
    case (Running st')
    have "map (\<lambda>x. pe_name (fst x)) ((running p)[i := (f, st')]) = map (\<lambda>x. pe_name (fst x)) (running p)"
      using i assms by (metis (no_types, lifting) fst_conv list_update_id map_update)
    then show ?thesis by (simp add: all_names_def advance_def i Running)
  next
    case (Finished e)
    have "mset (map (\<lambda>x. pe_name (fst x)) (running p))
        = add_mset (pe_name f) (mset (map (\<lambda>x. pe_name (fst x)) (others i (running p))))"
      using arg_cong [OF mset_others [OF assms], of "image_mset (\<lambda>x. pe_name (fst x))"] i by simp
    then show ?thesis by (simp add: all_names_def advance_def i Finished)
  qed
qed

text \<open>A step on one file leaves the files with other names alone.\<close>

lemma other_file:
  assumes "good_files s files" and "f \<in> set files" and "g \<in> set files" and "pe_name g \<noteq> pe_name f" and "same_config s t"
    and "within view {pe_name f, shadow_key t (pe_name f)} {pe_localPath f, pe_localPath f @ ''.cksum''} t u"
  shows "kept u g = kept t g" and "stored view u g = stored view t g"
proof -
  have lp: "pe_localPath f = dir_prefix (pendingDir s) @ pe_name f" "pe_localPath g = dir_prefix (pendingDir s) @ pe_name g"
    and g: "CHR ''/'' \<notin> set (pe_name g)" "\<not> HasSuffix (pe_name g) ''.cksum''"
    using assms(1-3) by (simp_all add: good_files_def)
  have "pe_localPath g \<notin> {pe_localPath f, pe_localPath f @ ''.cksum''}"
    using lp g(2) assms(4) cksum_suffix by auto
  then show "kept u g = kept t g" using assms(6) by (simp add: kept_def within_def)
  have "pe_name g \<noteq> shadow_key t (pe_name f)" using g(1) by (auto simp: shadow_key_def)
  then show "stored view u g = stored view t g" using assms(4,6) by (simp add: stored_def within_def)
qed

definition task_done ::
  "('st \<Rightarrow> bool) \<Rightarrow> ('w \<Rightarrow> string \<Rightarrow> bytes option) \<Rightarrow> pendingFileEntry \<Rightarrow> ('w, 'c) S3Storage \<Rightarrow> 'st progress \<Rightarrow> bool"
where
  "task_done before view f u r = (case r of
     Running st \<Rightarrow> if before st then kept u f else stored view u f
   | Finished e \<Rightarrow> if e = None then stored view u f else kept u f)"

lemma recoveringI:
  assumes "same_config s t" and "mset (all_names p) = mset (map pe_name files)"
    and "\<forall>q. (\<forall>f \<in> set files. q \<notin> entry_files s (pe_name f)) \<longrightarrow> data_at (disk t) q = data_at (disk s) q"
    and "\<forall>k. (\<forall>f \<in> set files. k \<noteq> pe_name f \<and> k \<noteq> shadow_key s (pe_name f)) \<longrightarrow> view (net t) k = view (net s) k"
    and "\<forall>f \<in> set (waiting p). f \<in> set files \<and> kept t f"
    and "\<forall>x \<in> set (running p). fst x \<in> set files \<and> (if before (snd x) then kept t (fst x) else stored view t (fst x))"
    and "\<forall>f \<in> set files. \<forall>e. (pe_name f, e) \<in> set (results p) \<longrightarrow> (if e = None then stored view t f else kept t f)"
  shows "recovering before view s files p t"
  using assms unfolding recovering_def by blast

lemma recovering_start: "good_files s files \<Longrightarrow> \<forall>f \<in> set files. kept s f \<Longrightarrow> recovering before view s files (start_pool files) s"
  by (simp add: recovering_def start_pool_def all_names_def)

lemma recovering_next:
  assumes "recovering before view s files p t" and "waiting p \<noteq> []" and "before init"
  shows "recovering before view s files (start_next init p) t"
  using assms all_names_start [OF assms(2), of init]
  by (cases "waiting p") (auto simp: recovering_def start_next_def)

lemma recovering_advance:
  assumes I: "recovering before view s files p t" and good: "good_files s files" and i: "i < length (running p)"
    and w: "within view {pe_name f, shadow_key t (pe_name f)} {pe_localPath f, pe_localPath f @ ''.cksum''} t u"
    and d: "task_done before view f u r" and f: "f = fst (running p ! i)"
  shows "recovering before view s files (advance i r p) u"
proof -
  obtain st where fst: "running p ! i = (f, st)" using f by (metis prod.collapse)
  have ff: "f \<in> set files" using I i f by (auto simp: recovering_def)
  have sc: "same_config s t" using I by (simp add: recovering_def)
  have "mset (all_names p) = mset (map pe_name files)" and "distinct (map pe_name files)"
    using I good by (simp_all add: recovering_def good_files_def)
  then have "distinct (all_names p)" by (metis mset_eq_imp_distinct_iff)
  then have dr: "distinct (map (\<lambda>x. pe_name (fst x)) (running p))"
    and dw: "pe_name ` set (waiting p) \<inter> (\<lambda>x. pe_name (fst x)) ` set (running p) = {}"
    and dd: "(\<lambda>x. pe_name (fst x)) ` set (running p) \<inter> fst ` set (results p) = {}"
    by (auto simp: all_names_def image_image)
  have fin: "(f, st) \<in> set (running p)" using i fst by (metis nth_mem)
  note other = other_file [OF good ff _ _ sc w]
  have wait: "g \<in> set files \<and> kept u g" if g: "g \<in> set (waiting p)" for g
  proof -
    have "pe_name g \<noteq> pe_name f" using dw g fin by force
    then show ?thesis using I g other by (auto simp: recovering_def)
  qed
  have rest: "fst x \<in> set files \<and> (if before (snd x) then kept u (fst x) else stored view u (fst x))"
    if x: "x \<in> set (others i (running p))" for x
  proof -
    have "pe_name (fst x) \<noteq> pe_name f" using others_distinct [OF i dr x] fst by simp
    then show ?thesis using I set_others [OF x] other [of "fst x"] by (auto simp: recovering_def)
  qed
  have res: "if e = None then stored view u g else kept u g" if g: "g \<in> set files" "(pe_name g, e) \<in> set (results p)" for g e
  proof -
    have "pe_name g \<noteq> pe_name f" using dd g(2) fin by force
    then show ?thesis using I g other [of g] by (auto simp: recovering_def)
  qed
  have unique: "g = f" if "g \<in> set files" "pe_name g = pe_name f" for g
    using good ff that by (auto simp: good_files_def distinct_map dest: inj_onD)
  have lp: "pe_localPath f = dir_prefix (pendingDir s) @ pe_name f" using good ff by (simp add: good_files_def)
  then have "{pe_localPath f, pe_localPath f @ ''.cksum''} = entry_files s (pe_name f)" by (simp add: entry_files_def)
  moreover have "shadow_key t x = shadow_key s x" for x using sc by (simp add: same_config_paths)
  ultimately have frame: "same_config s u"
    "\<forall>q. (\<forall>f \<in> set files. q \<notin> entry_files s (pe_name f)) \<longrightarrow> data_at (disk u) q = data_at (disk s) q"
    "\<forall>k. (\<forall>f \<in> set files. k \<noteq> pe_name f \<and> k \<noteq> shadow_key s (pe_name f)) \<longrightarrow> view (net u) k = view (net s) k"
    using I w ff by (auto simp: recovering_def within_def intro: same_config_trans)
  have names: "mset (all_names (advance i r p)) = mset (map pe_name files)"
    using I all_names_advance [OF i] by (simp add: recovering_def)
  show ?thesis
  proof (cases r)
    case (Running st')
    then have a: "advance i r p = p\<lparr>running := (running p)[i := (f, st')]\<rparr>" by (simp add: advance_def fst)
    have "fst x \<in> set files \<and> (if before (snd x) then kept u (fst x) else stored view u (fst x))"
      if "x \<in> set ((running p)[i := (f, st')])" for x
    proof (cases "x = (f, st')")
      case True
      then show ?thesis using d ff by (simp add: task_done_def Running)
    next
      case False
      then show ?thesis using that unfolding set_update_others [OF i] by (intro rest) simp
    qed
    then show ?thesis
      by (intro recoveringI frame names) (simp_all add: a wait res)
  next
    case (Finished e)
    then have a: "advance i r p = p\<lparr>running := others i (running p), results := results p @ [(pe_name f, e)]\<rparr>"
      by (simp add: advance_def fst)
    have new: "if e' = None then stored view u g else kept u g"
      if "g \<in> set files" "(pe_name g, e') \<in> set (results p) \<or> pe_name g = pe_name f \<and> e' = e" for g e'
    proof (cases "pe_name g = pe_name f \<and> e' = e")
      case True
      then show ?thesis using unique [OF that(1)] d by (simp add: task_done_def Finished)
    next
      case False
      then show ?thesis using that by (intro res) auto
    qed
    show ?thesis
    proof (intro recoveringI frame names ballI)
      fix g assume "g \<in> set (waiting (advance i r p))"
      then show "g \<in> set files \<and> kept u g" using wait by (simp add: a)
    next
      fix x assume "x \<in> set (running (advance i r p))"
      then have "x \<in> set (others i (running p))" by (simp add: a)
      then show "fst x \<in> set files \<and> (if before (snd x) then kept u (fst x) else stored view u (fst x))" by (rule rest)
    next
      fix g assume g: "g \<in> set files"
      show "\<forall>e'. (pe_name g, e') \<in> set (results (advance i r p)) \<longrightarrow> (if e' = None then stored view u g else kept u g)"
      proof (intro allI impI)
        fix e' assume "(pe_name g, e') \<in> set (results (advance i r p))"
        then have "(pe_name g, e') \<in> set (results p) \<or> pe_name g = pe_name f \<and> e' = e" by (auto simp: a)
        then show "if e' = None then stored view u g else kept u g" by (rule new [OF g])
      qed
    qed
  qed
qed

section \<open>Any kind of upload goroutine\<close>

text \<open>
  The contract of a goroutine: \<open>before st\<close> says that the upload is still to come at stage \<open>st\<close>, \<open>ok f\<close>
  is what it needs of the file. Each step changes nothing but the files and objects of its own name,
  and keeps the data where the stage says it is.
\<close>

locale upload_task =
  fixes task :: "pendingFileEntry \<Rightarrow> 'st \<Rightarrow> (('w, 'c) S3Storage, 'st progress) state"
    and init :: 'st and before :: "'st \<Rightarrow> bool" and ok :: "pendingFileEntry \<Rightarrow> bool"
    and view :: "'w \<Rightarrow> string \<Rightarrow> bytes option"
  assumes before_init: "before init"
    and task_effect: "ok f \<Longrightarrow> CHR ''/'' \<notin> set (pe_name f) \<Longrightarrow> (if before st then kept t f else stored view t f) \<Longrightarrow>
      wp (task f st) (\<lambda>r u.
        within view {pe_name f, shadow_key t (pe_name f)} {pe_localPath f, pe_localPath f @ ''.cksum''} t u
        \<and> task_done before view f u r) t"
begin

lemma pool_step_recovering:
  assumes good: "good_files s files" and ok: "\<forall>f \<in> set files. ok f" and cap: "1 \<le> cap"
    and I: "recovering before view s files p t" and "\<not> pool_done p"
  shows "wp (pool_step task init cap c p) (recovering before view s files) t"
proof (rule wp_pool_step [OF assms(5) cap], goal_cases)
  case (1 i)
  let ?f = "fst (running p ! i)" and ?st = "snd (running p ! i)"
  have f: "?f \<in> set files" "if before ?st then kept t ?f else stored view t ?f"
    using I 1 by (auto simp: recovering_def)
  then have "CHR ''/'' \<notin> set (pe_name ?f)" and "ok ?f" using good ok by (simp_all add: good_files_def)
  from task_effect [OF this(2,1) f(2)] show ?case
    by (rule wp_weaken) (use recovering_advance [OF I good 1] in blast)
next
  case 2
  then have "waiting p \<noteq> []" by (simp add: can_start_def)
  with I show ?case using before_init by (rule recovering_next)
qed

text \<open>A pool that is under way, and one that starts.\<close>

lemma pool_effect_from:
  assumes "good_files s files" and "\<forall>f \<in> set files. ok f" and "1 \<le> cap" and "recovering before view s files p t"
  shows "wp (pool_run task init cap n sched p) (recovering before view s files) t"
  by (rule wp_pool_run [where I = "recovering before view s files"])
    (use pool_step_recovering [OF assms(1-3)] assms(4) in blast)+

lemma pool_effect:
  assumes good: "good_files s files" and ok: "\<forall>f \<in> set files. kept s f \<and> ok f" and cap: "1 \<le> cap"
  shows "wp (pool_run task init cap n sched (start_pool files)) (recovering before view s files) s"
  using ok by (intro pool_effect_from good cap recovering_start) simp_all

end

context storage_env
begin

lemma recover_task_effect:
  assumes "CHR ''/'' \<notin> set (pe_name f)" and "if st = RecPut then kept t f else stored view t f"
  shows "wp (recover_task D f st) (\<lambda>r u.
     within view {pe_name f, shadow_key t (pe_name f)} {pe_localPath f, pe_localPath f @ ''.cksum''} t u
     \<and> task_done (\<lambda>st. st = RecPut) view f u r) t"
proof -
  have ne: "pe_name f \<noteq> shadow_key t x" for x using assms(1) by (auto simp: shadow_key_def)
  show ?thesis
  proof (cases st)
    case RecPut
    then show ?thesis using assms(2)
      by (auto simp: wp_simps within_def task_done_def stored_def kept_def intro!: wp_put)
  next
    case RecShadow
    then show ?thesis using assms(2) ne
      by (auto simp: wp_simps within_def task_done_def stored_def intro!: wp_cleanShadow)
  qed (use assms(2) in \<open>auto simp: wp_simps within_def task_done_def stored_def cache_add_def intro!: wp_Remove\<close>)
qed

lemma recover_upload_task: "upload_task (recover_task D) RecPut (\<lambda>st. st = RecPut) (\<lambda>_. True) view"
  by unfold_locales (simp_all add: recover_task_effect)

lemma recover_files_effect:
  assumes "good_files s files" and "\<forall>f \<in> set files. kept s f"
  shows "wp (recover_files sched D files) (\<lambda>p t. pool_done p \<and> recovering (\<lambda>st. st = RecPut) view s files p t) s"
proof -
  have "wp (recover_files sched D files) (recovering (\<lambda>st. st = RecPut) view s files) s"
    unfolding recover_files_def
    by (simp add: wp_bind wp_gets, rule upload_task.pool_effect [OF recover_upload_task assms(1)])
      (use assms(2) upload_concurrency_pos in auto)
  then show ?thesis using recover_files_end by (simp add: wp_conj)
qed

end

interpretation demo_recover: upload_task "recover_task demo_deps" RecPut "\<lambda>st. st = RecPut" "\<lambda>_. True" sim_objs
  by (rule demo.recover_upload_task)

section \<open>Recovery as a whole\<close>

lemma reading_good:
  assumes "reading s UNIV es t" and "clean_dir (pendingDir s)"
  shows "good_files t es \<and> (\<forall>f \<in> set es. kept t f)"
proof -
  have e: "pe_name f \<in> pending_names s \<and> pe_localPath f = filepath_Join [pendingDir s, pe_name f] \<and> kept t f"
    if "f \<in> set es" for f
  proof -
    have f: "pe_name f \<in> pending_names s" "f = pending_entry s (pe_name f)" "data_at (disk t) (pe_localPath f) = Some (pe_data f)"
      using assms(1) that by (auto simp: reading_def)
    from arg_cong [OF f(2), of pe_localPath] f show ?thesis by (simp add: pending_entry_def kept_def)
  qed
  have "pendingDir t = pendingDir s"
    using assms(1) disk_only_fields [of s t] by (simp add: reading_def same_config_def)
  then show ?thesis
    using e assms(1) pending_name_path(1) [OF assms(2)]
    by (auto simp: good_files_def reading_def) (auto simp: pending_names_def)
qed

lemma first_error_None: "first_error rs = None \<longleftrightarrow> (\<forall>r \<in> set rs. snd r = None)"
proof (cases "filter (\<lambda>r. snd r \<noteq> None) rs")
  case Nil
  then show ?thesis by (auto simp: first_error_def filter_empty_conv)
next
  case (Cons r rest)
  then have "r \<in> set (filter (\<lambda>r. snd r \<noteq> None) rs)" by simp
  then have "r \<in> set rs" and "snd r \<noteq> None" by simp_all
  with Cons show ?thesis by (auto simp: first_error_def)
qed

text \<open>What one file has become when the pool is done, and what holds at any moment.\<close>

lemma recovering_kept:
  assumes "recovering before view s files p t" and "good_files s files" and "f \<in> set files"
  shows "kept t f \<or> stored view t f"
proof -
  have "mset (all_names p) = mset (map pe_name files)" using assms(1) by (simp add: recovering_def)
  then have "set (all_names p) = set (map pe_name files)" by (rule mset_eq_setD)
  then have n: "pe_name f \<in> set (all_names p)" using assms(3) by simp
  have unique: "g = f" if "g \<in> set files" "pe_name g = pe_name f" for g
    using assms(2,3) that by (auto simp: good_files_def distinct_map dest: inj_onD)
  from n consider g where "g \<in> set (waiting p)" "pe_name g = pe_name f"
    | x where "x \<in> set (running p)" "pe_name (fst x) = pe_name f"
    | e where "(pe_name f, e) \<in> set (results p)"
    by (auto simp: all_names_def)
  then show ?thesis
  proof cases
    case 1
    then show ?thesis using assms(1) unique [of g] by (auto simp: recovering_def)
  next
    case 2
    then show ?thesis using assms(1) unique [of "fst x"] by (auto simp: recovering_def split: if_splits)
  next
    case 3
    then show ?thesis using assms(1,3) by (auto simp: recovering_def split: if_splits)
  qed
qed

lemma recovering_done:
  assumes "recovering before view s files p t" and "pool_done p" and "f \<in> set files"
  shows "kept t f \<or> stored view t f" and "first_error (results p) = None \<Longrightarrow> stored view t f"
proof -
  have "mset (map fst (results p)) = mset (map pe_name files)"
    using assms(1,2) by (simp add: recovering_def all_names_def pool_done_def)
  then have "set (map fst (results p)) = set (map pe_name files)" by (rule mset_eq_setD)
  then obtain e where e: "(pe_name f, e) \<in> set (results p)" using assms(3) by force
  then have r: "if e = None then stored view t f else kept t f" using assms(1,3) by (simp add: recovering_def)
  then show "kept t f \<or> stored view t f" by (auto split: if_splits)
  assume "first_error (results p) = None"
  then have "e = None" using e by (auto simp: first_error_None)
  then show "stored view t f" using r by simp
qed

text \<open>An intact file is read, and its entry says where its data is.\<close>

lemma read_back:
  fixes view :: "'w \<Rightarrow> string \<Rightarrow> bytes option" and u :: "('w, 'c) S3Storage"
  assumes rd: "reading u UNIV es t" and dir: "clean_dir (pendingDir u)" and "faults (disk u) = []"
    and n: "n \<in> pending_names u" "intact u n"
  obtains f where "f \<in> set es" and "pe_name f = n"
    and "\<And>v :: ('w, 'c) S3Storage. stored view v f = (view (net v) n = pending_data u n)"
    and "\<And>v. same_config t v \<Longrightarrow> kept v f = (pending_data v n = pending_data u n)"
proof -
  have "n \<in> pe_name ` set es" using assms by (auto simp: reading_def corrupt_names_def)
  then obtain f where f: "f \<in> set es" "pe_name f = n" by blast
  then have "f = pending_entry u n" using rd by (auto simp: reading_def)
  then have fd: "pe_data f = the (pending_data u n)" "pe_localPath f = filepath_Join [pendingDir u, n]"
    by (simp_all add: pending_entry_def)
  have some: "pending_data u n = Some (pe_data f)" using n(1) fd by (auto simp: pending_names_def)
  have "stored view v f = (view (net v) n = pending_data u n)" for v :: "('w, 'c) S3Storage"
    using f some by (simp add: stored_def)
  moreover have "kept v f = (pending_data v n = pending_data u n)" if "same_config t v" for v
  proof -
    have "pendingDir v = pendingDir u"
      using that rd disk_only_fields [of u t] by (simp add: reading_def same_config_def)
    then show ?thesis using fd some pending_name_path(1) [OF dir n(1)] by (simp add: kept_def pending_data_def)
  qed
  ultimately show thesis using that f by blast
qed

locale recovery_env = storage_env D view content + slice_sort sorter
  for D :: "('w, 'c) storage_deps" and view and content and sorter
begin

lemma syncPendingToS3_effect:
  assumes dir: "clean_dir (pendingDir s)" and ok: "faults (disk s) = []" and ex: "dir_exists (disk s) (pendingDir s)"
    and cs: "clean_shadows D view s" and n: "n \<in> pending_names s" "intact s n"
  shows "wp (syncPendingToS3 sorter sched D) (\<lambda>r t.
      (pending_data t n = pending_data s n \<or> view (net t) n = pending_data s n)
      \<and> (r = None \<longrightarrow> view (net t) n = pending_data s n)) s" (is "wp _ ?Q s")
proof -
  have ne: "pendingDir s \<noteq> ''''" using dir clean_dir_not_Nil by auto
  have rest: "wp (readPendingFiles sorter) (\<lambda>r. wp (case r of
         Inl err \<Rightarrow> ret (Some (Wrapf ''failed to read pending dir'' err))
       | Inr files \<Rightarrow>
           (if files = [] then ret None
            else do { p \<leftarrow> recover_files sched D files; ret (first_error (results p)) })) ?Q) u"
    if u: "restored view s u" for u
  proof -
    have pd: "pendingDir u = pendingDir s" and fu: "faults (disk u) = []"
      using u ok by (simp_all add: restored_def same_config_def)
    note keep = restored_pending [OF u dir cs ok n(1)]
    have nu: "n \<in> pending_names u" "intact u n" using n keep by (simp_all add: pending_names_def intact_def)
    have "dir_exists (disk u) (pendingDir u)" using ex restored_dir [OF u dir cs] pd by simp
    then have no: "\<not> unread u t" for t using fu ne pd by (simp add: unread_def)
    show ?thesis
    proof (rule wp_weaken [OF readPendingFiles_effect], goal_cases)
      case 1
      then show ?case using dir pd by simp
    next
      case (2 r t)
      with no obtain es where r: "r = Inr es" and rd: "reading u UNIV es t" by (cases r) (auto simp: files_read_def)
      obtain f where f: "f \<in> set es" "pe_name f = n"
        and at: "\<And>v :: ('w, 'c) S3Storage. stored view v f = (view (net v) n = pending_data s n)"
          "\<And>v. same_config t v \<Longrightarrow> kept v f = (pending_data v n = pending_data s n)"
        by (rule read_back [OF rd _ fu nu, where view = view], use dir pd in simp)
          (rule that, simp_all add: keep)
      have good: "good_files t es" "\<forall>f \<in> set es. kept t f" using reading_good [OF rd] dir pd by auto
      have "wp (recover_files sched D es) (\<lambda>p. ?Q (first_error (results p))) t"
      proof (rule wp_weaken [OF recover_files_effect [OF good]], goal_cases)
        case (1 p v)
        then have v: "recovering (\<lambda>st. st = RecPut) view t es p v" "pool_done p" by simp_all
        then have "same_config t v" by (simp add: recovering_def)
        then show ?case using recovering_done [OF v f(1)] at by auto
      qed
      then show ?case using f(1) by (auto simp: r wp_simps wp_fun)
    qed
  qed
  show ?thesis
    unfolding syncPendingToS3_def
    by (simp add: wp_bind wp_fun wp_gets ne) (rule wp_weaken [OF syncFromShadow_effect rest])
qed

end

interpretation demo_recovery: recovery_env demo_deps sim_objs lru_list_content slice_insertion
  by (intro recovery_env.intro demo.storage_env_axioms go_sort.slice_sort_axioms)

section \<open>Properties\<close>

text \<open>
  C5: Recovery loses no pending file, for every interleaving of the goroutines and whatever requests fail.
  On a disk where no system call fails, with only names of files under the shadow prefix, the data
  of every intact pending file is afterwards still in the pending directory or in the object of
  that name; and if no error is reported it is in the object.
\<close>

theorem recovery_loses_nothing:
  assumes "storage_env D view content" and "slice_sort sorter" and "clean_dir (pendingDir s)"
    and "faults (disk s) = []" and "dir_exists (disk s) (pendingDir s)" and "clean_shadows D view s"
    and "n \<in> pending_names s" and "intact s n" and "pending_data s n = Some d"
    and "run_state (syncPendingToS3 sorter sched D) s = (r, t)"
  shows "(pending_data t n = Some d \<or> view (net t) n = Some d) \<and> (r = None \<longrightarrow> view (net t) n = Some d)"
  using recovery_env.syncPendingToS3_effect [OF recovery_env.intro [OF assms(1,2)] assms(3-8), THEN wp_run, OF assms(10)]
    assms(9) by simp

theorem recovery_loses_nothing_witness:
  "\<exists>r t. run_state (syncPendingToS3 slice_insertion [1, 0, 2] demo_deps)
       (demo_storage [] [Answered, Rejected] [(''/c/db/pending_uploads/000001.ldb'', File ''z'')]) = (r, t)
     \<and> (pending_data t ''000001.ldb'' = Some ''z'' \<or> sim_objs (net t) ''000001.ldb'' = Some ''z'')"
proof -
  let ?s = "demo_storage [] [Answered, Rejected] [(''/c/db/pending_uploads/000001.ldb'', File ''z'')]"
  obtain r t where t: "run_state (syncPendingToS3 slice_insertion [1, 0, 2] demo_deps) ?s = (r, t)" by force
  have d: "pending_data ?s ''000001.ldb'' = Some ''z''" and c: "pending_data ?s ''000001.ldb.cksum'' = None"
    by (simp_all add: pending_data_def demo_storage_def data_at_def node_at_def dir_prefix_def)
  have "faults (disk ?s) = []" "dir_exists (disk ?s) (pendingDir ?s)" "clean_dir (pendingDir ?s)"
    by (simp_all add: demo_storage_def dir_exists_def node_at_def)
  moreover have "clean_shadows demo_deps sim_objs ?s"
    by (simp add: clean_shadows_def has_shadow_def demo_storage_def sim_objs_def)
  moreover have "''000001.ldb'' \<in> pending_names ?s" and "intact ?s ''000001.ldb''"
    using d c demo_parse by (simp_all add: pending_names_def intact_def HasSuffix_def)
  ultimately show ?thesis
    using recovery_loses_nothing [OF demo_env go_sort.slice_sort_axioms _ _ _ _ _ _ d t] t by blast
qed

text \<open>
  C29: The pool of recovery ends: at every moment at most \<open>cap\<close> goroutines run, and after six steps per
  file, chosen in any way, every goroutine has been started and has finished.
\<close>

theorem recovery_pool_bounded:
  assumes "1 \<le> cap"
    and "run_state (pool_run (recover_task D) RecPut cap n sched (start_pool files)) s = (p, t)"
  shows "int (length (running p)) \<le> cap \<and> (6 * length files \<le> n \<longrightarrow> waiting p = [] \<and> running p = [])"
proof -
  have step: "wp (pool_step (recover_task D) RecPut cap c q) (\<lambda>q' u. int (length (running q')) \<le> cap) v"
    if "int (length (running q)) \<le> cap" "\<not> pool_done q" for c q v
  proof (rule wp_pool_step [OF that(2) assms(1)], goal_cases)
    case (1 i)
    then have "length (running (advance i x q)) \<le> length (running q)" for x
      by (auto simp: advance_def split: prod.split progress.split)
    then show ?case using that(1) by (intro wp_I) (meson dual_order.trans zle_int)
  next
    case 2
    then show ?case by (simp add: start_next_def can_start_def)
  qed
  have "wp (pool_run (recover_task D) RecPut cap n sched (start_pool files)) (\<lambda>q u. int (length (running q)) \<le> cap) s"
    by (rule wp_pool_run [where I = "\<lambda>q u. int (length (running q)) \<le> cap"]) (use step assms(1) in \<open>auto simp: start_pool_def\<close>)
  from wp_run [OF this assms(2)] have "int (length (running p)) \<le> cap" .
  moreover have "pool_done p" if "6 * length files \<le> n"
    by (rule wp_run [OF recover_rank.started_pool_ends assms(2)]) (use that assms(1) in simp_all)
  ultimately show ?thesis by (simp add: pool_done_def)
qed

theorem recovery_pool_bounded_witness:
  "\<exists>p t. run_state (pool_run (recover_task demo_deps) RecPut 4 6 [3, 1] (start_pool [pending_entry (demo_storage [] [] []) ''000001.ldb'']))
       (demo_storage [] [] []) = (p, t) \<and> waiting p = [] \<and> running p = []"
proof -
  let ?files = "[pending_entry (demo_storage [] [] []) ''000001.ldb'']"
  obtain p t where "run_state (pool_run (recover_task demo_deps) RecPut 4 6 [3, 1] (start_pool ?files)) (demo_storage [] [] []) = (p, t)"
    by force
  with recovery_pool_bounded [OF _ this] show ?thesis by simp
qed

end
