(* ===== verification/Background_Retry.thy ===== *)
theory Background_Retry
  imports Upload_Pool
begin

text \<open>
  The background goroutine of \<^verbatim>\<open>S3Storage\<close> (\<^verbatim>\<open>s3/storage.go\<close>): the delay and the endless loop of
  \<open>uploadWithInfiniteRetry\<close>, the pool of \<open>retryPendingFilesOnce\<close>, and one iteration of
  \<open>backgroundRetryLoop\<close>. It takes no mutex, so its steps interleave with the operations of the storage.
\<close>

section \<open>The retry loop of one file\<close>

definition max_retry_delay :: duration where
  "max_retry_delay = 30 * 10 ^ 9"

definition retry_delay :: "OpenOption \<Rightarrow> nat \<Rightarrow> duration" where
  "retry_delay o' attempt =
     (let delay = wrap64 (RetryBaseDelay o' * shl64 attempt);
          delay = (if max_retry_delay < delay then max_retry_delay else delay)
      in if 0 < RetryMaxAttempts o' \<and> RetryMaxAttempts o' \<le> int attempt then max_retry_delay else delay)"

text \<open>
  The goroutine of \<open>retryPendingFilesOnce\<close> by the call it makes next; the first four stages are
  \<open>uploadWithInfiniteRetry\<close>, with its start time and its count of attempts. The wait ends when the
  timer fires or when the stop channel is closed; in the second case the loop ends, whether the
  \<^verbatim>\<open>select\<close> at the wait or the one at the head of the loop sees it. (The texts of the two messages are
  translated.)
\<close>

datatype retry_stage =
    RetStart | RetCheck int nat | RetPut int nat | RetWait int nat duration
  | RetRemove | RetRemoveCksum | RetShadow

definition stop_received :: error where
  "stop_received = NewError ''stop signal received''"

fun retry_task ::
  "('w, 'c) storage_deps \<Rightarrow> pendingFileEntry \<Rightarrow> retry_stage \<Rightarrow> (('w, 'c) S3Storage, retry_stage progress) state"
where
  "retry_task D f RetStart = do {
     now \<leftarrow> gets (\<lambda>s. Now (plat_rt (plat D)) (net s));
     ret (Running (RetCheck now 0)) }"
| "retry_task D f (RetCheck startTime attempt) = do {
     stop \<leftarrow> gets retryStopped;
     lost \<leftarrow> gets lockLost;
     maxDuration \<leftarrow> gets (\<lambda>s. RetryMaxDuration (opt s));
     now \<leftarrow> gets (\<lambda>s. Now (plat_rt (plat D)) (net s));
     ret (if stop then Finished (Some stop_received)
          else if lost then Finished (Some ErrLockLost)
          else if 0 < maxDuration \<and> maxDuration < now - startTime
          then Finished (Some (NewError ''maximum retry duration exceeded''))
          else Running (RetPut startTime attempt)) }"
| "retry_task D f (RetPut startTime attempt) = do {
     o' \<leftarrow> gets opt;
     e \<leftarrow> on_net (api_PutBytes (api D) StorageCtx (fdString D (pe_fd f)) (pe_data f));
     ret (case e of
            None \<Rightarrow> Running RetRemove
          | Some _ \<Rightarrow> Running (RetWait startTime (attempt + 1) (retry_delay o' (attempt + 1)))) }"
| "retry_task D f (RetWait startTime attempt delay) = do {
     stop \<leftarrow> gets retryStopped;
     if stop then ret (Finished (Some stop_received))
     else do {
       on_net (SelectAfter (plat_rt (plat D)) Background delay);
       ret (Running (RetCheck startTime attempt)) } }"
| "retry_task D f RetRemove = do { on_disk (os_Remove (pe_localPath f)); ret (Running RetRemoveCksum) }"
| "retry_task D f RetRemoveCksum = do { on_disk (os_Remove (pe_localPath f @ ''.cksum'')); ret (Running RetShadow) }"
| "retry_task D f RetShadow = do { cleanShadow D (pe_name f); ret (Finished None) }"

text \<open>
  \<open>uploadWithInfiniteRetry\<close> by itself, while no other goroutine interferes: \<open>None\<close> means that it never
  returns.
\<close>

partial_function (option) upload_loop ::
  "('w, 'c) storage_deps \<Rightarrow> pendingFileEntry \<Rightarrow> retry_stage \<Rightarrow> ('w, 'c) S3Storage
     \<Rightarrow> (error option \<times> ('w, 'c) S3Storage) option"
where
  "upload_loop D f st s =
     (case run_state (retry_task D f st) s of
        (Finished e, t) \<Rightarrow> Some (e, t)
      | (Running st', t) \<Rightarrow> (if st' = RetRemove then Some (None, t) else upload_loop D f st' t))"

definition uploadWithInfiniteRetry ::
  "('w, 'c) storage_deps \<Rightarrow> pendingFileEntry \<Rightarrow> ('w, 'c) S3Storage \<Rightarrow> (error option \<times> ('w, 'c) S3Storage) option"
where
  "uploadWithInfiniteRetry D f s = upload_loop D f RetStart s"

section \<open>One pass and the loop\<close>

text \<open>The pool may run for ever, so a run is cut off after \<open>fuel\<close> steps.\<close>

definition retryPendingFilesOnce ::
  "slice_sorter \<Rightarrow> nat list \<Rightarrow> nat \<Rightarrow> ('w, 'c) storage_deps \<Rightarrow> (('w, 'c) S3Storage, retry_stage pool) state"
where
  "retryPendingFilesOnce sorter sched fuel D = do {
     dir \<leftarrow> gets pendingDir;
     lost \<leftarrow> gets lockLost;
     held \<leftarrow> gets lockHeld;
     if dir = '''' \<or> lost \<or> \<not> held then ret (start_pool [])
     else do {
       r \<leftarrow> readPendingFiles sorter;
       case r of
         Inl _ \<Rightarrow> ret (start_pool [])
       | Inr files \<Rightarrow> do {
           cap \<leftarrow> gets upload_concurrency;
           pool_run (retry_task D) RetStart cap fuel sched (start_pool files) } } }"

text \<open>
  \<open>backgroundRetryLoop\<close> selects between the stop channel and the ticker, whose next tick is \<open>due\<close>; both
  branches make a pass, and the first one ends the goroutine.
\<close>

definition flushInterval :: "OpenOption \<Rightarrow> duration" where
  "flushInterval o' = (if RetryFlushInterval o' \<le> 0 then 5 * 10 ^ 9 else RetryFlushInterval o')"

datatype loop_branch = StopBranch | TickBranch

definition loop_ready :: "('w, 'c) storage_deps \<Rightarrow> int \<Rightarrow> ('w, 'c) S3Storage \<Rightarrow> loop_branch \<Rightarrow> bool" where
  "loop_ready D due s br =
     (case br of StopBranch \<Rightarrow> retryStopped s | TickBranch \<Rightarrow> due \<le> Now (plat_rt (plat D)) (net s))"

definition backgroundRetryLoop_body ::
  "slice_sorter \<Rightarrow> nat list \<Rightarrow> nat \<Rightarrow> ('w, 'c) storage_deps \<Rightarrow> loop_branch
     \<Rightarrow> (('w, 'c) S3Storage, retry_stage pool \<times> bool) state"
where
  "backgroundRetryLoop_body sorter sched fuel D br = do {
     checkPendingPressure;
     p \<leftarrow> retryPendingFilesOnce sorter sched fuel D;
     (case br of
        StopBranch \<Rightarrow> do { modify (retryRunning_update (\<lambda>_. False)); ret (p, False) }
      | TickBranch \<Rightarrow> ret (p, True)) }"

section \<open>The delay\<close>

lemma retry_delay_late:
  "0 < RetryMaxAttempts o' \<Longrightarrow> RetryMaxAttempts o' \<le> int n \<Longrightarrow> retry_delay o' n = max_retry_delay"
  by (simp add: retry_delay_def)

lemma retry_delay_upper: "retry_delay o' n \<le> max_retry_delay"
  by (simp add: retry_delay_def Let_def)

text \<open>The shift stays in range for the first 28 attempts; later it overflows, and the timer fires at once.\<close>

lemma retry_delay_in_range:
  assumes "0 < RetryBaseDelay o'" and "RetryBaseDelay o' \<le> max_retry_delay" and "n \<le> 28"
  shows "0 < retry_delay o' n"
proof -
  have p: "(2 :: int) ^ n \<le> 2 ^ 28" using assms(3) by (intro power_increasing) auto
  then have "RetryBaseDelay o' * 2 ^ n \<le> max_retry_delay * 2 ^ 28"
    using assms(1,2) by (intro mult_mono) auto
  then have fit: "RetryBaseDelay o' * 2 ^ n < 2 ^ 63" by (simp add: max_retry_delay_def)
  have pos: "0 < RetryBaseDelay o' * 2 ^ n" using assms(1) by simp
  have "shl64 n = 2 ^ n" unfolding shl64_def using p order_trans [of "- (2 ^ 63)" "0 :: int" "2 ^ n"] by (intro wrap64_id) simp_all
  moreover have "wrap64 (RetryBaseDelay o' * 2 ^ n) = RetryBaseDelay o' * 2 ^ n"
    using fit pos by (intro wrap64_id) simp_all
  ultimately show ?thesis
    using pos by (simp add: retry_delay_def max_retry_delay_def Let_def)
qed

lemma retry_delay_overflows:
  "retry_delay (o'\<lparr>RetryBaseDelay := 500 * 10 ^ 6, RetryMaxAttempts := 100\<rparr>) 37 < 0"
  by (simp add: retry_delay_def shl64_def wrap64_def max_retry_delay_def Let_def)

section \<open>What the loop of one file does\<close>

fun uploading :: "retry_stage \<Rightarrow> bool" where
  "uploading RetStart = True"
| "uploading (RetCheck a n) = True"
| "uploading (RetPut a n) = True"
| "uploading (RetWait a n d) = True"
| "uploading _ = False"

declare retry_task.simps [simp del]

text \<open>The fields that no step of the loop changes.\<close>

lemma retry_task_config: "wp (retry_task D f st) (\<lambda>r t. same_config s t) s"
  by (cases st) (auto simp: retry_task.simps wp_simps wp_on_net wp_on_disk cleanShadow_def split: prod.split)

lemma run_upload_stage:
  "run_state (retry_task D f RetStart) s = (Running (RetCheck (Now (plat_rt (plat D)) (net s)) 0), s)"
  "run_state (retry_task D f (RetCheck a n)) s =
     (if retryStopped s then Finished (Some stop_received)
      else if lockLost s then Finished (Some ErrLockLost)
      else if 0 < RetryMaxDuration (opt s) \<and> RetryMaxDuration (opt s) < Now (plat_rt (plat D)) (net s) - a
      then Finished (Some (NewError ''maximum retry duration exceeded''))
      else Running (RetPut a n), s)"
  "run_state (retry_task D f (RetPut a n)) s =
     (case api_PutBytes (api D) StorageCtx (fdString D (pe_fd f)) (pe_data f) (net s) of (e, w) \<Rightarrow>
        (case e of
           None \<Rightarrow> Running RetRemove
         | Some _ \<Rightarrow> Running (RetWait a (n + 1) (retry_delay (opt s) (n + 1))), s\<lparr>net := w\<rparr>))"
  "run_state (retry_task D f (RetWait a n d)) s =
     (if retryStopped s then (Finished (Some stop_received), s)
      else (Running (RetCheck a n), s\<lparr>net := snd (SelectAfter (plat_rt (plat D)) Background d (net s))\<rparr>))"
  by (simp_all add: retry_task.simps gets_def on_net_def split: prod.split)

text \<open>An iteration of the loop: the test, the request and the wait.\<close>

lemma upload_loop_check:
  assumes "\<not> retryStopped s" and "\<not> lockLost s"
    and "\<not> (0 < RetryMaxDuration (opt s) \<and> RetryMaxDuration (opt s) < Now (plat_rt (plat D)) (net s) - a)"
    and "api_PutBytes (api D) StorageCtx (fdString D (pe_fd f)) (pe_data f) (net s) = (Some e, w)"
  shows "upload_loop D f (RetCheck a n) s = upload_loop D f (RetCheck a (Suc n))
     (s\<lparr>net := snd (SelectAfter (plat_rt (plat D)) Background (retry_delay (opt s) (Suc n)) w)\<rparr>)"
proof -
  have "upload_loop D f (RetCheck a n) s = upload_loop D f (RetPut a n) s"
    using assms(1-3) by (subst upload_loop.simps) (auto simp: run_upload_stage)
  also have "\<dots> = upload_loop D f (RetWait a (Suc n) (retry_delay (opt s) (Suc n))) (s\<lparr>net := w\<rparr>)"
    using assms(4) by (subst upload_loop.simps) (simp add: run_upload_stage)
  also have "\<dots> = upload_loop D f (RetCheck a (Suc n))
     (s\<lparr>net := snd (SelectAfter (plat_rt (plat D)) Background (retry_delay (opt s) (Suc n)) w)\<rparr>)"
    using assms(1) by (subst upload_loop.simps) (simp add: run_upload_stage)
  finally show ?thesis .
qed

lemma upload_loop_stop:
  assumes "retryStopped s \<or> lockLost s
    \<or> 0 < RetryMaxDuration (opt s) \<and> RetryMaxDuration (opt s) < Now (plat_rt (plat D)) (net s) - a"
  shows "\<exists>e. upload_loop D f (RetCheck a n) s = Some (Some e, s)"
  using assms by (subst upload_loop.simps) (auto simp: run_upload_stage)

lemma upload_loop_put:
  assumes "\<not> retryStopped s" and "\<not> lockLost s"
    and "\<not> (0 < RetryMaxDuration (opt s) \<and> RetryMaxDuration (opt s) < Now (plat_rt (plat D)) (net s) - a)"
    and "api_PutBytes (api D) StorageCtx (fdString D (pe_fd f)) (pe_data f) (net s) = (None, w)"
  shows "upload_loop D f (RetCheck a n) s = Some (None, s\<lparr>net := w\<rparr>)"
proof -
  have "upload_loop D f (RetCheck a n) s = upload_loop D f (RetPut a n) s"
    using assms(1-3) by (subst upload_loop.simps) (auto simp: run_upload_stage)
  also have "\<dots> = Some (None, s\<lparr>net := w\<rparr>)"
    using assms(4) by (subst upload_loop.simps) (simp add: run_upload_stage)
  finally show ?thesis .
qed

lemma upload_loop_start: "uploadWithInfiniteRetry D f s = upload_loop D f (RetCheck (Now (plat_rt (plat D)) (net s)) 0) s"
  unfolding uploadWithInfiniteRetry_def by (subst upload_loop.simps) (simp add: run_upload_stage)

text \<open>With a bound on the duration it returns: the delay is 30 s once all counted attempts are used.\<close>

locale steady_clock =
  fixes D :: "('w, 'c) storage_deps"
  assumes put_time: "api_PutBytes (api D) c k d w = (e, w') \<Longrightarrow> Now (plat_rt (plat D)) w \<le> Now (plat_rt (plat D)) w'"
    and sleep_time: "SelectAfter (plat_rt (plat D)) Background x w = (b, w') \<Longrightarrow>
      Now (plat_rt (plat D)) w + x \<le> Now (plat_rt (plat D)) w'"
begin

lemma upload_loop_late:
  assumes "0 < RetryMaxDuration (opt s)" and "0 < RetryMaxAttempts (opt s)" and "RetryMaxAttempts (opt s) \<le> int n"
  shows "\<exists>y. upload_loop D f (RetCheck a n) s = Some y"
  using assms
proof (induction "nat (a + RetryMaxDuration (opt s) + 1 - Now (plat_rt (plat D)) (net s))" arbitrary: n s rule: less_induct)
  case less
  let ?now = "\<lambda>w. Now (plat_rt (plat D)) w"
  show ?case
  proof (cases "retryStopped s \<or> lockLost s \<or> 0 < RetryMaxDuration (opt s) \<and> RetryMaxDuration (opt s) < ?now (net s) - a")
    case True
    then show ?thesis using upload_loop_stop by blast
  next
    case False
    obtain e w where put: "api_PutBytes (api D) StorageCtx (fdString D (pe_fd f)) (pe_data f) (net s) = (e, w)" by force
    show ?thesis
    proof (cases e)
      case None
      then show ?thesis using upload_loop_put [of s D a f w n] False put by blast
    next
      case (Some x)
      let ?t = "s\<lparr>net := snd (SelectAfter (plat_rt (plat D)) Background (retry_delay (opt s) (Suc n)) w)\<rparr>"
      have "retry_delay (opt s) (Suc n) = max_retry_delay" using less.prems by (intro retry_delay_late) simp_all
      then have "?now w + max_retry_delay \<le> ?now (net ?t)" by (simp add: sleep_time [OF surjective_pairing])
      moreover have "?now (net s) \<le> ?now w" using put by (rule put_time)
      ultimately have "?now (net s) < ?now (net ?t)" by (simp add: max_retry_delay_def)
      then have "\<exists>y. upload_loop D f (RetCheck a (Suc n)) ?t = Some y"
        using less.prems False by (intro less.hyps) auto
      moreover have "upload_loop D f (RetCheck a n) s = upload_loop D f (RetCheck a (Suc n)) ?t"
        by (rule upload_loop_check) (use False put Some in auto)
      ultimately show ?thesis by simp
    qed
  qed
qed

lemma upload_loop_returns:
  assumes "0 < RetryMaxDuration (opt s)" and "0 < RetryMaxAttempts (opt s)"
  shows "\<exists>y. upload_loop D f (RetCheck a n) s = Some y"
  using assms
proof (induction "nat (RetryMaxAttempts (opt s) - int n)" arbitrary: n s)
  case 0
  then show ?case by (intro upload_loop_late) simp_all
next
  case (Suc k)
  show ?case
  proof (cases "retryStopped s \<or> lockLost s
      \<or> 0 < RetryMaxDuration (opt s) \<and> RetryMaxDuration (opt s) < Now (plat_rt (plat D)) (net s) - a")
    case True
    then show ?thesis using upload_loop_stop by blast
  next
    case False
    obtain e w where put: "api_PutBytes (api D) StorageCtx (fdString D (pe_fd f)) (pe_data f) (net s) = (e, w)" by force
    show ?thesis
    proof (cases e)
      case None
      then show ?thesis using upload_loop_put [of s D a f w n] False put by blast
    next
      case (Some x)
      let ?t = "s\<lparr>net := snd (SelectAfter (plat_rt (plat D)) Background (retry_delay (opt s) (Suc n)) w)\<rparr>"
      have "\<exists>y. upload_loop D f (RetCheck a (Suc n)) ?t = Some y"
        using Suc.hyps(2) Suc.prems by (intro Suc.hyps(1)) auto
      moreover have "upload_loop D f (RetCheck a n) s = upload_loop D f (RetCheck a (Suc n)) ?t"
        by (rule upload_loop_check) (use False put Some in auto)
      ultimately show ?thesis by simp
    qed
  qed
qed

end

text \<open>Without a bound, and while every request fails, it never returns.\<close>

lemma upload_loop_diverges:
  assumes "\<And>k d w. \<exists>e w'. api_PutBytes (api D) StorageCtx k d w = (Some e, w')"
    and "upload_loop D f st s = Some y"
    and "RetryMaxDuration (opt s) \<le> 0" and "\<not> retryStopped s" and "\<not> lockLost s" and "uploading st"
  shows False
proof -
  have "E = D \<longrightarrow> g = f \<longrightarrow> RetryMaxDuration (opt s) \<le> 0 \<longrightarrow> \<not> retryStopped s \<longrightarrow> \<not> lockLost s \<longrightarrow> \<not> uploading st"
    if "upload_loop E g st s = Some y" for E g st s y
  proof (rule upload_loop.raw_induct [OF _ that], goal_cases)
    case (1 loop E g st s y)
    obtain e w where put: "api_PutBytes (api D) StorageCtx (fdString D (pe_fd f)) (pe_data f) (net s) = (Some e, w)"
      using assms(1) by blast
    show ?case
      using 1(2) put by (cases st; cases y) (auto simp: run_upload_stage split: if_splits dest!: 1(1))
  qed
  with assms(2-6) show False by blast
qed

text \<open>What it returns is the truth.\<close>

lemma upload_loop_nil:
  assumes "s3_api (api D) view" and "upload_loop D f st s = Some (None, t)" and "uploading st"
  shows "view (net t) (fdString D (pe_fd f)) = Some (pe_data f)"
proof -
  have "E = D \<longrightarrow> g = f \<longrightarrow> fst y = None \<longrightarrow> uploading st \<longrightarrow>
      view (net (snd y)) (fdString D (pe_fd f)) = Some (pe_data f)"
    if "upload_loop E g st s = Some y" for E g st s y
  proof (rule upload_loop.raw_induct [OF _ that], goal_cases)
    case (1 loop E g st s y)
    from 1(2) show ?case
      by (cases st; cases y)
        (auto simp: run_upload_stage split: if_splits option.splits prod.splits dest!: 1(1) s3_api.put_nil [OF assms(1)])
  qed
  with assms(2,3) show ?thesis by fastforce
qed


interpretation demo_clock: steady_clock demo_deps
proof
  fix c k d w e w' assume "api_PutBytes (api demo_deps) c k d w = (e, w')"
  then show "Now (plat_rt (plat demo_deps)) w \<le> Now (plat_rt (plat demo_deps)) w'"
    by (auto simp: sim_platform_def sim_write_def sim_rt_def sim_outcome_def
      split: prod.splits sum.splits option.splits list.splits sdk_outcome.splits)
next
  fix x w b w' assume "SelectAfter (plat_rt (plat demo_deps)) Background x w = (b, w')"
  then show "Now (plat_rt (plat demo_deps)) w + x \<le> Now (plat_rt (plat demo_deps)) w'"
    by (auto simp: sim_platform_def sim_rt_def)
qed

section \<open>A pass loses no file\<close>

text \<open>
  The goroutine fulfils the contract of the pool for the files whose name in the directory is the
  name of their descriptor, since the object is written under \<open>fd.String()\<close>.
\<close>

context storage_env
begin

lemma retry_task_effect:
  assumes quiet: "\<And>d w. view (snd (SelectAfter (plat_rt (plat D)) Background d w)) = view w"
    and "fdString D (pe_fd f) = pe_name f" and "CHR ''/'' \<notin> set (pe_name f)"
    and "if uploading st then kept t f else stored view t f"
  shows "wp (retry_task D f st) (\<lambda>r u.
     within view {pe_name f, shadow_key t (pe_name f)} {pe_localPath f, pe_localPath f @ ''.cksum''} t u
     \<and> task_done uploading view f u r) t"
proof -
  have ne: "pe_name f \<noteq> shadow_key t x" for x using assms(3) by (auto simp: shadow_key_def)
  note goal_simps = retry_task.simps wp_simps within_def task_done_def stored_def kept_def
  show ?thesis
  proof (cases st)
    case (RetPut a n)
    then show ?thesis using assms(2,4) by (auto simp: goal_simps intro!: wp_put)
  next
    case (RetWait a n d)
    then show ?thesis using assms(4) quiet [of d "net t"]
      by (auto simp: goal_simps wp_on_net split: prod.split)
  next
    case RetShadow
    then show ?thesis using assms(4) ne by (auto simp: goal_simps intro!: wp_cleanShadow)
  qed (use assms(4) in \<open>auto simp: goal_simps intro!: wp_Remove\<close>)
qed

lemma retry_upload_task:
  assumes "\<And>d w. view (snd (SelectAfter (plat_rt (plat D)) Background d w)) = view w"
  shows "upload_task (retry_task D) RetStart uploading (\<lambda>f. fdString D (pe_fd f) = pe_name f) view"
  by unfold_locales (simp_all add: retry_task_effect [OF assms])

end

interpretation demo_retry: upload_task "retry_task demo_deps" RetStart uploading
    "\<lambda>f. leveldb_String (pe_fd f) = pe_name f" sim_objs
  using demo.retry_upload_task by (simp add: sim_platform_def sim_rt_def sim_objs_def)

section \<open>One pass\<close>

context recovery_env
begin

lemma retryPendingFilesOnce_effect:
  assumes quiet: "\<And>d w. view (snd (SelectAfter (plat_rt (plat D)) Background d w)) = view w"
    and dir: "clean_dir (pendingDir s)" and ok: "faults (disk s) = []" and ex: "dir_exists (disk s) (pendingDir s)"
    and names: "\<forall>m \<in> pending_names s. fdString D (pe_fd (pending_entry s m)) = m"
    and n: "n \<in> pending_names s" "intact s n"
  shows "wp (retryPendingFilesOnce sorter sched fuel D) (\<lambda>p t.
     pending_data t n = pending_data s n \<or> view (net t) n = pending_data s n) s" (is "wp _ ?Q s")
proof -
  have ne: "pendingDir s \<noteq> ''''" using dir clean_dir_not_Nil by auto
  have no: "\<not> unread s t" for t using ex ok ne by (simp add: unread_def)
  show ?thesis
    unfolding retryPendingFilesOnce_def
  proof (simp add: wp_bind wp_gets wp_if wp_return ne, rule impI, rule wp_weaken [OF readPendingFiles_effect [OF disjI2 [OF dir]]])
    fix r t assume "files_read s r t"
    with no obtain es where r: "r = Inr es" and rd: "reading s UNIV es t" by (cases r) (auto simp: files_read_def)
    obtain f where f: "f \<in> set es" "pe_name f = n"
      and at: "\<And>v :: ('w, 'c) S3Storage. stored view v f = (view (net v) n = pending_data s n)"
        "\<And>v. same_config t v \<Longrightarrow> kept v f = (pending_data v n = pending_data s n)"
      by (rule read_back [OF rd dir ok n, where view = view], rule that, simp_all)
    have good: "good_files t es" "\<forall>f \<in> set es. kept t f" using reading_good [OF rd dir] by auto
    have "\<forall>f \<in> set es. fdString D (pe_fd f) = pe_name f"
    proof
      fix g assume "g \<in> set es"
      then have "pe_name g \<in> pending_names s" "g = pending_entry s (pe_name g)" using rd by (auto simp: reading_def)
      then show "fdString D (pe_fd g) = pe_name g" using names by metis
    qed
    then have k: "\<forall>f \<in> set es. kept t f \<and> fdString D (pe_fd f) = pe_name f" using good(2) by blast
    have "wp (pool_run (retry_task D) RetStart (upload_concurrency t) fuel sched (start_pool es)) ?Q t"
    proof (rule wp_weaken [OF upload_task.pool_effect [OF retry_upload_task [OF quiet] good(1) k upload_concurrency_pos]], goal_cases)
      case (1 p v)
      then have "kept v f \<or> stored view v f" and "same_config t v"
        using recovering_kept [OF 1 good(1) f(1)] by (auto simp: recovering_def)
      then show ?case using at by auto
    qed
    then show "wp (case r of Inl x \<Rightarrow> ret (start_pool [])
       | Inr files \<Rightarrow> State_Monad.bind (gets upload_concurrency) (\<lambda>cap. pool_run (retry_task D) RetStart cap fuel sched (start_pool files))) ?Q t"
      by (simp add: r wp_simps)
  qed
qed

end

section \<open>The pass after the stop signal\<close>

fun not_begun :: "retry_stage \<Rightarrow> bool" where
  "not_begun RetStart = True"
| "not_begun (RetCheck a n) = True"
| "not_begun _ = False"

definition turned_away :: "retry_stage pool \<Rightarrow> bool" where
  "turned_away p = ((\<forall>x \<in> set (running p). not_begun (snd x)) \<and> (\<forall>r \<in> set (results p). snd r = Some stop_received))"

lemma stopped_task:
  assumes "retryStopped s" and "not_begun st"
  shows "wp (retry_task D f st) (\<lambda>r t. t = s \<and> (case r of Running st' \<Rightarrow> not_begun st' | Finished e \<Rightarrow> e = Some stop_received)) s"
  using assms by (cases st) (simp_all add: wp_def run_upload_stage)

text \<open>After the stop signal a goroutine has at most two steps left, so three steps per file end the pool.\<close>

fun stop_rank :: "retry_stage \<Rightarrow> nat" where
  "stop_rank RetStart = 2"
| "stop_rank _ = 1"

interpretation stopped_rank: ranked_task "retry_task D" RetStart stop_rank 3 retryStopped not_begun for D
proof
  fix f st and s :: "('a, 'b) S3Storage" assume s: "retryStopped s" "not_begun st"
  then show "wp (retry_task D f st) (\<lambda>r t. retryStopped t
      \<and> (\<forall>st'. r = Running st' \<longrightarrow> not_begun st' \<and> stop_rank st' < stop_rank st)) s"
    by (cases st) (simp_all add: wp_def run_upload_stage)
next
  fix st show "0 < stop_rank st" by (cases st) simp_all
qed simp_all

lemma turned_away_advance:
  assumes "turned_away p" and i: "i < length (running p)"
    and r: "case r of Running st' \<Rightarrow> not_begun st' | Finished e \<Rightarrow> e = Some stop_received"
  shows "turned_away (advance i r p)"
proof -
  obtain f st where "running p ! i = (f, st)" by force
  then show ?thesis
    using assms set_others [of _ i "running p"]
    by (cases r) (auto simp: turned_away_def advance_def set_update_others)
qed

lemma stopped_pool:
  assumes "retryStopped s" and "1 \<le> cap"
  shows "wp (pool_run (retry_task D) RetStart cap n sched (start_pool files)) (\<lambda>p t. t = s \<and> turned_away p) s"
proof (rule wp_pool_run [where I = "\<lambda>p t. t = s \<and> turned_away p"], goal_cases)
  case step: (1 c p t)
  show ?case
  proof (rule wp_pool_step [OF step(2) assms(2)], goal_cases)
    case (1 i)
    then have "not_begun (snd (running p ! i))" using step(1) by (simp add: turned_away_def)
    moreover have "retryStopped t" using step(1) assms(1) by simp
    ultimately show ?case
      by (intro wp_weaken [OF stopped_task]) (use step(1) 1 in \<open>auto intro: turned_away_advance\<close>)
  next
    case 2
    then show ?case using step(1) by (auto simp: turned_away_def start_next_def)
  qed
qed (auto simp: turned_away_def start_pool_def)

context slice_sort
begin

lemma stopped_pass:
  assumes "retryStopped s" and "pendingDir s = '''' \<or> clean_dir (pendingDir s)"
  shows "wp (retryPendingFilesOnce sorter sched fuel D) (\<lambda>p t. turned_away p \<and> disk_only s t
     \<and> (\<forall>q. data_at (disk t) q = data_at (disk s) q
          \<or> data_at (disk t) q = None \<and> (\<exists>n \<in> corrupt_names s. q \<in> entry_files s n))) s" (is "wp _ ?Q s")
proof -
  have start: "turned_away (start_pool [])" by (simp add: turned_away_def start_pool_def)
  show ?thesis
    unfolding retryPendingFilesOnce_def
  proof (simp add: wp_bind wp_gets wp_if wp_return assms(1) start, intro impI, rule wp_weaken [OF readPendingFiles_effect [OF assms(2)]])
    fix r t assume rd: "files_read s r t"
    then have t: "disk_only s t" and
      q: "data_at (disk t) q = data_at (disk s) q \<or> data_at (disk t) q = None \<and> (\<exists>n \<in> corrupt_names s. q \<in> entry_files s n)" for q
      by (auto simp: files_read_def unread_def reading_def split: sum.splits)
    then have "retryStopped t" using disk_only_fields [of s t] assms(1) by (simp add: same_config_def)
    then have "wp (pool_run (retry_task D) RetStart (upload_concurrency t) fuel sched (start_pool es)) ?Q t" for es
      by (intro wp_weaken [OF stopped_pool]) (use t q upload_concurrency_pos in auto)
    then show "wp (case r of Inl x \<Rightarrow> ret (start_pool [])
       | Inr files \<Rightarrow> State_Monad.bind (gets upload_concurrency) (\<lambda>cap. pool_run (retry_task D) RetStart cap fuel sched (start_pool files))) ?Q t"
      using start t q by (simp add: wp_simps split: sum.split)
  qed
qed

end

text \<open>The check of the size only reads.\<close>

definition same_files :: "('w, 'c) S3Storage \<Rightarrow> ('w, 'c) S3Storage \<Rightarrow> bool" where
  "same_files s t = (net t = net s \<and> cache t = cache s \<and> same_config s t \<and> data_at (disk t) = data_at (disk s))"

lemma checkPendingPressure_effect: "wp checkPendingPressure (\<lambda>_. same_files s) s"
proof -
  have fold: "wp (fold_each add_pending_size acc es) (\<lambda>_. same_files s) t" if "same_files s t" for es acc t
    by (rule wp_fold_each [where I = "\<lambda>_. same_files s"])
      (use that in \<open>auto simp: add_pending_size_def wp_simps same_files_def intro!: wp_Stat split: prod.split\<close>)
  have "wp (do { acc \<leftarrow> fold_each add_pending_size (0, 0) es;
        (if MaxPendingSize (opt s) < snd acc then modify (warnings_update (\<lambda>ws. ws @ [acc])) else ret ()) })
      (\<lambda>_. same_files s) t" if "same_files s t" for es t
    by (simp only: wp_bind, rule wp_weaken [OF fold [OF that]]) (auto simp: wp_simps same_files_def same_config_def)
  then show ?thesis
    unfolding checkPendingPressure_def
    by (auto simp: wp_bind wp_gets wp_if wp_return wp_sum same_files_def intro!: wp_ReadDir)
qed

lemma same_files_pending:
  assumes "same_files s t"
  shows "corrupt_names t = corrupt_names s" and "entry_files t n = entry_files s n"
    and "pendingDir t = pendingDir s" and "retryStopped t = retryStopped s"
  using assms by (simp_all add: same_files_def same_config_def corrupt_names_def pending_names_def intact_def
    entry_files_def pending_data_def)

section \<open>A pass that the stop signal finds under way\<close>

text \<open>
  Once the stop channel is closed, every goroutine of a pass that is under way ends after a bounded number
  of its own steps: a request in flight is not repeated, and a wait returns at once.
\<close>

fun close_rank :: "retry_stage \<Rightarrow> nat" where
  "close_rank RetStart = 2"
| "close_rank (RetCheck a n) = 1"
| "close_rank (RetPut a n) = 4"
| "close_rank (RetWait a n d) = 1"
| "close_rank RetRemove = 3"
| "close_rank RetRemoveCksum = 2"
| "close_rank RetShadow = 1"

interpretation closing_rank: ranked_task "retry_task D" RetStart close_rank 3 retryStopped "\<lambda>_. True" for D
proof
  fix f st and s :: "('a, 'b) S3Storage" assume s: "retryStopped s"
  have stop: "same_config s t \<Longrightarrow> retryStopped t" for t using s by (simp add: same_config_def)
  have "wp (retry_task D f st) (\<lambda>r t. \<forall>st'. r = Running st' \<longrightarrow> close_rank st' < close_rank st) s"
    using s by (cases st) (auto simp: retry_task.simps wp_simps wp_on_net wp_on_disk intro!: wp_I split: prod.split option.split)
  then show "wp (retry_task D f st) (\<lambda>r t. retryStopped t \<and> (\<forall>st'. r = Running st' \<longrightarrow> True \<and> close_rank st' < close_rank st)) s"
    using wp_weaken [OF retry_task_config stop] by (simp add: wp_conj)
next
  fix st show "0 < close_rank st" by (cases st) simp_all
qed simp_all

text \<open>So the rest of the pass is a run of three steps for a file whose goroutine has not been started, and four for any other.\<close>

definition finish_pass ::
  "nat list \<Rightarrow> ('w, 'c) storage_deps \<Rightarrow> retry_stage pool \<Rightarrow> (('w, 'c) S3Storage, retry_stage pool) state"
where
  "finish_pass sched D p = do {
     cap \<leftarrow> gets upload_concurrency;
     pool_run (retry_task D) RetStart cap (3 * length (waiting p) + 4 * length (running p)) sched p }"

lemma close_rank_bound: "pool_rank close_rank 3 p \<le> 3 * length (waiting p) + 4 * length (running p)"
proof -
  have "close_rank st \<le> 4" for st by (cases st) simp_all
  then have "sum_list (map (\<lambda>x. close_rank (snd x)) xs) \<le> 4 * length xs" for xs :: "(pendingFileEntry \<times> retry_stage) list"
    by (induction xs) (auto simp: add_mono)
  then show ?thesis by (simp add: pool_rank_def)
qed

lemma finish_pass_ends: "retryStopped s \<Longrightarrow> wp (finish_pass sched D p) (\<lambda>p' t. pool_done p') s"
  unfolding finish_pass_def
  by (simp add: wp_simps, rule closing_rank.pool_ends [OF close_rank_bound upload_concurrency_pos])
    (simp_all add: closing_rank.ok_pool_def)

text \<open>The uploads that had begun when the signal came; the others never begin.\<close>

fun begun_stage :: "retry_stage \<Rightarrow> bool" where
  "begun_stage RetStart = False"
| "begun_stage (RetCheck a n) = False"
| "begun_stage (RetWait a n d) = False"
| "begun_stage _ = True"

definition begun :: "retry_stage pool \<Rightarrow> pendingFileEntry set" where
  "begun p = {f. \<exists>st. (f, st) \<in> set (running p) \<and> begun_stage st}"

text \<open>
  \<open>flown view A s t\<close>: from \<open>s\<close> to \<open>t\<close> the only files that changed are those of \<open>A\<close> and their checksums, which
  were deleted, and the only objects that changed are those of \<open>A\<close>, which now hold their data, and their shadows, which are gone.
\<close>

definition flown ::
  "('w \<Rightarrow> string \<Rightarrow> bytes option) \<Rightarrow> pendingFileEntry set \<Rightarrow> ('w, 'c) S3Storage \<Rightarrow> ('w, 'c) S3Storage \<Rightarrow> bool"
where
  "flown view A s t = (cache t = cache s \<and> same_config s t
     \<and> (\<forall>q. data_at (disk t) q = data_at (disk s) q
          \<or> data_at (disk t) q = None \<and> (\<exists>f \<in> A. q = pe_localPath f \<or> q = pe_localPath f @ ''.cksum''))
     \<and> (\<forall>k. view (net t) k = view (net s) k
          \<or> (\<exists>f \<in> A. k = pe_name f \<and> view (net t) k = Some (pe_data f) \<or> k = shadow_key s (pe_name f) \<and> view (net t) k = None)))"

lemma flown_refl [simp]: "flown view A s s"
  by (simp add: flown_def)

lemma flown_trans:
  assumes "flown view A s t" and "flown view A t u"
  shows "flown view A s u"
proof -
  have "shadow_key t n = shadow_key s n" for n using assms(1) by (simp add: flown_def same_config_paths)
  then show ?thesis
    using assms unfolding flown_def by (intro conjI) (simp, blast intro: same_config_trans, metis, metis)
qed

context storage_env
begin

lemma stopped_flight:
  assumes "retryStopped s" and "fdString D (pe_fd f) = pe_name f"
  shows "wp (retry_task D f st) (\<lambda>r t. flown view (if begun_stage st then {f} else {}) s t
     \<and> (\<not> begun_stage st \<longrightarrow> (\<forall>st'. r = Running st' \<longrightarrow> \<not> begun_stage st'))) s"
  using assms
  by (cases st) (auto simp: retry_task.simps wp_simps flown_def cleanShadow_def shadow_key_def intro!: wp_put wp_Remove wp_remove)

text \<open>The pool: a file is done under its own name, and no upload begins any more.\<close>

lemma finish_pass_flight:
  assumes "retryStopped s" and names: "\<forall>f \<in> set (waiting p) \<union> fst ` set (running p). fdString D (pe_fd f) = pe_name f"
  shows "wp (finish_pass sched D p) (\<lambda>p' t. flown view (begun p) s t) s"
proof -
  define I where "I q t \<longleftrightarrow> flown view (begun p) s t \<and> begun q \<subseteq> begun p
    \<and> (\<forall>f \<in> set (waiting q) \<union> fst ` set (running q). fdString D (pe_fd f) = pe_name f)" for q and t :: "('w, 'c) S3Storage"
  have "wp (pool_run (retry_task D) RetStart cap n sched p) (\<lambda>p' t. flown view (begun p) s t) s" if cap: "1 \<le> cap" for cap n
  proof (rule wp_pool_run [where I = I], goal_cases)
    case step: (1 c q t)
    have stop: "retryStopped t" using step(1) assms(1) by (simp add: I_def flown_def same_config_def)
    show ?case
    proof (rule wp_pool_step [OF step(2) cap], goal_cases)
      case (1 i)
      obtain f st where i: "running q ! i = (f, st)" by force
      then have fin: "(f, st) \<in> set (running q)" using 1 by (metis nth_mem)
      then have nm: "fdString D (pe_fd f) = pe_name f" using step(1) by (force simp: I_def)
      then have w: "wp (retry_task D f st) (\<lambda>r u. flown view (if begun_stage st then {f} else {}) t u
          \<and> (\<not> begun_stage st \<longrightarrow> (\<forall>st'. r = Running st' \<longrightarrow> \<not> begun_stage st'))) t"
        by (rule stopped_flight [OF stop])
      have mine: "begun_stage st \<Longrightarrow> f \<in> begun p" using step(1) fin by (auto simp: I_def begun_def)
      show ?case
        unfolding i fst_conv snd_conv
      proof (rule wp_weaken [OF w], goal_cases)
        case r: (1 r u)
        have "flown view (begun p) t u" using r mine by (auto simp: flown_def split: if_splits)
        then have "flown view (begun p) s u" using step(1) flown_trans by (auto simp: I_def)
        moreover have "begun (advance i r q) \<subseteq> begun p"
        proof
          fix g assume "g \<in> begun (advance i r q)"
          then obtain st' where g: "(g, st') \<in> set (running (advance i r q))" "begun_stage st'" by (auto simp: begun_def)
          then have "(g, st') \<in> set (running q) \<or> g = f \<and> r = Running st'"
            using 1 by (cases r) (auto simp: advance_def i set_update_others dest: in_set_takeD in_set_dropD)
          then show "g \<in> begun p" using step(1) g(2) r mine by (auto simp: I_def begun_def)
        qed
        moreover have "\<forall>f \<in> set (waiting (advance i r q)) \<union> fst ` set (running (advance i r q)). fdString D (pe_fd f) = pe_name f"
          using step(1) 1 nm by (cases r) (auto simp: I_def advance_def i set_update_others dest!: in_set_takeD in_set_dropD)
        ultimately show ?case by (simp add: I_def)
      qed
    next
      case 2
      then show ?case
        using step(1) by (cases "waiting q") (auto simp: I_def start_next_def begun_def can_start_def)
    qed
  qed (use names in \<open>simp_all add: I_def\<close>)
  then show ?thesis unfolding finish_pass_def by (simp add: wp_simps upload_concurrency_pos)
qed

end

section \<open>Properties\<close>

text \<open>
  C6: A pass of the background goroutine loses no pending file, however long it runs, whichever uploads
  fail and in whatever order its goroutines move: the data of every intact pending file is at every
  moment in the pending directory or in its object. It holds where each pending name is the name
  that goleveldb gives the file, because the object is written under \<^verbatim>\<open>fd.String()\<close>.
\<close>

theorem background_pass_loses_nothing:
  assumes "storage_env D view content" and "slice_sort sorter"
    and "\<And>d w. view (snd (SelectAfter (plat_rt (plat D)) Background d w)) = view w"
    and "clean_dir (pendingDir s)" and "faults (disk s) = []" and "dir_exists (disk s) (pendingDir s)"
    and "\<forall>m \<in> pending_names s. fdString D (pe_fd (pending_entry s m)) = m"
    and "n \<in> pending_names s" and "intact s n" and "pending_data s n = Some d"
    and "run_state (retryPendingFilesOnce sorter sched fuel D) s = (p, t)"
  shows "pending_data t n = Some d \<or> view (net t) n = Some d"
  using recovery_env.retryPendingFilesOnce_effect [OF recovery_env.intro [OF assms(1,2)] assms(3-9), THEN wp_run, OF assms(11)]
    assms(10) by simp

theorem background_pass_loses_nothing_witness:
  "\<exists>p t. run_state (retryPendingFilesOnce slice_insertion [1, 0, 2] 3 demo_deps)
       (demo_storage [] [Answered, Rejected] [(''/c/db/pending_uploads/000001.ldb'', File ''z'')]) = (p, t)
     \<and> (pending_data t ''000001.ldb'' = Some ''z'' \<or> sim_objs (net t) ''000001.ldb'' = Some ''z'')"
proof -
  let ?s = "demo_storage [] [Answered, Rejected] [(''/c/db/pending_uploads/000001.ldb'', File ''z'')]"
  obtain p t where t: "run_state (retryPendingFilesOnce slice_insertion [1, 0, 2] 3 demo_deps) ?s = (p, t)" by force
  have at: "pending_data ?s m = (if m = ''000001.ldb'' then Some ''z'' else pending_data ?s m)" for m
    by (simp add: pending_data_def demo_storage_def data_at_def node_at_def dir_prefix_def)
  have names: "pending_names ?s \<subseteq> {''000001.ldb''}"
    by (auto simp: pending_names_def pending_data_def demo_storage_def data_at_def node_at_def dir_prefix_def
      split: if_splits fs_node.splits)
  have c: "pending_data ?s ''000001.ldb.cksum'' = None"
    by (simp add: pending_data_def demo_storage_def data_at_def node_at_def dir_prefix_def)
  have d: "pending_data ?s ''000001.ldb'' = Some ''z''" using at [of "''000001.ldb''"] by simp
  have "faults (disk ?s) = []" "dir_exists (disk ?s) (pendingDir ?s)" "clean_dir (pendingDir ?s)"
    by (simp_all add: demo_storage_def dir_exists_def node_at_def)
  moreover have "\<forall>m \<in> pending_names ?s. fdString demo_deps (pe_fd (pending_entry ?s m)) = m"
    using names demo_parse demo_fd by (auto simp: pending_entry_def)
  moreover have "''000001.ldb'' \<in> pending_names ?s" and "intact ?s ''000001.ldb''"
    using d c demo_parse by (simp_all add: pending_names_def intact_def HasSuffix_def)
  moreover have "sim_objs (snd (SelectAfter (plat_rt (plat demo_deps)) Background x w)) = sim_objs w" for x w
    by (simp add: sim_platform_def sim_rt_def sim_objs_def)
  ultimately show ?thesis
    using background_pass_loses_nothing [OF demo_env go_sort.slice_sort_axioms _ _ _ _ _ _ _ d t] t by blast
qed

text \<open>
  The pass that \<open>backgroundRetryLoop\<close> makes on the stop signal, in order that every file is tried
  once more, sends nothing: the closed channel is seen before the first request of each file. Whatever the
  schedule, no object changes, every goroutine that finishes reports the stop signal, and no file
  except a corrupt one and its checksum is touched; then the loop ends.
\<close>

theorem final_pass_uploads_nothing:
  assumes "slice_sort sorter" and "pendingDir s = '''' \<or> clean_dir (pendingDir s)" and "retryStopped s"
    and "run_state (backgroundRetryLoop_body sorter sched fuel D StopBranch) s = ((p, again), t)"
  shows "net t = net s \<and> \<not> again \<and> (\<forall>r \<in> set (results p). snd r = Some stop_received)
     \<and> (\<forall>q. data_at (disk t) q = data_at (disk s) q \<or> (\<exists>n \<in> corrupt_names s. q \<in> entry_files s n))"
proof -
  let ?Q = "\<lambda>r t. net t = net s \<and> \<not> snd r \<and> (\<forall>x \<in> set (results (fst r)). snd x = Some stop_received)
     \<and> (\<forall>q. data_at (disk t) q = data_at (disk s) q \<or> (\<exists>n \<in> corrupt_names s. q \<in> entry_files s n))"
  have pass: "wp (retryPendingFilesOnce sorter sched fuel D) (\<lambda>p t. turned_away p \<and> net t = net s
     \<and> (\<forall>q. data_at (disk t) q = data_at (disk s) q \<or> (\<exists>n \<in> corrupt_names s. q \<in> entry_files s n))) u"
    if u: "same_files s u" for u
    by (rule wp_weaken [OF slice_sort.stopped_pass [OF assms(1), of u]])
      (use u assms(2,3) same_files_pending [OF u] in \<open>auto simp: same_files_def dest: disk_only_fields\<close>)
  have "wp (backgroundRetryLoop_body sorter sched fuel D StopBranch) ?Q s"
    unfolding backgroundRetryLoop_body_def loop_branch.case wp_bind
    by (rule wp_weaken [OF checkPendingPressure_effect], rule wp_weaken [OF pass])
      (auto simp: wp_simps turned_away_def)
  from wp_run [OF this assms(4)] show ?thesis by simp
qed

theorem final_pass_uploads_nothing_witness:
  "\<exists>p again t. run_state (backgroundRetryLoop_body slice_insertion [0, 0] 9 demo_deps StopBranch)
       (demo_storage [] [] [(''/c/db/pending_uploads/000001.ldb'', File ''z'')]\<lparr>retryStopped := True\<rparr>) = ((p, again), t)
     \<and> sim_table (net t) = [] \<and> \<not> again"
proof -
  let ?s = "demo_storage [] [] [(''/c/db/pending_uploads/000001.ldb'', File ''z'')]\<lparr>retryStopped := True\<rparr>"
  obtain p again t where t: "run_state (backgroundRetryLoop_body slice_insertion [0, 0] 9 demo_deps StopBranch) ?s = ((p, again), t)"
    by (metis prod.exhaust)
  moreover have "sim_table (net ?s) = []" by (simp add: demo_storage_def)
  ultimately show ?thesis
    using final_pass_uploads_nothing [OF go_sort.slice_sort_axioms _ _ t] by auto
qed

text \<open>
  C26: With bounds on the duration and on the attempts, both positive, \<open>uploadWithInfiniteRetry\<close> returns,
  whatever the service does, as long as time does not run backwards and the timer waits as long as it
  is told; and if it returns nil, the object holds the data.
\<close>

theorem infinite_retry_ends:
  assumes "steady_clock D" and "s3_api (api D) view"
    and "0 < RetryMaxDuration (opt s)" and "0 < RetryMaxAttempts (opt s)"
  shows "\<exists>r t. uploadWithInfiniteRetry D f s = Some (r, t)
     \<and> (r = None \<longrightarrow> view (net t) (fdString D (pe_fd f)) = Some (pe_data f))"
proof -
  obtain r t where u: "uploadWithInfiniteRetry D f s = Some (r, t)"
    using steady_clock.upload_loop_returns [OF assms(1,3,4)] unfolding upload_loop_start by fastforce
  moreover have "upload_loop D f RetStart s = Some (r, t)" using u by (simp add: uploadWithInfiniteRetry_def)
  ultimately show ?thesis using upload_loop_nil [OF assms(2)] by auto
qed

theorem infinite_retry_ends_witness:
  "\<exists>r t. uploadWithInfiniteRetry demo_deps (pending_entry (demo_storage [] [] []) ''000001.ldb'')
     ((demo_storage [] [Rejected, AnswerLost] [])\<lparr>opt := demo_option\<lparr>RetryMaxDuration := 10 ^ 9, RetryMaxAttempts := 5\<rparr>\<rparr>)
     = Some (r, t)"
proof -
  have "s3_api (api demo_deps) sim_objs" using mem.s3_api_axioms by simp
  note ends = infinite_retry_ends [OF demo_clock.steady_clock_axioms this]
  let ?s = "(demo_storage [] [Rejected, AnswerLost] [])\<lparr>opt := demo_option\<lparr>RetryMaxDuration := 10 ^ 9, RetryMaxAttempts := 5\<rparr>\<rparr>"
  have "0 < RetryMaxDuration (opt ?s)" and "0 < RetryMaxAttempts (opt ?s)" by simp_all
  from ends [OF this] show ?thesis by metis
qed

text \<open>
  C27: Without a bound on the duration, which is the default, it never returns while every request
  fails and neither the stop signal nor the loss of the lock comes: the value \<open>None\<close> stands for a
  run that does not end, and the goroutine keeps its place in the pool.
\<close>

theorem infinite_retry_never_ends:
  assumes "\<And>k d w. \<exists>e w'. api_PutBytes (api D) StorageCtx k d w = (Some e, w')"
    and "RetryMaxDuration (opt s) \<le> 0" and "\<not> retryStopped s" and "\<not> lockLost s"
  shows "uploadWithInfiniteRetry D f s = None"
proof (rule ccontr)
  assume "uploadWithInfiniteRetry D f s \<noteq> None"
  then obtain y where "upload_loop D f RetStart s = Some y" by (auto simp: uploadWithInfiniteRetry_def)
  from upload_loop_diverges [OF assms(1) this assms(2-4)] show False by simp
qed

theorem infinite_retry_never_ends_witness:
  "uploadWithInfiniteRetry (demo_deps\<lparr>api := mem_api\<lparr>api_PutBytes := \<lambda>c k d w. (Some (OtherError ''unreachable''), w)\<rparr>\<rparr>)
     (pending_entry (demo_storage [] [] []) ''000001.ldb'')
     ((demo_storage [] [] [])\<lparr>opt := demo_option\<lparr>RetryMaxDuration := 0\<rparr>\<rparr>) = None"
  by (rule infinite_retry_never_ends) simp_all

text \<open>
  The background goroutine can delete newer data. It has uploaded the old version of a file and is
  about to remove the pending copy, when a writer fails to upload a new version and persists it to
  the pending directory and the shadow; the three clean-up steps then remove the new version
  from both, and the object keeps the old one.
\<close>

theorem retry_race_loses_new_data:
  "\<exists>s1 s2 e s3 s4 s5. let f = pending_entry (demo_storage [] [Answered, Rejected] [(''/c/db/pending_uploads/000001.ldb'', File ''old'')]) ''000001.ldb'' in
     run_state (retry_task demo_deps f (RetPut 5 0))
       (demo_storage [] [Answered, Rejected] [(''/c/db/pending_uploads/000001.ldb'', File ''old'')]) = (Running RetRemove, s1)
   \<and> run_state (uploadFile demo_deps (FileDesc TypeTable 1) ''new'') s1 = (Some e, s2)
   \<and> pending_data s2 ''000001.ldb'' = Some ''new'' \<and> sim_objs (net s2) (shadow_key s2 ''000001.ldb'') = Some ''new''
   \<and> run_state (retry_task demo_deps f RetRemove) s2 = (Running RetRemoveCksum, s3)
   \<and> run_state (retry_task demo_deps f RetRemoveCksum) s3 = (Running RetShadow, s4)
   \<and> run_state (retry_task demo_deps f RetShadow) s4 = (Finished None, s5)
   \<and> pending_data s5 ''000001.ldb'' = None \<and> sim_objs (net s5) (shadow_key s5 ''000001.ldb'') = None
   \<and> sim_objs (net s5) ''000001.ldb'' = Some ''old''"
proof -
  let ?s = "demo_storage [] [Answered, Rejected] [(''/c/db/pending_uploads/000001.ldb'', File ''old'')]"
  let ?f = "pending_entry ?s ''000001.ldb''"
  have f: "?f = \<lparr>pe_name = ''000001.ldb'', pe_data = ''old'', pe_fd = FileDesc TypeTable 1,
      pe_localPath = ''/c/db/pending_uploads/000001.ldb''\<rparr>"
    unfolding pending_entry_def demo_parse
    by (simp add: pending_data_def demo_storage_def data_at_def node_at_def dir_prefix_def path_eval)
  note exec = demo_storage_def pending_exec retry_task.simps [THEN wp_unfold] demo_option_def lru_list_ops_def isMetadataKey_def
    HasPrefix_def wp_exec mem_eval host_eval path_eval atomicWriteFile_def demo_fd AList.delete_eq fmt_eval
    pending_data_def shadow_key_def dir_prefix_def
  have "wp (retry_task demo_deps ?f (RetPut 5 0)) (\<lambda>r1 s1. r1 = Running RetRemove
      \<and> wp (uploadFile demo_deps (FileDesc TypeTable 1) ''new'') (\<lambda>e s2. e \<noteq> None
        \<and> pending_data s2 ''000001.ldb'' = Some ''new'' \<and> sim_objs (net s2) (shadow_key s2 ''000001.ldb'') = Some ''new''
        \<and> wp (retry_task demo_deps ?f RetRemove) (\<lambda>r3 s3. r3 = Running RetRemoveCksum
          \<and> wp (retry_task demo_deps ?f RetRemoveCksum) (\<lambda>r4 s4. r4 = Running RetShadow
            \<and> wp (retry_task demo_deps ?f RetShadow) (\<lambda>r5 s5. r5 = Finished None
              \<and> pending_data s5 ''000001.ldb'' = None \<and> sim_objs (net s5) (shadow_key s5 ''000001.ldb'') = None
              \<and> sim_objs (net s5) ''000001.ldb'' = Some ''old'') s4) s3) s2) s1) ?s"
    unfolding f by (simp add: exec del: leveldb_String.simps cong: wp_state_cong)
  then show ?thesis by (auto simp: wp_def Let_def split: prod.splits)
qed

end
