(* ===== verification/Storage_Rename.thy ===== *)
theory Storage_Rename
  imports Storage_Files
begin

text \<open>
  \<open>Remove\<close> and \<open>Rename\<close> of \<^verbatim>\<open>S3Storage\<close> (\<^verbatim>\<open>s3/storage.go\<close>), which look after the object, the cache,
  the local copy, the pending copy and its shadow, and their effects on each of these.
\<close>

section \<open>Removing and renaming\<close>

definition remove_local :: "file_desc \<Rightarrow> string \<Rightarrow> (('w, 'c) S3Storage, unit) state" where
  "remove_local fd name = do {
     local \<leftarrow> gets (\<lambda>s. shouldCacheLocally s fd);
     dir \<leftarrow> gets localDir;
     if local then do { on_disk (os_Remove (filepath_Join [dir, name])); ret () } else ret () }"

definition Remove :: "('w, 'c) storage_deps \<Rightarrow> file_desc \<Rightarrow> (('w, 'c) S3Storage, error option) state" where
  "Remove D fd = guarded Some (do {
     let name = fdString D fd;
     cache_remove D fd;
     remove_local fd name;
     remove_pending name;
     cleanShadow D name;
     e \<leftarrow> on_net (api_Remove (api D) StorageCtx name);
     case e of Some err \<Rightarrow> ret (Some (Wrapf (''failed to remove file '' @ name) err)) | None \<Rightarrow> ret None })"

definition rename_cache :: "('w, 'c) storage_deps \<Rightarrow> file_desc \<Rightarrow> file_desc \<Rightarrow> (('w, 'c) S3Storage, unit) state" where
  "rename_cache D oldfd newfd = do {
     r \<leftarrow> on_net (api_GetBytes (api D) StorageCtx (fdString D oldfd));
     case r of
       Inl _ \<Rightarrow> ret ()
     | Inr oldData \<Rightarrow> do { cache_remove D oldfd; cache_add D newfd oldData } }"

text \<open>A pending copy of the renamed file: moved, or else copied and deleted.\<close>

definition rename_by_move ::
  "('w, 'c) storage_deps \<Rightarrow> string \<Rightarrow> string \<Rightarrow> string \<Rightarrow> string \<Rightarrow> (('w, 'c) S3Storage, unit) state"
where
  "rename_by_move D oldPath newPath oldName newName = do {
     on_disk (os_Rename (oldPath @ ''.cksum'') (newPath @ ''.cksum''));
     cleanShadow D oldName;
     data \<leftarrow> on_disk (os_ReadFile newPath);
     case data of Inl _ \<Rightarrow> ret () | Inr d \<Rightarrow> uploadToShadow D newName d }"

definition rename_by_copy ::
  "('w, 'c) storage_deps \<Rightarrow> string \<Rightarrow> string \<Rightarrow> string \<Rightarrow> string \<Rightarrow> (('w, 'c) S3Storage, unit) state"
where
  "rename_by_copy D oldPath newPath oldName newName = do {
     data \<leftarrow> on_disk (os_ReadFile oldPath);
     case data of
       Inl _ \<Rightarrow> ret ()
     | Inr d \<Rightarrow> do {
         w \<leftarrow> on_disk (os_WriteFile newPath d);
         case w of
           Inl _ \<Rightarrow> ret ()
         | Inr _ \<Rightarrow> do {
             on_disk (os_Remove oldPath);
             on_disk (os_Remove (oldPath @ ''.cksum''));
             on_disk (os_WriteFile (newPath @ ''.cksum'') (cksum_of d));
             cleanShadow D oldName;
             uploadToShadow D newName d } } }"

definition rename_pending :: "('w, 'c) storage_deps \<Rightarrow> string \<Rightarrow> string \<Rightarrow> (('w, 'c) S3Storage, unit) state" where
  "rename_pending D oldName newName = do {
     dir \<leftarrow> gets pendingDir;
     if dir = '''' then ret () else do {
       let oldPath = filepath_Join [dir, oldName];
       let newPath = filepath_Join [dir, newName];
       st \<leftarrow> on_disk (os_Stat oldPath);
       case st of
         Inl _ \<Rightarrow> ret ()
       | Inr _ \<Rightarrow> do {
           e \<leftarrow> on_disk (os_Rename oldPath newPath);
           case e of
             Inr _ \<Rightarrow> rename_by_move D oldPath newPath oldName newName
           | Inl _ \<Rightarrow> rename_by_copy D oldPath newPath oldName newName } } }"

definition remove_source :: "('w, 'c) storage_deps \<Rightarrow> string \<Rightarrow> (('w, 'c) S3Storage, error option) state" where
  "remove_source D oldName = do {
     e \<leftarrow> on_net (api_Remove (api D) StorageCtx oldName);
     case e of
       None \<Rightarrow> ret None
     | Some _ \<Rightarrow> do {
         retryCtx \<leftarrow> gets (\<lambda>s. ctxWithTimeout (plat_rt (plat D)) Background (RequestTimeout (opt s)) (net s));
         e' \<leftarrow> on_net (api_Remove (api D) retryCtx oldName);
         case e' of
           Some err \<Rightarrow> ret (Some (Wrapf (''failed to delete source '' @ oldName @ '' after copy (retried)'') err))
         | None \<Rightarrow> ret None } }"

definition rename_local :: "file_desc \<Rightarrow> string \<Rightarrow> string \<Rightarrow> (('w, 'c) S3Storage, unit) state" where
  "rename_local oldfd oldName newName = do {
     local \<leftarrow> gets (\<lambda>s. shouldCacheLocally s oldfd);
     dir \<leftarrow> gets localDir;
     if \<not> local then ret () else do {
       data \<leftarrow> on_disk (os_ReadFile (filepath_Join [dir, oldName]));
       case data of
         Inl _ \<Rightarrow> ret ()
       | Inr d \<Rightarrow> do {
           on_disk (os_WriteFile (filepath_Join [dir, newName]) d);
           on_disk (os_Remove (filepath_Join [dir, oldName]));
           ret () } } }"

definition Rename :: "('w, 'c) storage_deps \<Rightarrow> file_desc \<Rightarrow> file_desc \<Rightarrow> (('w, 'c) S3Storage, error option) state" where
  "Rename D oldfd newfd = guarded Some (do {
     let oldName = fdString D oldfd;
     let newName = fdString D newfd;
     e \<leftarrow> on_net (api_Copy (api D) StorageCtx oldName newName);
     case e of
       Some err \<Rightarrow> ret (Some (Wrapf (''failed to copy '' @ oldName @ '' to '' @ newName) err))
     | None \<Rightarrow> do {
         rename_cache D oldfd newfd;
         rename_pending D oldName newName;
         r \<leftarrow> remove_source D oldName;
         case r of
           Some err \<Rightarrow> ret (Some err)
         | None \<Rightarrow> do { rename_local oldfd oldName newName; ret None } } })"

section \<open>Effects\<close>

text \<open>The pending copy of the old name survives under one of the two names.\<close>

definition moved :: "string \<Rightarrow> string \<Rightarrow> ('w, 'c) S3Storage \<Rightarrow> ('w, 'c) S3Storage \<Rightarrow> bool" where
  "moved p q s t = (\<forall>d. data_at (disk s) p = Some d \<longrightarrow> data_at (disk t) p = Some d \<or> data_at (disk t) q = Some d)"

context storage_env
begin

lemma wp_remove_local:
  assumes "\<And>t. within view {} {local_path s n} s t \<Longrightarrow> cache t = cache s \<Longrightarrow> net t = net s \<Longrightarrow> Q () t"
  shows "wp (remove_local fd n) Q s"
proof -
  have "Q () s" by (rule assms) simp_all
  then show ?thesis
    unfolding remove_local_def
    by (auto simp: wp_simps intro!: wp_Remove) (auto simp: within_def local_path_def intro!: assms)
qed

lemma Remove_effect:
  assumes "valid_fd fd"
  shows "wp (Remove D fd) (\<lambda>r t.
      within view {fdString D fd, shadow_key s (fdString D fd)}
        (insert (local_path s (fdString D fd)) (pending_files s (fdString D fd))) s t
    \<and> (closed s \<longrightarrow> r = Some StorageErrClosed \<and> t = s)
    \<and> (\<not> closed s \<and> lockLost s \<longrightarrow> r = Some ErrLockLost \<and> t = s)
    \<and> (\<not> closed s \<and> \<not> lockLost s \<longrightarrow> cache t = cache_Remove (lru D) (fdString D fd) (cache s)
         \<and> view (net t) (fdString D fd) \<in> {view (net s) (fdString D fd), None}
         \<and> (r = None \<longrightarrow> view (net t) (fdString D fd) = None))) s"
proof -
  let ?n = "fdString D fd"
  let ?u = "cache_update (cache_Remove (lru D) ?n) s"
  have ne: "?n \<noteq> shadow_key s ?n" using assms by (rule shadow_key_not_name)
  have body: "wp (do {
       remove_local fd ?n;
       remove_pending ?n;
       cleanShadow D ?n;
       e \<leftarrow> on_net (api_Remove (api D) StorageCtx ?n);
       case e of Some err \<Rightarrow> ret (Some (Wrapf (''failed to remove file '' @ ?n) err)) | None \<Rightarrow> ret None })
     (\<lambda>r t. within view {?n, shadow_key s ?n} (insert (local_path s ?n) (pending_files s ?n)) s t
       \<and> cache t = cache ?u \<and> view (net t) ?n \<in> {view (net s) ?n, None} \<and> (r = None \<longrightarrow> view (net t) ?n = None)) ?u"
    unfolding wp_bind
  proof (rule wp_remove_local, rule wp_remove_pending, rule wp_cleanShadow, goal_cases)
    case (1 t1 t2 t3)
    have paths: "local_path ?u ?n = local_path s ?n" "pending_files t1 ?n = pending_files s ?n"
      "shadow_key t2 ?n = shadow_key s ?n"
      using 1 by (simp_all add: within_def same_config_def local_path_def pending_files_def pending_path_def shadow_key_def)
    have w3: "within view {shadow_key s ?n} (insert (local_path s ?n) (pending_files s ?n)) s t3"
      using 1 unfolding paths by (simp add: within_def same_config_def)
    show ?case
      by (rule wp_remove) (use w3 ne 1 in \<open>auto simp: wp_return within_def\<close>)
  qed
  show ?thesis
    unfolding Remove_def
  proof (rule wp_guarded, goal_cases)
    case 3
    then show ?case
      unfolding Let_def cache_remove_def makeCacheKey_def wp_bind [of "modify _"] wp_modify
      by (intro wp_weaken [OF body]) simp
  qed simp_all
qed

end

context storage_env
begin

lemma wp_rename_cache:
  assumes "\<And>t. same_config s t \<Longrightarrow> disk t = disk s \<Longrightarrow> view (net t) = view (net s) \<Longrightarrow>
      (cache t = cache s \<or> (\<exists>d. view (net s) (fdString D oldfd) = Some d
         \<and> cache t = cache_Add (lru D) (fdString D newfd) \<lparr>mf_fd = newfd, mf_data = d\<rparr>
             (cache_Remove (lru D) (fdString D oldfd) (cache s)))) \<Longrightarrow> Q () t"
  shows "wp (rename_cache D oldfd newfd) Q s"
  unfolding rename_cache_def
  by (auto simp: wp_simps cache_remove_def cache_add_def makeCacheKey_def intro!: wp_get assms)

lemma wp_reshadow:
  assumes "\<And>t. within view {shadow_key s m, shadow_key s n} {} s t \<Longrightarrow> cache t = cache s \<Longrightarrow> disk t = disk s \<Longrightarrow> Q () t"
  shows "wp (cleanShadow D m) (\<lambda>_. wp (uploadToShadow D n d) Q) s"
proof (rule wp_cleanShadow, rule wp_uploadToShadow, goal_cases)
  case (1 t u)
  then have "shadow_key t n = shadow_key s n" by (simp add: within_def same_config_paths)
  then show ?case using 1 by (intro assms) (auto simp: within_def intro: same_config_trans)
qed

end

text \<open>After changes of the local files alone.\<close>

lemma within_disk: "within view K P s (s\<lparr>disk := h\<rparr>) \<longleftrightarrow> (\<forall>q. q \<notin> P \<longrightarrow> data_at h q = data_at (disk s) q)"
  by (simp add: within_def)

lemma within_after_disk:
  assumes "within view {shadow_key (s\<lparr>disk := h\<rparr>) m, shadow_key (s\<lparr>disk := h\<rparr>) n} {} (s\<lparr>disk := h\<rparr>) t"
    and "\<forall>q. q \<notin> P \<longrightarrow> data_at h q = data_at (disk s) q"
  shows "within view {shadow_key s m, shadow_key s n} P s t"
  using assms by (simp add: within_def shadow_key_def)

context storage_env
begin

lemma wp_rename_by_move:
  assumes "p \<noteq> q" and "p @ ''.cksum'' \<noteq> q" and "q @ ''.cksum'' \<noteq> p"
    and "\<And>t. within view {shadow_key s m, shadow_key s n} {p @ ''.cksum'', q @ ''.cksum''} s t \<Longrightarrow>
      cache t = cache s \<Longrightarrow> Q () t"
  shows "wp (rename_by_move D p q m n) Q s"
proof -
  let ?P = "{p @ ''.cksum'', q @ ''.cksum''}"
  have rest: "wp (cleanShadow D m) (\<lambda>_. wp (on_disk (os_ReadFile q)) (\<lambda>data.
      wp (case data of Inl _ \<Rightarrow> ret () | Inr d \<Rightarrow> uploadToShadow D n d) Q)) (s\<lparr>disk := h\<rparr>)"
    if h: "\<forall>x. x \<notin> ?P \<longrightarrow> data_at h x = data_at (disk s) x" for h
  proof (rule wp_cleanShadow, rule wp_ReadFile, goal_cases)
    case (1 t d h')
    have k: "shadow_key (t\<lparr>disk := h'\<rparr>) n = shadow_key s n"
      using 1 by (simp add: within_def same_config_def shadow_key_def)
    show ?case
      unfolding sum.case
    proof (rule wp_uploadToShadow, rule assms(4), goal_cases)
      case u: (1 u)
      then show ?case using 1 h unfolding k by (simp add: within_def same_config_def shadow_key_def)
    qed (use 1 in simp)
  next
    case (2 t e h')
    then show ?case
      using h by (simp add: wp_return) (rule assms(4), simp_all add: within_def shadow_key_def)
  qed
  have "p @ ''.cksum'' \<noteq> q @ ''.cksum''" using assms(1) by simp
  then show ?thesis
    unfolding rename_by_move_def wp_bind by (rule wp_Rename) (rule rest, simp)+
qed

lemma wp_rename_by_copy:
  assumes "p \<noteq> q" and "p @ ''.cksum'' \<noteq> q" and "q @ ''.cksum'' \<noteq> p"
    and "\<And>t. within view {shadow_key s m, shadow_key s n} {p, p @ ''.cksum'', q, q @ ''.cksum''} s t \<Longrightarrow>
      cache t = cache s \<Longrightarrow> moved p q s t \<Longrightarrow> Q () t"
  shows "wp (rename_by_copy D p q m n) Q s"
proof -
  let ?P = "{p, p @ ''.cksum'', q, q @ ''.cksum''}"
  have stop: "Q () (s\<lparr>disk := h\<rparr>)"
    if "\<forall>x. x \<notin> ?P \<longrightarrow> data_at h x = data_at (disk s) x" "data_at h p = data_at (disk s) p" for h
    using that by (intro assms(4)) (simp_all add: within_disk moved_def)
  have shadow: "wp (cleanShadow D m) (\<lambda>_. wp (uploadToShadow D n d) Q) (s\<lparr>disk := h\<rparr>)"
    if h: "\<forall>x. x \<notin> ?P \<longrightarrow> data_at h x = data_at (disk s) x" "data_at h q = data_at (disk s) p" for h d
  proof (rule wp_reshadow, rule assms(4), goal_cases)
    case (1 t)
    show ?case using 1(1) h(1) by (rule within_after_disk)
  next
    case (3 t)
    then show ?case using h by (simp add: moved_def)
  qed simp
  note [simp] = assms(1-3) assms(1-3) [symmetric]
  have tail: "wp (on_disk (os_Remove p)) (\<lambda>_. wp (on_disk (os_Remove (p @ ''.cksum''))) (\<lambda>_.
      wp (on_disk (os_WriteFile (q @ ''.cksum'') (cksum_of d))) (\<lambda>_.
      wp (cleanShadow D m) (\<lambda>_. wp (uploadToShadow D n d) Q)))) (s\<lparr>disk := h\<rparr>)"
    if "data_at h = (data_at (disk s))(q \<mapsto> d)" "data_at (disk s) p = Some d" for h d
    by (intro wp_Remove wp_WriteFile; simp; rule shadow) (simp_all add: that)
  show ?thesis
    unfolding rename_by_copy_def wp_bind
  proof (rule wp_ReadFile, goal_cases)
    case (1 d h)
    show ?case
      unfolding sum.case wp_bind
    proof (rule wp_WriteFile, goal_cases)
      case w: (1 h')
      show ?case unfolding sum.case wp_bind using 1 w by (simp add: tail)
    next
      case w: (2 e h' x)
      show ?case unfolding sum.case wp_return using 1 w by (simp add: stop)
    qed
  next
    case (2 e h)
    then show ?case by (simp add: wp_return stop)
  qed
qed

end

context storage_env
begin

lemma pending_paths_distinct:
  assumes "valid_fd oldfd" and "valid_fd newfd" and "oldfd \<noteq> newfd" and "clean_dir (pendingDir s)"
  shows "pending_path s (fdString D oldfd) \<noteq> pending_path s (fdString D newfd)"
    and "pending_path s (fdString D oldfd) @ ''.cksum'' \<noteq> pending_path s (fdString D newfd)"
    and "pending_path s (fdString D newfd) @ ''.cksum'' \<noteq> pending_path s (fdString D oldfd)"
proof -
  have j: "pending_path s (fdString D fd) = dir_prefix (pendingDir s) @ fdString D fd" if "valid_fd fd" for fd
    using that assms(4) name_plain by (simp add: pending_path_def Join_dir_prefix)
  show "pending_path s (fdString D oldfd) \<noteq> pending_path s (fdString D newfd)"
    using assms name_inj by (auto simp: j)
  have "fdString D fd @ ''.cksum'' \<noteq> fdString D fd'" if "valid_fd fd'" for fd fd'
    using name_not_cksum [OF that] by (auto simp: HasSuffix_def dest!: sym [of "_ @ _"])
  then show "pending_path s (fdString D oldfd) @ ''.cksum'' \<noteq> pending_path s (fdString D newfd)"
    and "pending_path s (fdString D newfd) @ ''.cksum'' \<noteq> pending_path s (fdString D oldfd)"
    using assms by (simp_all add: j)
qed

lemma wp_rename_pending:
  assumes "valid_fd oldfd" and "valid_fd newfd" and "oldfd \<noteq> newfd" and "pendingDir s = '''' \<or> clean_dir (pendingDir s)"
    and "\<And>t. within view {shadow_key s (fdString D oldfd), shadow_key s (fdString D newfd)}
        (pending_files s (fdString D oldfd) \<union> pending_files s (fdString D newfd)) s t \<Longrightarrow> cache t = cache s \<Longrightarrow>
      moved (pending_path s (fdString D oldfd)) (pending_path s (fdString D newfd)) s t \<Longrightarrow> Q () t"
  shows "wp (rename_pending D (fdString D oldfd) (fdString D newfd)) Q s"
proof (cases "pendingDir s = ''''")
  case True
  then show ?thesis by (simp add: rename_pending_def wp_simps assms(5) moved_def)
next
  case False
  let ?m = "fdString D oldfd" and ?n = "fdString D newfd"
  let ?p = "pending_path s ?m" and ?q = "pending_path s ?n"
  have dir: "clean_dir (pendingDir s)" using False assms(4) by simp
  note ne = pending_paths_distinct [OF assms(1-3) dir]
  have stay: "Q () (s\<lparr>disk := h\<rparr>)" if "data_at h = data_at (disk s)" for h
    by (rule assms(5)) (use that in \<open>simp_all add: within_disk moved_def\<close>)
  have move: "wp (rename_by_move D ?p ?q ?m ?n) Q (s\<lparr>disk := h\<rparr>)"
    if h: "data_at h = (data_at (disk s))(?p := None, ?q \<mapsto> d)" "data_at (disk s) ?p = Some d" for h d
  proof (rule wp_rename_by_move [OF ne], rule assms(5), goal_cases)
    case (1 t)
    then have k: "same_config s t" "\<And>k. k \<notin> {shadow_key s ?m, shadow_key s ?n} \<Longrightarrow> view (net t) k = view (net s) k"
      "\<And>x. x \<notin> {?p @ ''.cksum'', ?q @ ''.cksum''} \<Longrightarrow> data_at (disk t) x = data_at h x"
      by (simp_all add: within_def shadow_key_def)
    then show ?case using h by (simp add: within_def pending_files_def)
  next
    case (3 t)
    then have "data_at (disk t) ?q = data_at h ?q" using ne by (simp add: within_def)
    then show ?case using h by (simp add: moved_def)
  qed simp
  have copy: "wp (rename_by_copy D ?p ?q ?m ?n) Q (s\<lparr>disk := h\<rparr>)" if h: "data_at h = data_at (disk s)" for h
  proof (rule wp_rename_by_copy [OF ne], rule assms(5), goal_cases)
    case (1 t)
    then show ?case using h by (simp add: within_def pending_files_def shadow_key_def insert_commute)
  next
    case (3 t)
    then show ?case using h by (simp add: moved_def)
  qed simp
  have step: "wp (case st of Inl _ \<Rightarrow> ret ()
       | Inr _ \<Rightarrow> do {
           e \<leftarrow> on_disk (os_Rename ?p ?q);
           case e of
             Inr _ \<Rightarrow> rename_by_move D ?p ?q ?m ?n
           | Inl _ \<Rightarrow> rename_by_copy D ?p ?q ?m ?n }) Q (s\<lparr>disk := h\<rparr>)"
    if h: "data_at h = data_at (disk s)" for st h
  proof (cases st)
    case (Inl e)
    then show ?thesis using h by (simp add: wp_return stay)
  next
    case (Inr b)
    show ?thesis
      unfolding Inr sum.case wp_bind
    proof (rule wp_Rename [OF ne(1)], goal_cases)
      case (1 d h')
      then show ?case using h by (simp add: move)
    next
      case (2 e h')
      then show ?case using h by (simp add: copy)
    qed
  qed
  have "wp (on_disk (os_Stat ?p)) (\<lambda>st. wp (case st of Inl _ \<Rightarrow> ret ()
       | Inr _ \<Rightarrow> do {
           e \<leftarrow> on_disk (os_Rename ?p ?q);
           case e of
             Inr _ \<Rightarrow> rename_by_move D ?p ?q ?m ?n
           | Inl _ \<Rightarrow> rename_by_copy D ?p ?q ?m ?n }) Q) s"
    by (rule wp_Stat) (rule step)
  then show ?thesis
    unfolding rename_pending_def Let_def using False by (simp only: wp_bind [of "gets _"] wp_bind [of "on_disk _"] wp_gets if_False pending_path_def)
qed

end

text \<open>What \<open>Rename\<close> does to the objects and to the cache, for any two names.\<close>

context storage_env
begin

lemma wp_remove_source:
  assumes "\<And>w. view w = (view (net s))(m := None) \<Longrightarrow> Q None (s\<lparr>net := w\<rparr>)"
    and "\<And>e w. view w = view (net s) \<or> view w = (view (net s))(m := None) \<Longrightarrow> Q (Some e) (s\<lparr>net := w\<rparr>)"
  shows "wp (remove_source D m) Q s"
  unfolding remove_source_def by (auto simp: wp_simps intro!: wp_remove assms)

lemma wp_rename_pending_net:
  assumes "\<And>t. within view {shadow_key s m, shadow_key s n} UNIV s t \<Longrightarrow> cache t = cache s \<Longrightarrow> Q () t"
  shows "wp (rename_pending D m n) Q s"
proof -
  have stay: "Q () (s\<lparr>disk := h\<rparr>)" for h by (rule assms) (simp_all add: within_def)
  have none: "Q () s" by (rule assms) simp_all
  have shadow: "wp (cleanShadow D m) (\<lambda>_. wp (uploadToShadow D n d) Q) (s\<lparr>disk := h\<rparr>)" for h d
    by (rule wp_reshadow) (rule assms, simp_all add: within_def shadow_key_def)
  have move: "wp (rename_by_move D p q m n) Q (s\<lparr>disk := h\<rparr>)" for p q h
    unfolding rename_by_move_def wp_bind
  proof (intro wp_on_disk_any wp_cleanShadow, goal_cases)
    case (1 r h t r' h')
    then have t: "within view {shadow_key s m, shadow_key s n} UNIV s (t\<lparr>disk := h'\<rparr>)" "cache t = cache s"
      by (simp_all add: within_def shadow_key_def)
    show ?case
    proof (cases r')
      case (Inr d)
      have k: "shadow_key (t\<lparr>disk := h'\<rparr>) n = shadow_key s n" using t by (simp add: within_def same_config_paths)
      show ?thesis
        unfolding Inr sum.case
        by (rule wp_uploadToShadow, rule assms)
          (use t in \<open>auto simp: k within_def intro: same_config_trans\<close>)
    qed (use t in \<open>simp add: wp_return assms\<close>)
  qed
  have copy: "wp (rename_by_copy D p q m n) Q (s\<lparr>disk := h\<rparr>)" for p q h
    unfolding rename_by_copy_def
    by (auto simp: wp_simps stay intro!: wp_on_disk_any shadow split: sum.split)
  show ?thesis
    unfolding rename_pending_def Let_def
    by (auto simp: wp_simps stay none intro!: wp_on_disk_any move copy split: sum.split)
qed

end

text \<open>The outcome of \<open>Rename\<close>: which objects, and what the cache, may have become.\<close>

definition renamed ::
  "('w, 'c) storage_deps \<Rightarrow> ('w \<Rightarrow> string \<Rightarrow> bytes option) \<Rightarrow> file_desc \<Rightarrow> file_desc
     \<Rightarrow> ('w, 'c) S3Storage \<Rightarrow> error option \<Rightarrow> ('w, 'c) S3Storage \<Rightarrow> bool"
where
  "renamed D view oldfd newfd s r t =
     (let m = fdString D oldfd; n = fdString D newfd in
        same_config s t
      \<and> (\<forall>k. k \<notin> {m, n, shadow_key s m, shadow_key s n} \<longrightarrow> view (net t) k = view (net s) k)
      \<and> (case r of
           None \<Rightarrow> view (net s) m \<noteq> None \<and> view (net t) m = None
             \<and> (n \<noteq> m \<longrightarrow> view (net t) n = view (net s) m)
         | Some e \<Rightarrow> n \<noteq> m \<longrightarrow> (view (net t) m, view (net t) n) \<in>
             {(view (net s) m, view (net s) n), (view (net s) m, view (net s) m), (None, view (net s) m)})
      \<and> (cache t = cache s \<or> (\<exists>d. view (net s) m = Some d
            \<and> cache t = cache_Add (lru D) n \<lparr>mf_fd = newfd, mf_data = d\<rparr> (cache_Remove (lru D) m (cache s)))))"

context storage_env
begin

lemma wp_rename_local:
  assumes "\<And>h. (\<And>q. q \<notin> {local_path s m, local_path s n} \<Longrightarrow> data_at h q = data_at (disk s) q) \<Longrightarrow> Q () (s\<lparr>disk := h\<rparr>)"
  shows "wp (rename_local fd m n) Q s"
proof -
  let ?P = "{local_path s m, local_path s n}"
  have Q: "Q () (s\<lparr>disk := h\<rparr>)" if "\<forall>q. q \<notin> ?P \<longrightarrow> data_at h q = data_at (disk s) q" for h
    by (rule assms) (use that in simp)
  have none: "Q () s" using Q [of "disk s"] by simp
  show ?thesis
    unfolding rename_local_def
    by (auto simp: wp_simps none local_path_def intro!: wp_ReadFile wp_WriteFile wp_Remove Q
        split: if_splits)
qed

lemma Rename_effect:
  assumes "valid_fd oldfd" and "valid_fd newfd"
  shows "wp (Rename D oldfd newfd) (\<lambda>r t. renamed D view oldfd newfd s r t
     \<and> (closed s \<longrightarrow> r = Some StorageErrClosed \<and> t = s)
     \<and> (\<not> closed s \<and> lockLost s \<longrightarrow> r = Some ErrLockLost \<and> t = s)) s"
proof -
  let ?m = "fdString D oldfd" and ?n = "fdString D newfd"
  let ?K = "{shadow_key s ?m, shadow_key s ?n}"
  have names: "?m \<noteq> shadow_key s x" "?n \<noteq> shadow_key s x" for x using assms shadow_key_not_name by auto
  have tail: "wp (remove_source D ?m) (\<lambda>r. wp (case r of
           Some err \<Rightarrow> ret (Some err)
         | None \<Rightarrow> do { rename_local oldfd ?m ?n; ret None }) (\<lambda>r t. renamed D view oldfd newfd s r t)) t"
    if t: "same_config s t" "\<forall>k. k \<notin> ?K \<longrightarrow> view (net t) k = ((view (net s))(?n := view (net s) ?m)) k"
      "view (net s) ?m \<noteq> None" "cache t = cache s \<or> (\<exists>d. view (net s) ?m = Some d
            \<and> cache t = cache_Add (lru D) ?n \<lparr>mf_fd = newfd, mf_data = d\<rparr> (cache_Remove (lru D) ?m (cache s)))" for t
  proof -
    have v: "view (net t) ?m = view (net s) ?m" "view (net t) ?n = view (net s) ?m"
      using t(2) names by auto
    show ?thesis
    proof (rule wp_remove_source, goal_cases)
      case (1 w)
      then show ?case
        unfolding option.case wp_bind
        by (intro wp_rename_local) (use t v names in \<open>auto simp: wp_return renamed_def Let_def\<close>)
    next
      case (2 e w)
      then show ?case
        using t v names by (auto simp: wp_return renamed_def Let_def)
    qed
  qed
  have body: "wp (rename_cache D oldfd newfd) (\<lambda>_. wp (rename_pending D ?m ?n) (\<lambda>_. wp (remove_source D ?m) (\<lambda>r. wp (case r of
           Some err \<Rightarrow> ret (Some err)
         | None \<Rightarrow> do { rename_local oldfd ?m ?n; ret None }) (\<lambda>r t. renamed D view oldfd newfd s r t)))) (s\<lparr>net := w\<rparr>)"
    if w: "view w = (view (net s))(?n := view (net s) ?m)" "view (net s) ?m \<noteq> None" for w
  proof (rule wp_rename_cache, rule wp_rename_pending_net, rule tail, goal_cases)
    case (1 t u)
    then show ?case by (auto simp: within_def intro: same_config_trans)
  next
    case (2 t u)
    then have "shadow_key t x = shadow_key s x" for x by (simp add: same_config_paths)
    then show ?case using 2 w by (simp add: within_def)
  next
    case (4 t u)
    then show ?case using w by simp
  qed (use w in simp)
  show ?thesis
    unfolding Rename_def
  proof (rule wp_guarded, goal_cases)
    case 3
    show ?case
      unfolding Let_def wp_bind
    proof (rule wp_copy, goal_cases)
      case (1 w)
      then show ?case unfolding option.case wp_bind using 3 by (auto intro!: wp_weaken [OF body])
    next
      case (2 e w)
      then show ?case using 3 names by (auto simp: wp_return renamed_def Let_def)
    qed
  qed (auto simp: renamed_def Let_def)
qed

end

text \<open>A pending copy of the renamed file survives, when the two directories are different.\<close>

lemma clean_paths_differ:
  assumes "clean_dir d" and "clean_dir d'" and "d \<noteq> d'" and "plain_name n" and "plain_name n'"
  shows "filepath_Join [d, n] \<noteq> filepath_Join [d', n']"
proof
  assume "filepath_Join [d, n] = filepath_Join [d', n']"
  then have "filepath_Dir (filepath_Join [d, n]) = filepath_Dir (filepath_Join [d', n'])" by simp
  then show False using assms by (simp add: Join_plain Dir_plain)
qed

context storage_env
begin

lemma Rename_pending_effect:
  assumes "valid_fd oldfd" and "valid_fd newfd" and "oldfd \<noteq> newfd" and "wf_dirs s" and "localDir s \<noteq> pendingDir s"
    and "pendingDir s \<noteq> ''''"
  shows "wp (Rename D oldfd newfd) (\<lambda>r t.
     moved (pending_path s (fdString D oldfd)) (pending_path s (fdString D newfd)) s t) s"
proof -
  let ?m = "fdString D oldfd" and ?n = "fdString D newfd"
  let ?mv = "\<lambda>t. moved (pending_path s ?m) (pending_path s ?n) s t"
  have refl: "?mv t" if "disk t = disk s" for t using that by (simp add: moved_def)
  have net: "?mv (t\<lparr>net := w\<rparr>) = ?mv t" for t w by (simp add: moved_def)
  have loc: "wp (rename_local oldfd ?m ?n) (\<lambda>_ u. ?mv u) t" if t: "same_config s t" "?mv t" for t
  proof (cases "localDir s = ''''")
    case True
    then show ?thesis using t by (simp add: rename_local_def shouldCacheLocally_def same_config_def wp_simps)
  next
    case False
    have "pending_path s x \<noteq> local_path t y" if "x \<in> {?m, ?n}" "y \<in> {?m, ?n}" for x y
      using clean_paths_differ [of "pendingDir s" "localDir s" x y] assms False t name_plain that
      by (auto simp: wf_dirs_def same_config_def pending_path_def local_path_def)
    then show ?thesis using t by (intro wp_rename_local) (auto simp: moved_def)
  qed
  have tail: "wp (remove_source D ?m) (\<lambda>r. wp (case r of
           Some err \<Rightarrow> ret (Some err)
         | None \<Rightarrow> do { rename_local oldfd ?m ?n; ret None }) (\<lambda>_ t. ?mv t)) t"
    if t: "same_config s t" "?mv t" for t
  proof (rule wp_remove_source, goal_cases)
    case (1 w)
    then show ?case unfolding option.case wp_bind wp_fun using t by (intro loc) (simp_all add: net)
  qed (use t net in \<open>simp add: wp_return\<close>)
  show ?thesis
    unfolding Rename_def
  proof (rule wp_guarded, goal_cases)
    case 3
    show ?case
      unfolding Let_def wp_bind
    proof (rule wp_copy, goal_cases)
      case (1 w)
      show ?case
        unfolding option.case wp_bind
      proof (rule wp_rename_cache, goal_cases)
        case (1 t)
        then have t: "same_config s t" "disk t = disk s" by simp_all
        then have p: "pending_path t x = pending_path s x" "pendingDir t = pendingDir s" for x
          by (simp_all add: same_config_def pending_path_def)
        show ?case
          by (rule wp_rename_pending, rule assms, rule assms, rule assms)
            (use assms t p in \<open>auto simp: wf_dirs_def within_def moved_def intro!: tail intro: same_config_trans\<close>)
      qed
    next
      case (2 e w)
      then show ?case by (simp add: wp_return refl)
    qed
  qed (simp_all add: refl)
qed

end

text \<open>
  What \<open>Rename\<close> makes of the cache once the copy has been made: it reads the old object back, and when that
  succeeds the content moves from the old to the new name; otherwise the cache is left as it is.
\<close>

definition rename_read :: "('w, 'c) storage_deps \<Rightarrow> file_desc \<Rightarrow> file_desc \<Rightarrow> 'w \<Rightarrow> error + bytes" where
  "rename_read D oldfd newfd w = fst (api_GetBytes (api D) StorageCtx (fdString D oldfd)
     (snd (api_Copy (api D) StorageCtx (fdString D oldfd) (fdString D newfd) w)))"

text \<open>The answer to the request by which \<open>cleanShadow\<close> removes a shadow object, and the world after it.\<close>

definition shadow_request :: "('w, 'c) storage_deps \<Rightarrow> ('w, 'c) S3Storage \<Rightarrow> string \<Rightarrow> error option \<times> 'w" where
  "shadow_request D s n = (if shadowPrefix s = '''' then (None, net s) else api_Remove (api D) StorageCtx (shadow_key s n) (net s))"

context storage_env
begin

lemma rename_cache_exact:
  "wp (rename_cache D oldfd newfd) (\<lambda>_ t. disk t = disk s \<and> view (net t) = view (net s) \<and> same_config s t
     \<and> (case fst (api_GetBytes (api D) StorageCtx (fdString D oldfd) (net s)) of
          Inl _ \<Rightarrow> cache t = cache s
        | Inr d \<Rightarrow> view (net s) (fdString D oldfd) = Some d
            \<and> cache t = cache_Add (lru D) (fdString D newfd) \<lparr>mf_fd = newfd, mf_data = d\<rparr>
                (cache_Remove (lru D) (fdString D oldfd) (cache s)))) s"
  unfolding rename_cache_def wp_bind
  by (rule wp_on_net_exact, rule wp_get) (auto simp: wp_simps cache_remove_def cache_add_def makeCacheKey_def)

lemma Rename_cache_effect:
  "wp (Rename D oldfd newfd) (\<lambda>r t. r = None \<longrightarrow>
     (case rename_read D oldfd newfd (net s) of
        Inl _ \<Rightarrow> cache t = cache s
      | Inr d \<Rightarrow> view (net s) (fdString D oldfd) = Some d
          \<and> cache t = cache_Add (lru D) (fdString D newfd) \<lparr>mf_fd = newfd, mf_data = d\<rparr>
              (cache_Remove (lru D) (fdString D oldfd) (cache s)))) s"
proof -
  define C where "C c \<longleftrightarrow> (case rename_read D oldfd newfd (net s) of
        Inl _ \<Rightarrow> c = cache s
      | Inr d \<Rightarrow> view (net s) (fdString D oldfd) = Some d
          \<and> c = cache_Add (lru D) (fdString D newfd) \<lparr>mf_fd = newfd, mf_data = d\<rparr>
              (cache_Remove (lru D) (fdString D oldfd) (cache s)))" for c
  let ?m = "fdString D oldfd" and ?n = "fdString D newfd"
  have body: "wp (rename_cache D oldfd newfd) (\<lambda>_. wp (rename_pending D ?m ?n) (\<lambda>_. wp (remove_source D ?m) (\<lambda>r. wp (case r of
           Some err \<Rightarrow> ret (Some err)
         | None \<Rightarrow> do { rename_local oldfd ?m ?n; ret None }) (\<lambda>r t. r = None \<longrightarrow> C (cache t))))) (s\<lparr>net := w\<rparr>)"
    if w: "api_Copy (api D) StorageCtx ?m ?n (net s) = (None, w)" "view w = (view (net s))(?n := view (net s) ?m)" for w
  proof (rule wp_weaken [OF rename_cache_exact], rule wp_rename_pending_net, rule wp_remove_source, goal_cases)
    case (1 x t u w')
    have "C (cache t)" using w 1(1) by (auto simp: C_def rename_read_def split: sum.splits)
    then show ?case unfolding option.case wp_bind using 1 by (intro wp_rename_local) (simp add: wp_return)
  qed (simp add: wp_return)
  have "wp (Rename D oldfd newfd) (\<lambda>r t. r = None \<longrightarrow> C (cache t)) s"
    unfolding Rename_def
  proof (rule wp_guarded, goal_cases)
    case 3
    show ?case
      unfolding Let_def wp_bind
    proof (rule wp_on_net_exact, rule wp_copy, goal_cases)
      case (1 w)
      then show ?case unfolding option.case wp_bind using body [of w] by simp
    qed (simp add: wp_return)
  qed simp_all
  then show ?thesis unfolding C_def .
qed

text \<open>\<open>Remove\<close> request by request and file by file.\<close>

lemma remove_local_gone:
  "wp (remove_local fd n) (\<lambda>_ t. net t = net s \<and> same_config s t \<and> (faults (disk s) = [] \<longrightarrow> faults (disk t) = []
     \<and> (shouldCacheLocally s fd \<longrightarrow> data_at (disk t) (local_path s n) = None))) s"
  unfolding remove_local_def
  by (auto simp: wp_simps local_path_def intro!: wp_Remove_ok)

lemma remove_pending_all:
  fixes s :: "('w, 'c) S3Storage"
  shows "wp (remove_pending n) (\<lambda>_ t. net t = net s \<and> same_config s t \<and> (\<forall>q. data_at (disk s) q = None \<longrightarrow> data_at (disk t) q = None)
     \<and> (pendingDir s \<noteq> '''' \<longrightarrow> faults (disk s) = [] \<longrightarrow> data_at (disk t) (pending_path s n) = None
     \<and> data_at (disk t) (pending_path s n @ ''.cksum'') = None)) s"
proof -
  have "wp (remove_pending n) (\<lambda>r t. (net t = net s \<and> shadowPrefix t = shadowPrefix s \<and> (pendingDir s \<noteq> '''' \<longrightarrow> faults (disk s) = [] \<longrightarrow>
     faults (disk t) = [] \<and> data_at (disk t) (pending_path s n) = None
     \<and> data_at (disk t) (pending_path s n @ ''.cksum'') = None)) \<and> (within view {} (pending_files s n) s t \<and> cache t = cache s \<and> net t = net s
     \<and> (\<forall>q. data_at (disk t) q = data_at (disk s) q \<or> data_at (disk t) q = None))) s"
    using remove_pending_gone [of n s] remove_pending_effect [of n s] by (rule wp_conj [THEN iffD2, OF conjI])
  then show ?thesis by (rule wp_weaken) (simp add: within_def, metis)
qed

lemma cleanShadow_exact:
  "wp (cleanShadow D n) (\<lambda>_ t. disk t = disk s \<and> same_config s t \<and> net t = snd (shadow_request D s n)
     \<and> (shadowPrefix s \<noteq> '''' \<longrightarrow> fst (shadow_request D s n) = None \<longrightarrow> view (net t) (shadow_key s n) = None)) s"
proof (cases "shadowPrefix s = ''''")
  case True
  then show ?thesis by (simp add: cleanShadow_def shadow_request_def wp_simps)
next
  case False
  then show ?thesis
    by (simp add: cleanShadow_def wp_simps shadow_request_def)
      (rule wp_on_net_exact, rule wp_remove, auto simp: shadow_key_def wp_return)
qed

lemma Remove_cleans:
  "wp (Remove D fd) (\<lambda>r t. \<not> closed s \<longrightarrow> \<not> lockLost s \<longrightarrow>
     (let n = fdString D fd; shadow = shadow_request D s n; rm = api_Remove (api D) StorageCtx n (snd shadow)
      in net t = snd rm
       \<and> r = (case fst rm of None \<Rightarrow> None | Some err \<Rightarrow> Some (Wrapf (''failed to remove file '' @ n) err))
       \<and> (shadowPrefix s \<noteq> '''' \<longrightarrow> fst shadow = None \<longrightarrow> valid_fd fd \<longrightarrow> view (net t) (shadow_key s n) = None)
       \<and> (faults (disk s) = [] \<longrightarrow>
            (shouldCacheLocally s fd \<longrightarrow> data_at (disk t) (local_path s n) = None)
          \<and> (pendingDir s \<noteq> '''' \<longrightarrow> data_at (disk t) (pending_path s n) = None
               \<and> data_at (disk t) (pending_path s n @ ''.cksum'') = None)))) s"
proof -
  let ?n = "fdString D fd"
  define P where "P r t \<longleftrightarrow> (let n = fdString D fd; shadow = shadow_request D s n; rm = api_Remove (api D) StorageCtx n (snd shadow)
      in net t = snd rm
       \<and> r = (case fst rm of None \<Rightarrow> None | Some err \<Rightarrow> Some (Wrapf (''failed to remove file '' @ n) err))
       \<and> (shadowPrefix s \<noteq> '''' \<longrightarrow> fst shadow = None \<longrightarrow> valid_fd fd \<longrightarrow> view (net t) (shadow_key s n) = None)
       \<and> (faults (disk s) = [] \<longrightarrow>
            (shouldCacheLocally s fd \<longrightarrow> data_at (disk t) (local_path s n) = None)
          \<and> (pendingDir s \<noteq> '''' \<longrightarrow> data_at (disk t) (pending_path s n) = None
               \<and> data_at (disk t) (pending_path s n @ ''.cksum'') = None)))" for r and t :: "('w, 'c) S3Storage"
  have "wp (Remove D fd) (\<lambda>r t. \<not> closed s \<longrightarrow> \<not> lockLost s \<longrightarrow> P r t) s"
    unfolding Remove_def
  proof (rule wp_guarded, goal_cases)
    case 3
    show ?case
      unfolding Let_def cache_remove_def makeCacheKey_def wp_bind wp_modify
    proof (rule wp_weaken [OF remove_local_gone], rule wp_weaken [OF remove_pending_all], rule wp_weaken [OF cleanShadow_exact], goal_cases)
      case (1 _ a _ b _ c)
      let ?s = "cache_update (cache_Remove (lru D) ?n) s"
      have "same_config ?s a" "same_config a b" using 1(1,2) by blast+
      then have cfg: "same_config s a" "same_config s b" by (simp_all add: same_config_def)
      have paths: "local_path ?s ?n = local_path s ?n" "shouldCacheLocally ?s fd = shouldCacheLocally s fd"
        "pending_path a ?n = pending_path s ?n" "pendingDir a = pendingDir s" "shadow_key b ?n = shadow_key s ?n"
        "shadowPrefix b = shadowPrefix s" "shadow_request D b ?n = shadow_request D s ?n"
        using cfg 1 by (simp_all add: local_path_def shouldCacheLocally_def same_config_def pending_path_def shadow_key_def shadow_request_def)
      have files: "faults (disk s) = [] \<longrightarrow>
            (shouldCacheLocally s fd \<longrightarrow> data_at (disk c) (local_path s ?n) = None)
          \<and> (pendingDir s \<noteq> '''' \<longrightarrow> data_at (disk c) (pending_path s ?n) = None
               \<and> data_at (disk c) (pending_path s ?n @ ''.cksum'') = None)"
        using 1 unfolding paths by simp
      have sh: "net c = snd (shadow_request D s ?n)"
        "shadowPrefix s \<noteq> '''' \<longrightarrow> fst (shadow_request D s ?n) = None \<longrightarrow> view (net c) (shadow_key s ?n) = None"
        using 1(3) unfolding paths by blast+
      show ?case
      proof (rule wp_on_net_exact, rule wp_remove, goal_cases)
        case (1 w)
        then show ?case using files sh shadow_key_not_name [of fd s ?n] by (auto simp: wp_return P_def Let_def)
      next
        case (2 e w)
        then show ?case using files sh shadow_key_not_name [of fd s ?n] by (auto simp: wp_return P_def Let_def)
      qed
    qed
  qed simp_all
  then show ?thesis unfolding P_def .
qed

end

section \<open>Properties\<close>

lemmas rename_exec = files_exec
  remove_local_def [THEN wp_unfold] Remove_def [THEN wp_unfold] rename_cache_def [THEN wp_unfold]
  rename_by_move_def [THEN wp_unfold] rename_pending_def [THEN wp_unfold] remove_source_def [THEN wp_unfold]
  rename_local_def [THEN wp_unfold] Rename_def [THEN wp_unfold]

text \<open>
  C9: \<open>Rename\<close> between two names: nil means that the object moved; after an error nothing has
  happened, or the copy was made, or the object was moved (the answer to the last request got lost).
  Besides the two objects only their shadows change.
\<close>

theorem Rename_outcome:
  assumes "storage_env D view content" and "valid_fd oldfd" and "valid_fd newfd" and "oldfd \<noteq> newfd"
    and "run_state (Rename D oldfd newfd) s = (r, t)"
  shows "(r = None \<longrightarrow> view (net s) (fdString D oldfd) \<noteq> None
        \<and> view (net t) (fdString D newfd) = view (net s) (fdString D oldfd)
        \<and> view (net t) (fdString D oldfd) = None)
    \<and> (r \<noteq> None \<longrightarrow> (view (net t) (fdString D oldfd), view (net t) (fdString D newfd)) \<in>
        {(view (net s) (fdString D oldfd), view (net s) (fdString D newfd)),
         (view (net s) (fdString D oldfd), view (net s) (fdString D oldfd)),
         (None, view (net s) (fdString D oldfd))})
    \<and> (\<forall>k. k \<notin> {fdString D oldfd, fdString D newfd, shadow_key s (fdString D oldfd), shadow_key s (fdString D newfd)}
        \<longrightarrow> view (net t) k = view (net s) k)"
proof -
  have "file_naming (fdString D)" using assms(1) by (simp add: storage_env_def)
  then have "fdString D newfd \<noteq> fdString D oldfd" using file_naming.name_inj assms(2-4) by blast
  moreover have "renamed D view oldfd newfd s r t"
    using storage_env.Rename_effect [OF assms(1-3), THEN wp_run, OF assms(5)] by blast
  ultimately show ?thesis by (cases r) (auto simp: renamed_def Let_def)
qed

theorem Rename_outcome_witness:
  "\<exists>t. run_state (Rename demo_deps (FileDesc TypeTable 1) (FileDesc TypeTable 3)) (demo_storage [(''000001.ldb'', ''x'')] [] []) = (None, t)
     \<and> sim_objs (net t) ''000003.ldb'' = Some ''x'' \<and> sim_objs (net t) ''000001.ldb'' = None"
proof -
  let ?s = "demo_storage [(''000001.ldb'', ''x'')] [] []"
  have "wp (Rename demo_deps (FileDesc TypeTable 1) (FileDesc TypeTable 3)) (\<lambda>r t. r = None) ?s"
    by (simp add: demo_storage_def rename_exec demo_option_def lru_list_ops_def wp_exec mem_eval host_eval path_eval
        demo_fd del: leveldb_String.simps cong: wp_state_cong)
  then obtain t where t: "run_state (Rename demo_deps (FileDesc TypeTable 1) (FileDesc TypeTable 3)) ?s = (None, t)"
    by (rule wp_obtain)
  have ne: "FileDesc TypeTable 1 \<noteq> FileDesc TypeTable 3" by simp
  have "sim_objs (net ?s) ''000001.ldb'' = Some ''x''" by (simp add: demo_storage_def sim_objs_def)
  with Rename_outcome [OF demo_env demo_fd(1,3) ne t] t show ?thesis
    by (simp add: demo_fd del: leveldb_String.simps)
qed

text \<open>
  \<open>Rename\<close> of a file to its own name, which other storages treat as a no-op, deletes the object and
  returns nil.
\<close>

theorem Rename_to_itself_deletes:
  assumes "storage_env D view content" and "valid_fd fd" and "run_state (Rename D fd fd) s = (None, t)"
  shows "view (net s) (fdString D fd) \<noteq> None \<and> view (net t) (fdString D fd) = None"
proof -
  have "renamed D view fd fd s None t"
    using storage_env.Rename_effect [OF assms(1,2,2), THEN wp_run, OF assms(3)] by blast
  then show ?thesis by (simp add: renamed_def Let_def)
qed

theorem Rename_to_itself_deletes_witness:
  "\<exists>t. run_state (Rename demo_deps (FileDesc TypeTable 1) (FileDesc TypeTable 1)) (demo_storage [(''000001.ldb'', ''x'')] [] []) = (None, t)
     \<and> sim_objs (net t) ''000001.ldb'' = None"
proof -
  let ?s = "demo_storage [(''000001.ldb'', ''x'')] [] []"
  have "wp (Rename demo_deps (FileDesc TypeTable 1) (FileDesc TypeTable 1)) (\<lambda>r t. r = None) ?s"
    by (simp add: demo_storage_def rename_exec demo_option_def lru_list_ops_def wp_exec mem_eval host_eval path_eval
        demo_fd del: leveldb_String.simps cong: wp_state_cong)
  then obtain t where t: "run_state (Rename demo_deps (FileDesc TypeTable 1) (FileDesc TypeTable 1)) ?s = (None, t)"
    by (rule wp_obtain)
  from Rename_to_itself_deletes [OF demo_env demo_fd(1) t] t show ?thesis
    by (auto simp: demo_fd simp del: leveldb_String.simps)
qed

text \<open>
  C13: A file that waits in the pending directory is not lost by \<open>Rename\<close>, whatever system calls and
  requests fail: afterwards its data is there under the old or under the new name.
\<close>

theorem Rename_keeps_pending:
  assumes "storage_env D view content" and "valid_fd oldfd" and "valid_fd newfd" and "oldfd \<noteq> newfd"
    and "wf_dirs s" and "localDir s \<noteq> pendingDir s" and "pendingDir s \<noteq> ''''"
    and "run_state (Rename D oldfd newfd) s = (r, t)"
    and "data_at (disk s) (pending_path s (fdString D oldfd)) = Some data"
  shows "data_at (disk t) (pending_path s (fdString D oldfd)) = Some data
    \<or> data_at (disk t) (pending_path s (fdString D newfd)) = Some data"
  using storage_env.Rename_pending_effect [OF assms(1-7), THEN wp_run, OF assms(8)] assms(9)
  by (simp add: moved_def)

text \<open>
  Once the lock is lost, nothing is written to the bucket any more: the operations that write
  return an error and leave the whole storage as it is, and \<open>Sync\<close> and \<open>Close\<close> of a writer return an
  error and leave the objects and the cache as they are.
\<close>

theorem lost_lock_fences_writes:
  assumes "lockLost s"
  shows "run_state (SetMeta D fd) s = (Some (if closed s then StorageErrClosed else ErrLockLost), s)
    \<and> run_state (Create D fd) s = (Inl (if closed s then StorageErrClosed else ErrLockLost), s)
    \<and> run_state (Remove D fd) s = (Some (if closed s then StorageErrClosed else ErrLockLost), s)
    \<and> run_state (Rename D fd fd') s = (Some (if closed s then StorageErrClosed else ErrLockLost), s)
    \<and> (\<exists>e. run_state (uploadFile D fd data) s = (Some e, s))
    \<and> (mw_syncFn w \<noteq> None \<longrightarrow> (\<exists>e t. run_state (memWriter_Sync D w) s = (Some e, t) \<and> net t = net s \<and> cache t = cache s))
    \<and> (mw_syncFn w \<noteq> None \<longrightarrow> (\<exists>e w' t. run_state (memWriter_Close D w) s = ((Some e, w'), t) \<and> net t = net s \<and> cache t = cache s))"
proof (intro conjI impI)
  have g: "run_state (guarded err body) s = (err (if closed s then StorageErrClosed else ErrLockLost), s)"
    for err and body :: "(_, 'r) state"
    using assms by (cases "closed s") (simp_all add: guarded_closed guarded_lost)
  show "run_state (SetMeta D fd) s = (Some (if closed s then StorageErrClosed else ErrLockLost), s)"
    unfolding SetMeta_def by (rule g)
  show "run_state (Create D fd) s = (Inl (if closed s then StorageErrClosed else ErrLockLost), s)"
    unfolding Create_def by (rule g)
  show "run_state (Remove D fd) s = (Some (if closed s then StorageErrClosed else ErrLockLost), s)"
    unfolding Remove_def by (rule g)
  show "run_state (Rename D fd fd') s = (Some (if closed s then StorageErrClosed else ErrLockLost), s)"
    unfolding Rename_def by (rule g)
  have up: "wp (uploadFile D fd data) (\<lambda>r t. r \<noteq> None \<and> t = u) u" if "lockLost u" for u fd data
    using that unfolding uploadFile_def by (simp add: wp_simps Let_def)
  show "\<exists>e. run_state (uploadFile D fd data) s = (Some e, s)"
    using up [OF assms] by (auto simp: wp_def split: prod.splits)
  assume w: "mw_syncFn w \<noteq> None"
  then obtain f where f: "mw_syncFn w = Some f" by blast
  have sync: "wp (run_syncFn D w) (\<lambda>r t. r \<noteq> None \<and> net t = net s \<and> cache t = cache s) s"
    unfolding run_syncFn_def f option.case
    using assms by (cases f) (auto simp: wp_simps intro!: wp_on_disk_any wp_weaken [OF up] split: sum.split)
  show "\<exists>e t. run_state (memWriter_Sync D w) s = (Some e, t) \<and> net t = net s \<and> cache t = cache s"
    using sync unfolding memWriter_Sync_def by (auto simp: wp_def split: prod.splits)
  show "\<exists>e w' t. run_state (memWriter_Close D w) s = ((Some e, w'), t) \<and> net t = net s \<and> cache t = cache s"
    using sync unfolding memWriter_Close_def by (auto simp: wp_def split: prod.splits)
qed

theorem lost_lock_fences_writes_witness:
  "\<exists>e. run_state (uploadFile demo_deps (FileDesc TypeTable 1) ''abc'') ((demo_storage [] [] [])\<lparr>lockLost := True\<rparr>)
     = (Some e, (demo_storage [] [] [])\<lparr>lockLost := True\<rparr>)"
proof -
  have "lockLost ((demo_storage [] [] [])\<lparr>lockLost := True\<rparr>)" by simp
  from lost_lock_fences_writes [OF this, of demo_deps "FileDesc TypeTable 1" _ "''abc''"] show ?thesis by blast
qed

theorem Rename_keeps_pending_witness:
  "\<exists>r t. run_state (Rename demo_deps (FileDesc TypeTable 1) (FileDesc TypeTable 3))
       (demo_storage [(''000001.ldb'', ''x'')] [] [(''/c/db/pending_uploads/000001.ldb'', File ''z'')]) = (r, t)
     \<and> (data_at (disk t) ''/c/db/pending_uploads/000001.ldb'' = Some ''z''
        \<or> data_at (disk t) ''/c/db/pending_uploads/000003.ldb'' = Some ''z'')"
proof -
  let ?s = "demo_storage [(''000001.ldb'', ''x'')] [] [(''/c/db/pending_uploads/000001.ldb'', File ''z'')]"
  obtain r t where t: "run_state (Rename demo_deps (FileDesc TypeTable 1) (FileDesc TypeTable 3)) ?s = (r, t)" by force
  have p: "pending_path ?s (fdString demo_deps (FileDesc TypeTable 1)) = ''/c/db/pending_uploads/000001.ldb''"
    "pending_path ?s (fdString demo_deps (FileDesc TypeTable 3)) = ''/c/db/pending_uploads/000003.ldb''"
    unfolding demo_deps_simps demo_fd by (simp_all add: pending_path_def path_eval)
  have d: "data_at (disk ?s) ''/c/db/pending_uploads/000001.ldb'' = Some ''z''"
    by (simp add: demo_storage_def data_at_def node_at_def)
  have wf: "wf_dirs ?s" and ne: "localDir ?s \<noteq> pendingDir ?s" "pendingDir ?s \<noteq> ''''" "FileDesc TypeTable 1 \<noteq> FileDesc TypeTable 3"
    by (simp_all add: wf_dirs_def)
  from Rename_keeps_pending [OF demo_env demo_fd(1,3) ne(3) wf ne(1,2) t, unfolded p, OF d] t show ?thesis by auto
qed

text \<open>
  C23: \<open>Remove\<close> that returns nil has deleted the object; an error leaves it or has deleted it. In both
  cases the file is out of the cache, and on a disk without faults the local copy (of a file that is kept locally), the pending copy
  and its checksum are gone, so that \<open>List\<close> does not find the name in the pending directory any more. The shadow copy is gone when the request for it, the first of the
  two, succeeded. The result is that of the second request. Nothing else changes.
\<close>

theorem Remove_outcome:
  assumes "storage_env D view content" and "valid_fd fd" and "run_state (Remove D fd) s = (r, t)"
    and "\<not> closed s" and "\<not> lockLost s"
  shows "let n = fdString D fd; shadow = shadow_request D s n; rm = api_Remove (api D) StorageCtx n (snd shadow) in
      r = (case fst rm of None \<Rightarrow> None | Some err \<Rightarrow> Some (Wrapf (''failed to remove file '' @ n) err)) \<and> net t = snd rm
    \<and> view (net t) n \<in> {view (net s) n, None}
    \<and> (r = None \<longrightarrow> view (net t) n = None)
    \<and> content (cache t) n = None
    \<and> (shadowPrefix s \<noteq> '''' \<longrightarrow> fst shadow = None \<longrightarrow> view (net t) (shadow_key s n) = None)
    \<and> (faults (disk s) = [] \<longrightarrow>
         (shouldCacheLocally s fd \<longrightarrow> data_at (disk t) (filepath_Join [localDir s, n]) = None)
       \<and> (pendingDir s \<noteq> '''' \<longrightarrow> data_at (disk t) (pending_path s n) = None
            \<and> data_at (disk t) (pending_path s n @ ''.cksum'') = None))
    \<and> (\<forall>k. k \<notin> {n, shadow_key s n} \<longrightarrow> view (net t) k = view (net s) k)
    \<and> (\<forall>q. q \<notin> insert (filepath_Join [localDir s, n]) (pending_files s n) \<longrightarrow> data_at (disk t) q = data_at (disk s) q)"
proof -
  have rm: "content (cache_Remove (lru D) k c) k = None" for k c
    using assms(1) by (simp add: storage_env_def lru_cache.remove_content)
  note cleans = storage_env.Remove_cleans [OF assms(1), THEN wp_run, OF assms(3), rule_format, OF assms(4,5)]
  note eff = storage_env.Remove_effect [OF assms(1,2), THEN wp_run, OF assms(3)]
  from eff assms(4,5) have "content (cache t) (fdString D fd) = None" by (simp add: rm)
  with cleans eff assms(2,4,5) show ?thesis
    unfolding Let_def within_def local_path_def by (elim conjE) (intro conjI, simp_all)
qed

theorem Remove_outcome_witness:
  "\<exists>t. run_state (Remove demo_deps (FileDesc TypeJournal 2)) (demo_storage [(''000002.log'', ''x''), (''sh/000002.log'', ''y'')] []
       [(''/c/db/000002.log'', File ''z''), (''/c/db/pending_uploads/000002.log'', File ''z'')]) = (None, t)
     \<and> sim_objs (net t) ''000002.log'' = None \<and> data_at (disk t) ''/c/db/000002.log'' = None
     \<and> data_at (disk t) ''/c/db/pending_uploads/000002.log'' = None"
proof -
  let ?s = "demo_storage [(''000002.log'', ''x''), (''sh/000002.log'', ''y'')] []
       [(''/c/db/000002.log'', File ''z''), (''/c/db/pending_uploads/000002.log'', File ''z'')]"
  have "wp (Remove demo_deps (FileDesc TypeJournal 2)) (\<lambda>r t. r = None) ?s"
    by (simp add: demo_storage_def rename_exec demo_option_def lru_list_ops_def wp_exec mem_eval host_eval path_eval
        demo_fd AList.delete_eq del: leveldb_String.simps cong: wp_state_cong)
  then obtain t where t: "run_state (Remove demo_deps (FileDesc TypeJournal 2)) ?s = (None, t)"
    by (rule wp_obtain)
  have open': "\<not> closed ?s" "\<not> lockLost ?s" by simp_all
  have p: "filepath_Join [localDir ?s, ''000002.log''] = ''/c/db/000002.log''"
    "pending_path ?s ''000002.log'' = ''/c/db/pending_uploads/000002.log''"
    by (simp_all add: pending_path_def path_eval)
  have f: "faults (disk ?s) = []" "shouldCacheLocally ?s (FileDesc TypeJournal 2)" "pendingDir ?s \<noteq> ''''"
    by (simp_all add: demo_storage_def shouldCacheLocally_def)
  from Remove_outcome [OF demo_env demo_fd(5) t open'] f show ?thesis
    unfolding Let_def demo_deps_simps demo_fd p t by (intro exI [of _ t]) blast
qed

text \<open>
  C99: A \<open>Rename\<close> whose read of the renamed object fails returns nil all the same, and leaves the cache as it was: the
  object of the old name is gone, but \<open>Open\<close> of the old name still returns the cached content, and \<open>Open\<close> of the new
  name what had been cached for it before, whatever was moved there.
\<close>

theorem Rename_stale_cache:
  assumes "storage_env D view content" and "valid_fd oldfd" and "valid_fd newfd" and "oldfd \<noteq> newfd"
    and "run_state (Rename D oldfd newfd) s = (None, t)" and "rename_read D oldfd newfd (net s) = Inl e"
    and "content (cache s) (fdString D oldfd) = Some f"
  shows "view (net t) (fdString D oldfd) = None
    \<and> fst (run_state (Open D oldfd) t) = Inr \<lparr>rd_data = mf_data f, rd_closed = False\<rparr>
    \<and> (\<forall>g. content (cache s) (fdString D newfd) = Some g \<longrightarrow>
         fst (run_state (Open D newfd) t) = Inr \<lparr>rd_data = mf_data g, rd_closed = False\<rparr>)"
proof -
  have "renamed D view oldfd newfd s None t" and open_s: "\<not> closed s"
    using storage_env.Rename_effect [OF assms(1-3), THEN wp_run, OF assms(5)] by auto
  then have "view (net t) (fdString D oldfd) = None" and "\<not> closed t"
    by (simp_all add: renamed_def same_config_def Let_def)
  moreover have "cache t = cache s"
    using storage_env.Rename_cache_effect [OF assms(1), THEN wp_run, OF assms(5)] assms(6) by simp
  ultimately show ?thesis
    using storage_env.Open_cached [OF assms(1), of t] assms(7) by auto
qed

theorem Rename_stale_cache_witness:
  "\<exists>s t. run_state (Rename demo_deps (FileDesc TypeTable 1) (FileDesc TypeTable 3)) s = (None, t)
     \<and> sim_objs (net t) ''000001.ldb'' = None
     \<and> fst (run_state (Open demo_deps (FileDesc TypeTable 1)) t) = Inr \<lparr>rd_data = ''x'', rd_closed = False\<rparr>"
proof -
  let ?s = "(demo_storage [(''000001.ldb'', ''x'')] [Answered, Rejected] [])
    \<lparr>cache := cache_Add lru_list_ops ''000001.ldb'' \<lparr>mf_fd = FileDesc TypeTable 1, mf_data = ''x''\<rparr> (2, [])\<rparr>"
  let ?a = "FileDesc TypeTable 1" and ?b = "FileDesc TypeTable 3"
  have "wp (Rename demo_deps ?a ?b) (\<lambda>r t. r = None) ?s"
    by (simp add: demo_storage_def rename_exec demo_option_def lru_list_ops_def wp_exec mem_eval host_eval path_eval
        demo_fd del: leveldb_String.simps cong: wp_state_cong)
  then obtain t where t: "run_state (Rename demo_deps ?a ?b) ?s = (None, t)" by (rule wp_obtain)
  have "isl (rename_read demo_deps ?a ?b (net ?s))"
    by (simp add: rename_read_def demo_storage_def mem_eval demo_fd del: leveldb_String.simps)
  then obtain e where e: "rename_read demo_deps ?a ?b (net ?s) = Inl e" by (auto simp: isl_def)
  have c: "lru_list_content (cache ?s) (fdString demo_deps ?a) = Some \<lparr>mf_fd = ?a, mf_data = ''x''\<rparr>"
    using lru_list.add_same by (simp add: demo_fd del: leveldb_String.simps)
  have "?a \<noteq> ?b" by simp
  from Rename_stale_cache [OF demo_env demo_fd(1,3) this t e c] t show ?thesis
    unfolding demo_deps_simps demo_fd by auto
qed

end
