(* ===== verification/Orphan_Cleanup.thy ===== *)
theory Orphan_Cleanup
  imports Storage_Rename
begin

text \<open>
  The repair of an interrupted session (\<^verbatim>\<open>s3/storage.go\<close>): \<open>cleanupOrphaned\<close> checks that \<^verbatim>\<open>CURRENT\<close> names
  a manifest that exists, rebuilds it from the local cache or the pending directory, and removes
  everything when it cannot.
\<close>

section \<open>The latest manifest of a directory\<close>

text \<open>The highest number so far and the name it was found under; \<^verbatim>\<open>Sscanf\<close> ignores what follows the number.\<close>

fun newer_manifest :: "int \<times> string \<Rightarrow> string \<times> bool \<Rightarrow> int \<times> string" where
  "newer_manifest (bestNum, bestName) (name, _) =
     (case parse_manifest name of
        Some num \<Rightarrow> (if bestNum < num then (num, name) else (bestNum, bestName))
      | None \<Rightarrow> (bestNum, bestName))"

definition latest_manifest :: "(string \<times> bool) list \<Rightarrow> int \<times> string" where
  "latest_manifest entries = foldl newer_manifest (0, '''') entries"

definition findLatestLocalManifest :: "(('w, 'c) S3Storage, error + file_desc \<times> bytes) state" where
  "findLatestLocalManifest = do {
     dir \<leftarrow> gets localDir;
     r \<leftarrow> on_disk (os_ReadDir dir);
     case r of
       Inl err \<Rightarrow> ret (Inl err)
     | Inr entries \<Rightarrow>
         (case latest_manifest (filter (\<lambda>e. \<not> snd e) entries) of (bestNum, bestName) \<Rightarrow>
            if bestName = '''' then ret (Inl (NewError ''no MANIFEST file found in local cache''))
            else do {
              f \<leftarrow> on_disk (os_ReadFile (filepath_Join [dir, bestName]));
              ret (case f of Inl err \<Rightarrow> Inl err | Inr data \<Rightarrow> Inr (FileDesc TypeManifest bestNum, data)) }) }"

definition findLatestPendingManifest :: "(('w, 'c) S3Storage, error + file_desc \<times> bytes) state" where
  "findLatestPendingManifest = do {
     dir \<leftarrow> gets pendingDir;
     if dir = '''' then ret (Inl OsErrNotExist) else do {
       r \<leftarrow> on_disk (os_ReadDir dir);
       case r of
         Inl err \<Rightarrow> ret (Inl err)
       | Inr entries \<Rightarrow>
           (case latest_manifest (filter is_data_entry entries) of (bestNum, bestName) \<Rightarrow>
              if bestName = '''' then ret (Inl (NewError ''no MANIFEST file found in pending dir''))
              else do {
                f \<leftarrow> on_disk (os_ReadFile (filepath_Join [dir, bestName]));
                ret (case f of Inl err \<Rightarrow> Inl err | Inr data \<Rightarrow> Inr (FileDesc TypeManifest bestNum, data)) }) } }"

section \<open>The last resort\<close>

definition purge_local :: "(('w, 'c) S3Storage, unit) state" where
  "purge_local = do {
     dir \<leftarrow> gets localDir;
     if dir = '''' then ret () else do {
       on_disk (os_RemoveAll dir);
       on_disk (os_MkdirAll dir);
       ret () } }"

definition removeAllOrphaned :: "('w, 'c) storage_deps \<Rightarrow> (('w, 'c) S3Storage, error option) state" where
  "removeAllOrphaned D = do {
     lost \<leftarrow> gets lockLost;
     if lost then ret (Some ErrLockLost) else do {
       modify (cache_update (cache_Purge (lru D)));
       purge_local;
       r \<leftarrow> on_net (api_List (api D) StorageCtx);
       case r of
         Inl err \<Rightarrow> ret (Some (Wrapf ''failed to list files during cleanup'' err))
       | Inr allFiles \<Rightarrow> do {
           for_each allFiles (\<lambda>fd. do {
             on_net (api_Remove (api D) StorageCtx (fdString D fd));
             ret () });
           on_net (api_Remove (api D) StorageCtx ''CURRENT'');
           ret None } } }"

section \<open>CURRENT exists\<close>

text \<open>
  The two places a missing manifest is restored from; \<open>True\<close> means that it was uploaded. An upload
  from the pending directory is followed by the removal of the pending copy.
\<close>

definition restore_from_local :: "('w, 'c) storage_deps \<Rightarrow> file_desc \<Rightarrow> (('w, 'c) S3Storage, bool) state" where
  "restore_from_local D fd = do {
     dir \<leftarrow> gets localDir;
     if dir = '''' then ret False else do {
       r \<leftarrow> on_disk (os_ReadFile (filepath_Join [dir, fdString D fd]));
       case r of
         Inl _ \<Rightarrow> ret False
       | Inr data \<Rightarrow>
           (if data = [] then ret False
            else do {
              e \<leftarrow> on_net (api_PutBytes (api D) StorageCtx (fdString D fd) data);
              ret (e = None) }) } }"

definition restore_from_pending :: "('w, 'c) storage_deps \<Rightarrow> file_desc \<Rightarrow> (('w, 'c) S3Storage, bool) state" where
  "restore_from_pending D fd = do {
     dir \<leftarrow> gets pendingDir;
     if dir = '''' then ret False else do {
       r \<leftarrow> on_disk (os_ReadFile (filepath_Join [dir, fdString D fd]));
       case r of
         Inl _ \<Rightarrow> ret False
       | Inr data \<Rightarrow>
           (if data = [] then ret False
            else do {
              e \<leftarrow> on_net (api_PutBytes (api D) StorageCtx (fdString D fd) data);
              case e of
                Some _ \<Rightarrow> ret False
              | None \<Rightarrow> do { remove_pending (fdString D fd); ret True } }) } }"

definition verifyCurrentManifest :: "('w, 'c) storage_deps \<Rightarrow> (('w, 'c) S3Storage, error option) state" where
  "verifyCurrentManifest D = do {
     r \<leftarrow> on_net (api_GetBytes (api D) StorageCtx ''CURRENT'');
     case r of
       Inl err \<Rightarrow> ret (Some (Wrapf ''failed to read CURRENT'' err))
     | Inr data \<Rightarrow>
         (case parseFileDesc (TrimSpace data) of
            None \<Rightarrow> removeAllOrphaned D
          | Some fd \<Rightarrow> do {
              x \<leftarrow> on_net (api_Exists (api D) StorageCtx (fdString D fd));
              case x of
                Inl err \<Rightarrow> ret (Some (Wrapf (''failed to check manifest '' @ fdString D fd) err))
              | Inr manifestExists \<Rightarrow>
                  (if manifestExists then ret None
                   else do {
                     a \<leftarrow> restore_from_local D fd;
                     if a then ret None else do {
                       b \<leftarrow> restore_from_pending D fd;
                       if b then ret None else removeAllOrphaned D } }) }) }"

section \<open>CURRENT is missing\<close>

text \<open>Upload a manifest and a \<^verbatim>\<open>CURRENT\<close> that names it: \<open>Inl\<close> is the result of the clean-up after a failure.\<close>

definition publish_manifest ::
  "('w, 'c) storage_deps \<Rightarrow> file_desc \<Rightarrow> bytes \<Rightarrow> (('w, 'c) S3Storage, error option + unit) state"
where
  "publish_manifest D fd data = do {
     e1 \<leftarrow> on_net (api_PutBytes (api D) StorageCtx (fdString D fd) data);
     case e1 of
       Some _ \<Rightarrow> do { r \<leftarrow> removeAllOrphaned D; ret (Inl r) }
     | None \<Rightarrow> do {
         e2 \<leftarrow> on_net (api_PutBytes (api D) StorageCtx ''CURRENT'' (fdString D fd @ [CHR 0x0A]));
         case e2 of
           Some _ \<Rightarrow> do { r \<leftarrow> removeAllOrphaned D; ret (Inl r) }
         | None \<Rightarrow> ret (Inr ()) } }"

text \<open>The two attempts; \<open>None\<close> means that the directory has no manifest to offer.\<close>

definition rebuild_from_local :: "('w, 'c) storage_deps \<Rightarrow> (('w, 'c) S3Storage, error option option) state" where
  "rebuild_from_local D = do {
     dir \<leftarrow> gets localDir;
     if dir = '''' then ret None else do {
       m \<leftarrow> findLatestLocalManifest;
       case m of
         Inl _ \<Rightarrow> ret None
       | Inr (fd, data) \<Rightarrow>
           (if data = [] then ret None
            else do {
              r \<leftarrow> publish_manifest D fd data;
              ret (Some (case r of Inl e \<Rightarrow> e | Inr _ \<Rightarrow> None)) }) } }"

definition rebuild_from_pending :: "('w, 'c) storage_deps \<Rightarrow> (('w, 'c) S3Storage, error option option) state" where
  "rebuild_from_pending D = do {
     dir \<leftarrow> gets pendingDir;
     if dir = '''' then ret None else do {
       m \<leftarrow> findLatestPendingManifest;
       case m of
         Inl _ \<Rightarrow> ret None
       | Inr (fd, data) \<Rightarrow>
           (if data = [] then ret None
            else do {
              r \<leftarrow> publish_manifest D fd data;
              case r of
                Inl e \<Rightarrow> ret (Some e)
              | Inr _ \<Rightarrow> do { remove_pending (fdString D fd); ret (Some None) } }) } }"

definition recoverFromLocalCache :: "('w, 'c) storage_deps \<Rightarrow> (('w, 'c) S3Storage, error option) state" where
  "recoverFromLocalCache D = do {
     l \<leftarrow> on_net (api_List (api D) StorageCtx);
     dir \<leftarrow> gets localDir;
     case l of
       Inl err \<Rightarrow> ret (Some (Wrapf ''failed to list files'' err))
     | Inr allFiles \<Rightarrow>
         (if allFiles = [] \<and> dir = '''' then ret None
          else do {
            a \<leftarrow> rebuild_from_local D;
            case a of
              Some r \<Rightarrow> ret r
            | None \<Rightarrow> do {
                b \<leftarrow> rebuild_from_pending D;
                case b of
                  Some r \<Rightarrow> ret r
                | None \<Rightarrow> (if allFiles \<noteq> [] then removeAllOrphaned D else ret None) } }) }"

definition cleanupOrphaned :: "('w, 'c) storage_deps \<Rightarrow> (('w, 'c) S3Storage, error option) state" where
  "cleanupOrphaned D = do {
     x \<leftarrow> on_net (api_Exists (api D) StorageCtx ''CURRENT'');
     case x of
       Inl err \<Rightarrow> ret (Some (Wrapf ''failed to check CURRENT'' err))
     | Inr currentExists \<Rightarrow> (if currentExists then verifyCurrentManifest D else recoverFromLocalCache D) }"

section \<open>What the search finds\<close>

text \<open>The chosen manifest has the highest number; a manifest without a positive number is not seen.\<close>

lemma newer_manifest_best:
  assumes "foldl newer_manifest (a, m) es = (b, n)"
  shows "a \<le> b \<and> (b = a \<and> n = m \<or> a < b \<and> parse_manifest n = Some b \<and> n \<in> fst ` set es)
    \<and> (\<forall>x \<in> set es. \<forall>k. parse_manifest (fst x) = Some k \<longrightarrow> k \<le> b)"
  using assms
proof (induction es arbitrary: a m)
  case (Cons x es)
  obtain n' d where x: "x = (n', d)" by force
  show ?case
  proof (cases "\<exists>k. parse_manifest n' = Some k \<and> a < k")
    case True
    then obtain k where k: "parse_manifest n' = Some k" "a < k" by blast
    with Cons.prems x have "foldl newer_manifest (k, n') es = (b, n)" by simp
    from Cons.IH [OF this] show ?thesis using k x by auto
  next
    case False
    with Cons.prems x have "foldl newer_manifest (a, m) es = (b, n)" by (auto split: option.splits)
    from Cons.IH [OF this] show ?thesis using False x by force
  qed
qed simp

lemma latest_manifest_best:
  assumes "latest_manifest es = (b, n)" and "n \<noteq> ''''"
  shows "0 < b" and "parse_manifest n = Some b" and "n \<in> fst ` set es"
    and "x \<in> set es \<Longrightarrow> parse_manifest (fst x) = Some k \<Longrightarrow> k \<le> b"
  using newer_manifest_best [of 0 "''''" es b n] assms by (auto simp: latest_manifest_def)

lemma parse_manifest_range: "parse_manifest n = Some b \<Longrightarrow> - (2 ^ 63) \<le> b \<and> b < 2 ^ 63"
  by (auto simp: parse_manifest_def scan_d_def Let_def split: option.splits prod.splits if_splits)

definition found_manifest ::
  "('w, 'c) S3Storage \<Rightarrow> string \<Rightarrow> error + file_desc \<times> bytes \<Rightarrow> ('w, 'c) S3Storage \<Rightarrow> bool"
where
  "found_manifest s dir r t = (disk_only s t \<and> data_at (disk t) = data_at (disk s)
     \<and> (\<forall>fd d. r = Inr (fd, d) \<longrightarrow> fd_Type fd = TypeManifest \<and> 0 < fd_Num fd \<and> fd_Num fd < 2 ^ 63
         \<and> (\<exists>n. parse_manifest n = Some (fd_Num fd) \<and> data_at (disk s) (filepath_Join [dir, n]) = Some d)
         \<and> (\<forall>m k. m \<noteq> [] \<and> CHR ''/'' \<notin> set m \<and> \<not> HasSuffix m ''.cksum'' \<and> data_at (disk s) (dir_prefix dir @ m) \<noteq> None
              \<and> parse_manifest m = Some k \<longrightarrow> k \<le> fd_Num fd)))"

lemma found_manifestI:
  assumes l: "latest_manifest (filter P es) = (b, n)" "n \<noteq> ''''" and "data_at (disk s) (filepath_Join [dir, n]) = Some d"
    and P: "\<And>m. \<not> HasSuffix m ''.cksum'' \<Longrightarrow> P (m, False)"
    and e: "\<And>n. (n, False) \<in> set es \<longleftrightarrow> n \<noteq> [] \<and> CHR ''/'' \<notin> set n \<and> data_at (disk s) (dir_prefix dir @ n) \<noteq> None"
    and t: "disk_only s t" "data_at (disk t) = data_at (disk s)"
  shows "found_manifest s dir (Inr (FileDesc TypeManifest b, d)) t"
proof -
  note best = latest_manifest_best [OF l]
  have "k \<le> b" if "m \<noteq> [] \<and> CHR ''/'' \<notin> set m \<and> \<not> HasSuffix m ''.cksum'' \<and> data_at (disk s) (dir_prefix dir @ m) \<noteq> None"
    "parse_manifest m = Some k" for m k
  proof -
    have "(m, False) \<in> set (filter P es)" using that e P by simp
    then show ?thesis using best(4) that(2) by fastforce
  qed
  then show ?thesis using best(1,2) parse_manifest_range [OF best(2)] assms(3) t by (auto simp: found_manifest_def)
qed

lemma found_nothing: "disk_only s t \<Longrightarrow> data_at (disk t) = data_at (disk s) \<Longrightarrow> found_manifest s dir (Inl e) t"
  by (simp add: found_manifest_def)

lemma wp_read_latest:
  assumes P: "\<And>m. \<not> HasSuffix m ''.cksum'' \<Longrightarrow> P (m, False)"
  shows "wp (do { r \<leftarrow> on_disk (os_ReadDir dir);
     case r of
       Inl err \<Rightarrow> ret (Inl err)
     | Inr entries \<Rightarrow>
         (case latest_manifest (filter P entries) of (bestNum, bestName) \<Rightarrow>
            if bestName = '''' then ret (Inl x)
            else do {
              f \<leftarrow> on_disk (os_ReadFile (filepath_Join [dir, bestName]));
              ret (case f of Inl err \<Rightarrow> Inl err | Inr data \<Rightarrow> Inr (FileDesc TypeManifest bestNum, data)) }) })
    (found_manifest s dir) s"
  unfolding wp_bind
proof (rule wp_ReadDir, goal_cases)
  case (1 es h)
  obtain b n where l: "latest_manifest (filter P es) = (b, n)" by force
  show ?case
  proof (cases "n = ''''")
    case True
    then show ?thesis using 1(1) l by (simp add: wp_return found_nothing)
  next
    case False
    have e: "(m, False) \<in> set es \<longleftrightarrow> m \<noteq> [] \<and> CHR ''/'' \<notin> set m \<and> data_at (disk s) (dir_prefix dir @ m) \<noteq> None" for m
      using 1(4) by simp
    show ?thesis
      unfolding sum.case l prod.case wp_if wp_bind if_not_P [OF False]
    proof (rule wp_ReadFile, goal_cases)
      case (1 d h')
      with \<open>data_at h = _\<close> have "data_at (disk s) (filepath_Join [dir, n]) = Some d" by simp
      from found_manifestI [OF l False this P e] show ?case using 1 \<open>data_at h = _\<close> by (simp add: wp_return)
    next
      case (2 e h')
      then show ?case using \<open>data_at h = _\<close> by (simp add: wp_return found_nothing)
    qed
  qed
next
  case (2 e h)
  then show ?case by (simp add: wp_return found_nothing)
qed

lemma findLatestLocalManifest_effect: "wp findLatestLocalManifest (found_manifest s (localDir s)) s"
  using wp_read_latest [of "\<lambda>e. \<not> snd e" "localDir s" _ s]
  by (simp add: findLatestLocalManifest_def wp_bind [of "gets _"] wp_gets)

lemma findLatestPendingManifest_effect: "wp findLatestPendingManifest (found_manifest s (pendingDir s)) s"
  using wp_read_latest [of is_data_entry "pendingDir s" _ s]
  by (simp add: findLatestPendingManifest_def wp_bind [of "gets _"] wp_gets wp_if wp_return is_data_entry_def found_nothing)

section \<open>Effects\<close>

text \<open>Only requests that read were sent.\<close>

definition untouched :: "('w \<Rightarrow> string \<Rightarrow> bytes option) \<Rightarrow> ('w, 'c) S3Storage \<Rightarrow> ('w, 'c) S3Storage \<Rightarrow> bool" where
  "untouched view s t = (view (net t) = view (net s) \<and> cache t = cache s \<and> same_config s t
     \<and> data_at (disk t) = data_at (disk s))"

text \<open>
  The manifest that \<^verbatim>\<open>CURRENT\<close> names has been uploaded from a file of the local cache or of the pending
  directory; nothing else changed, except that its pending copy may be gone.
\<close>

definition repaired ::
  "('w, 'c) storage_deps \<Rightarrow> ('w \<Rightarrow> string \<Rightarrow> bytes option) \<Rightarrow> ('w, 'c) S3Storage \<Rightarrow> ('w, 'c) S3Storage \<Rightarrow> bool"
where
  "repaired D view s t = (\<exists>fd d n dir. dir \<in> {localDir s, pendingDir s} \<and> d \<noteq> []
     \<and> data_at (disk s) (filepath_Join [dir, n]) = Some d
     \<and> current_fd (view (net t)) = Some fd \<and> view (net t) (fdString D fd) = Some d
     \<and> within view {''CURRENT'', fdString D fd} (pending_files s (fdString D fd)) s t)"

text \<open>
  The objects of the database: \<^verbatim>\<open>CURRENT\<close> and the names of descriptors that parse. The \<^verbatim>\<open>LOCK\<close> object and
  the shadow copies are none of them.
\<close>

definition db_key :: "('w, 'c) storage_deps \<Rightarrow> string \<Rightarrow> bool" where
  "db_key D k = (k = ''CURRENT'' \<or> (\<exists>x fd. parseFileDesc x = Some fd \<and> k = fdString D fd))"

text \<open>A failed attempt to repair: requests may have changed \<^verbatim>\<open>CURRENT\<close> and one more object.\<close>

definition attempted ::
  "('w, 'c) storage_deps \<Rightarrow> ('w \<Rightarrow> string \<Rightarrow> bytes option) \<Rightarrow> ('w, 'c) S3Storage \<Rightarrow> ('w, 'c) S3Storage \<Rightarrow> bool"
where
  "attempted D view s t = ((\<exists>n. db_key D n \<and> within view {''CURRENT'', n} {} s t) \<and> cache t = cache s)"

text \<open>The clean-up only removes: objects of the database, and files below the local directory.\<close>

definition shrunk ::
  "('w, 'c) storage_deps \<Rightarrow> ('w \<Rightarrow> string \<Rightarrow> bytes option) \<Rightarrow> ('w, 'c) S3Storage \<Rightarrow> ('w, 'c) S3Storage \<Rightarrow> bool"
where
  "shrunk D view s t = (same_config s t \<and> view (net t) \<subseteq>\<^sub>m view (net s) \<and> data_at (disk t) \<subseteq>\<^sub>m data_at (disk s)
     \<and> (\<forall>k. \<not> db_key D k \<longrightarrow> view (net t) k = view (net s) k)
     \<and> (\<forall>q. localDir s = '''' \<or> \<not> under (localDir s) q \<longrightarrow> data_at (disk t) q = data_at (disk s) q))"

definition wiped ::
  "('w, 'c) storage_deps \<Rightarrow> ('w \<Rightarrow> string \<Rightarrow> bytes option) \<Rightarrow> ('c \<Rightarrow> string \<Rightarrow> memFile option)
     \<Rightarrow> ('w, 'c) S3Storage \<Rightarrow> error option \<Rightarrow> ('w, 'c) S3Storage \<Rightarrow> bool"
where
  "wiped D view content s r t =
     (if lockLost s then t = s \<and> r = Some ErrLockLost
      else shrunk D view s t \<and> (\<forall>k. content (cache t) k = None))"

lemma db_key_simps [simp]: "db_key D ''CURRENT''" "parseFileDesc x = Some fd \<Longrightarrow> db_key D (fdString D fd)"
  by (auto simp: db_key_def)

context storage_env
begin

lemma purge_local_effect: "wp purge_local (\<lambda>_ t. shrunk D view s t \<and> cache t = cache s) s"
proof (cases "localDir s = ''''")
  case True
  then show ?thesis by (simp add: purge_local_def wp_simps shrunk_def)
next
  case False
  show ?thesis
    unfolding purge_local_def
  proof (simp add: wp_bind wp_gets False wp_fun, rule wp_RemoveAll, rule wp_MkdirAll, goal_cases)
    case (1 r h r' h')
    have "data_at h' \<subseteq>\<^sub>m data_at (disk s)"
      unfolding map_le_def using 1(2,4) by (auto simp: dom_def)
    then show ?case using 1 False by (simp add: shrunk_def)
  qed
qed

lemma removeAllOrphaned_effect: "wp (removeAllOrphaned D) (wiped D view content s) s"
proof (cases "lockLost s")
  case True
  then show ?thesis by (simp add: removeAllOrphaned_def wp_simps wiped_def)
next
  case False
  let ?s = "cache_update (cache_Purge (lru D)) s"
  have clean: "wp (removeAllOrphaned D) (wiped D view content s) s \<longleftrightarrow>
    wp (do { purge_local; r \<leftarrow> on_net (api_List (api D) StorageCtx);
       case r of
         Inl err \<Rightarrow> ret (Some (Wrapf ''failed to list files during cleanup'' err))
       | Inr allFiles \<Rightarrow> do {
           for_each allFiles (\<lambda>fd. do { on_net (api_Remove (api D) StorageCtx (fdString D fd)); ret () });
           on_net (api_Remove (api D) StorageCtx ''CURRENT'');
           ret None } }) (wiped D view content s) ?s"
    by (simp add: removeAllOrphaned_def wp_bind wp_gets wp_modify False)
  let ?J = "\<lambda>t. shrunk D view s t \<and> (\<forall>k. content (cache t) k = None)"
  have rm: "wp (on_net (api_Remove (api D) StorageCtx n)) (\<lambda>r. ?J) t" if "?J t" "db_key D n" for n t
    by (rule wp_remove) (use that in \<open>auto simp: shrunk_def intro: map_le_trans [OF upd_None_map_le]\<close>)
  have loop: "wp (for_each fds (\<lambda>fd. do { on_net (api_Remove (api D) StorageCtx (fdString D fd)); ret () })) (\<lambda>_. ?J) t"
    if "?J t" "\<forall>fd \<in> set fds. db_key D (fdString D fd)" for fds t
    by (rule wp_for_each [where I = ?J]) (use that in \<open>auto simp: wp_bind wp_fun intro!: rm\<close>)
  have J: "wiped D view content s r t" if "?J t" for r t using that False by (simp add: wiped_def)
  have start: "?J t" if "shrunk D view ?s t" "cache t = cache ?s" for t
    using that by (simp add: shrunk_def purge_content same_config_def)
  show ?thesis
    unfolding clean wp_bind
  proof (rule wp_weaken [OF purge_local_effect], rule wp_list, goal_cases)
    case (1 u t fds w')
    then have "?J (t\<lparr>net := w'\<rparr>)" using start [of t] by (simp add: shrunk_def)
    moreover have "\<forall>fd \<in> set fds. db_key D (fdString D fd)" using 1 by (auto simp: listed_fds_def)
    ultimately show ?case
      unfolding sum.case wp_bind wp_return
      by (intro wp_weaken [OF loop]) (auto intro!: wp_weaken [OF rm] J)
  next
    case (2 u t e w')
    then have "?J (t\<lparr>net := w'\<rparr>)" using start [of t] by (simp add: shrunk_def)
    then show ?case by (simp add: wp_simps J)
  qed
qed

text \<open>The two repairs of a manifest that \<^verbatim>\<open>CURRENT\<close> names.\<close>

lemma restore_from_local_effect:
  "wp (restore_from_local D fd) (\<lambda>b t. within view {fdString D fd} {} s t \<and> cache t = cache s
     \<and> (b \<longrightarrow> (\<exists>d. d \<noteq> [] \<and> data_at (disk s) (filepath_Join [localDir s, fdString D fd]) = Some d
          \<and> view (net t) (fdString D fd) = Some d))) s"
  unfolding restore_from_local_def
  by (auto simp: wp_simps within_def intro!: wp_ReadFile wp_put)

lemma restore_from_pending_effect:
  "wp (restore_from_pending D fd) (\<lambda>b t. within view {fdString D fd} (if b then pending_files s (fdString D fd) else {}) s t
     \<and> cache t = cache s
     \<and> (b \<longrightarrow> (\<exists>d. d \<noteq> [] \<and> data_at (disk s) (filepath_Join [pendingDir s, fdString D fd]) = Some d
          \<and> view (net t) (fdString D fd) = Some d))) s"
  unfolding restore_from_pending_def
  by (auto simp: wp_simps within_def pending_files_def pending_path_def intro!: wp_ReadFile wp_put wp_remove_pending)

end

definition cleaned ::
  "('w, 'c) storage_deps \<Rightarrow> ('w \<Rightarrow> string \<Rightarrow> bytes option) \<Rightarrow> ('c \<Rightarrow> string \<Rightarrow> memFile option)
     \<Rightarrow> ('w, 'c) S3Storage \<Rightarrow> error option \<Rightarrow> ('w, 'c) S3Storage \<Rightarrow> bool"
where
  "cleaned D view content s r t = (untouched view s t \<or> r = None \<and> repaired D view s t
     \<or> (\<exists>u. attempted D view s u \<and> wiped D view content u r t))"

lemma untouched_refl [simp]: "untouched view s s"
  by (simp add: untouched_def)

lemma untouched_within:
  assumes "untouched view s u"
  shows "within view K P s t = within view K P u t"
  using assms by (auto simp: untouched_def within_def same_config_def)

lemma cleaned_pre:
  assumes "untouched view s u"
  shows "cleaned D view content s = cleaned D view content u"
proof -
  have "localDir u = localDir s" "pendingDir u = pendingDir s" "cache u = cache s" "data_at (disk u) = data_at (disk s)"
    and "pending_files u n = pending_files s n" for n
    using assms by (simp_all add: untouched_def same_config_def pending_files_def pending_path_def)
  moreover have "untouched view s t = untouched view u t" for t using assms by (auto simp: untouched_def same_config_def)
  ultimately show ?thesis
    by (intro ext) (simp add: cleaned_def repaired_def attempted_def untouched_within [OF assms])
qed

lemma untouched_disk_only: "disk_only s t \<Longrightarrow> data_at (disk t) = data_at (disk s) \<Longrightarrow> untouched view s t"
  using disk_only_fields [of s t] by (simp add: untouched_def)

context storage_env
begin

lemma removeAllOrphaned_cleaned:
  assumes "attempted D view s u"
  shows "wp (removeAllOrphaned D) (cleaned D view content s) u"
  by (rule wp_weaken [OF removeAllOrphaned_effect]) (use assms in \<open>auto simp: cleaned_def\<close>)

lemma parsed_not_meta: "parseFileDesc x = Some fd \<Longrightarrow> fdString D fd \<noteq> ''CURRENT'' \<and> fdString D fd \<noteq> ''LOCK''"
proof -
  assume "parseFileDesc x = Some fd"
  then obtain n where "fd = FileDesc TypeManifest n \<or> (\<exists>t \<in> {TypeJournal, TypeTable, TypeTemp}. fd = FileDesc t n)"
    by (auto simp: parseFileDesc_def split: option.splits prod.splits if_splits)
  then have "HasPrefix (fdString D fd) ''MANIFEST-'' \<or> CHR ''.'' \<in> set (fdString D fd)"
    using manifest_name numbered_name by (auto simp: HasPrefix_def)
  then show ?thesis by (auto simp: HasPrefix_def)
qed

lemma lock_not_db: "\<not> db_key D ''LOCK''"
  using parsed_not_meta by (force simp: db_key_def)

lemma verifyCurrentManifest_effect: "wp (verifyCurrentManifest D) (cleaned D view content s) s"
proof -
  have repair: "wp (do { a \<leftarrow> restore_from_local D fd;
      if a then ret None else do {
        b \<leftarrow> restore_from_pending D fd;
        if b then ret None else removeAllOrphaned D } }) (cleaned D view content u) u"
    if cur: "current_fd (view (net u)) = Some fd" for fd u
  proof -
    obtain x where x: "parseFileDesc x = Some fd" using cur by (auto simp: current_fd_def split: option.splits)
    then have n: "fdString D fd \<noteq> ''CURRENT''" using parsed_not_meta by blast
    have cur': "current_fd (view (net t)) = Some fd" if "within view {fdString D fd} P u t" for t P
      using that cur n by (simp add: current_fd_def within_def)
    show ?thesis
      unfolding wp_bind
    proof (rule wp_weaken [OF restore_from_local_effect], goal_cases)
      case (1 a t)
      show ?case
      proof (cases a)
        case True
        with 1 obtain d where "d \<noteq> []" "data_at (disk u) (filepath_Join [localDir u, fdString D fd]) = Some d"
          "view (net t) (fdString D fd) = Some d" by blast
        then have "repaired D view u t"
          using 1 cur' [of "{}" t] unfolding repaired_def by (blast intro: within_mono)
        then show ?thesis using True by (simp add: wp_simps cleaned_def)
      next
        case False
        have same: "data_at (disk t) = data_at (disk u)" "pendingDir t = pendingDir u" "pending_files t m = pending_files u m" for m
          using 1 by (auto simp: within_def same_config_def pending_files_def pending_path_def)
        show ?thesis
          unfolding wp_if if_not_P [OF False] wp_bind
        proof (rule wp_weaken [OF restore_from_pending_effect], goal_cases)
          case (1 b v)
          then have uv: "within view {fdString D fd} (if b then pending_files u (fdString D fd) else {}) u v" "cache v = cache u"
            using \<open>within view _ _ u t \<and> _\<close> same
            by (auto intro!: within_trans [of view "{fdString D fd}" _ u t v] within_mono [of view "{fdString D fd}" "{}" u t])
          show ?case
          proof (cases b)
            case True
            with 1 obtain d where "d \<noteq> []" "data_at (disk u) (filepath_Join [pendingDir u, fdString D fd]) = Some d"
              "view (net v) (fdString D fd) = Some d" unfolding same by auto
            moreover have "within view {fdString D fd} (pending_files u (fdString D fd)) u v" using uv(1) True by simp
            ultimately have "repaired D view u v"
              using cur' unfolding repaired_def by (blast intro: within_mono)
            then show ?thesis using True by (simp add: wp_simps cleaned_def)
          next
            case False
            then have "within view {''CURRENT'', fdString D fd} {} u v" using uv(1) by (auto intro: within_mono)
            then have "attempted D view u v" using uv(2) x unfolding attempted_def by (auto intro: exI [of _ "fdString D fd"])
            then show ?thesis using False by (simp add: wp_simps removeAllOrphaned_cleaned)
          qed
        qed
      qed
    qed
  qed
  show ?thesis
    unfolding verifyCurrentManifest_def wp_bind
  proof (rule wp_get, goal_cases)
    case (1 d w')
    let ?u = "s\<lparr>net := w'\<rparr>"
    have u: "untouched view s ?u" using 1 by (simp add: untouched_def)
    show ?case
    proof (cases "parseFileDesc (TrimSpace d)")
      case None
      have "attempted D view s ?u" using 1 by (auto simp: attempted_def within_def intro: exI [of _ "''CURRENT''"])
      then show ?thesis using None by (simp add: wp_simps removeAllOrphaned_cleaned)
    next
      case (Some fd)
      show ?thesis
        unfolding sum.case Some option.case wp_bind
      proof (rule wp_exists, goal_cases)
        case e: (1 w'')
        let ?v = "?u\<lparr>net := w''\<rparr>"
        have v: "untouched view s ?v" using u e by (simp add: untouched_def)
        have "current_fd (view (net ?v)) = Some fd" using 1 e Some by (simp add: current_fd_def)
        from repair [OF this] show ?case
          using v unfolding sum.case wp_if wp_bind wp_return cleaned_pre [OF v] by (simp add: cleaned_def)
      next
        case e: (2 x w'')
        then have "untouched view s (?u\<lparr>net := w''\<rparr>)" using u by (simp add: untouched_def)
        then show ?case by (simp add: wp_simps cleaned_def)
      qed
    qed
  next
    case (2 e w')
    then have "untouched view s (s\<lparr>net := w'\<rparr>)" by (simp add: untouched_def)
    then show ?case by (simp add: wp_simps cleaned_def)
  qed
qed

end

text \<open>
  The rebuilding of a missing \<^verbatim>\<open>CURRENT\<close>: it names the latest manifest of one of the two directories,
  which has been uploaded.
\<close>

definition rebuilt_as ::
  "('w, 'c) storage_deps \<Rightarrow> ('w \<Rightarrow> string \<Rightarrow> bytes option) \<Rightarrow> ('w, 'c) S3Storage \<Rightarrow> string \<Rightarrow> file_desc \<Rightarrow> bytes
     \<Rightarrow> ('w, 'c) S3Storage \<Rightarrow> bool"
where
  "rebuilt_as D view s dir fd d t = (dir \<in> {localDir s, pendingDir s} \<and> d \<noteq> [] \<and> found_manifest s dir (Inr (fd, d)) s
     \<and> view (net t) ''CURRENT'' = Some (fdString D fd @ [CHR 0x0A]) \<and> view (net t) (fdString D fd) = Some d
     \<and> within view {''CURRENT'', fdString D fd} (pending_files s (fdString D fd)) s t)"

definition rebuilt ::
  "('w, 'c) storage_deps \<Rightarrow> ('w \<Rightarrow> string \<Rightarrow> bytes option) \<Rightarrow> ('w, 'c) S3Storage \<Rightarrow> ('w, 'c) S3Storage \<Rightarrow> bool"
where
  "rebuilt D view s t = (\<exists>dir fd d. rebuilt_as D view s dir fd d t)"

definition rebuild_result ::
  "('w, 'c) storage_deps \<Rightarrow> ('w \<Rightarrow> string \<Rightarrow> bytes option) \<Rightarrow> ('c \<Rightarrow> string \<Rightarrow> memFile option)
     \<Rightarrow> ('w, 'c) S3Storage \<Rightarrow> error option option \<Rightarrow> ('w, 'c) S3Storage \<Rightarrow> bool"
where
  "rebuild_result D view content s r t = (case r of
     None \<Rightarrow> untouched view s t
   | Some e \<Rightarrow> e = None \<and> rebuilt D view s t \<or> (\<exists>u. attempted D view s u \<and> wiped D view content u e t))"

definition recovered ::
  "('w, 'c) storage_deps \<Rightarrow> ('w \<Rightarrow> string \<Rightarrow> bytes option) \<Rightarrow> ('c \<Rightarrow> string \<Rightarrow> memFile option)
     \<Rightarrow> ('w, 'c) S3Storage \<Rightarrow> error option \<Rightarrow> ('w, 'c) S3Storage \<Rightarrow> bool"
where
  "recovered D view content s r t = (untouched view s t \<or> rebuild_result D view content s (Some r) t)"

lemma rebuild_result_pre:
  assumes "untouched view s u"
  shows "rebuild_result D view content u r t = rebuild_result D view content s r t"
proof -
  have "localDir u = localDir s" "pendingDir u = pendingDir s" "data_at (disk u) = data_at (disk s)"
    and "pending_files u n = pending_files s n" for n
    using assms by (simp_all add: untouched_def same_config_def pending_files_def pending_path_def)
  then have "rebuilt_as D view u dir fd d t = rebuilt_as D view s dir fd d t" for dir fd d
    by (simp add: rebuilt_as_def found_manifest_def untouched_within [OF assms])
  moreover have "attempted D view u w = attempted D view s w" for w
    unfolding attempted_def untouched_within [OF assms] using assms by (simp add: untouched_def)
  moreover have "untouched view u t = untouched view s t" using assms by (auto simp: untouched_def same_config_def)
  ultimately show ?thesis by (simp add: rebuild_result_def rebuilt_def split: option.split)
qed

lemma recovered_pre: "untouched view s u \<Longrightarrow> recovered D view content u = recovered D view content s"
proof (intro ext)
  fix r t assume u: "untouched view s u"
  then have "untouched view u t = untouched view s t" by (auto simp: untouched_def same_config_def)
  then show "recovered D view content u r t = recovered D view content s r t"
    by (simp add: recovered_def rebuild_result_pre [OF u])
qed

lemma found_manifest_pre:
  "found_manifest s dir r t \<Longrightarrow> found_manifest s dir r s"
  by (simp add: found_manifest_def)

lemma found_valid: "found_manifest s dir (Inr (fd, d)) t \<Longrightarrow> valid_fd fd"
  by (auto simp: found_manifest_def valid_fd_def known_type_def)

context storage_env
begin

lemma publish_manifest_effect:
  assumes "valid_fd fd"
  shows "wp (publish_manifest D fd d) (\<lambda>r t. case r of
      Inl e \<Rightarrow> \<exists>u. attempted D view s u \<and> wiped D view content u e t
    | Inr _ \<Rightarrow> within view {''CURRENT'', fdString D fd} {} s t \<and> cache t = cache s
        \<and> view (net t) (fdString D fd) = Some d \<and> view (net t) ''CURRENT'' = Some (fdString D fd @ [CHR 0x0A])) s"
    (is "wp _ ?Q s")
proof -
  have n: "fdString D fd \<noteq> ''CURRENT''" using name_not_meta_file [OF assms] by simp
  have db: "db_key D (fdString D fd)" using parse_name [OF assms] by simp
  have fail: "wp (do { r \<leftarrow> removeAllOrphaned D; ret (Inl r) }) ?Q u" if "within view {''CURRENT'', fdString D fd} {} s u" "cache u = cache s" for u
    unfolding wp_bind
    by (rule wp_weaken [OF removeAllOrphaned_effect]) (use that db in \<open>auto simp: wp_return attempted_def\<close>)
  show ?thesis
    unfolding publish_manifest_def wp_bind
  proof (rule wp_put, goal_cases)
    case (1 w)
    show ?case
      unfolding option.case wp_bind
    proof (rule wp_put, goal_cases)
      case w': (1 w')
      then show ?case using 1 n by (simp add: wp_return within_def)
    next
      case w': (2 e w')
      show ?case unfolding option.case by (rule fail) (use 1 w' in \<open>auto simp: within_def\<close>)
    qed
  next
    case (2 e w)
    show ?case unfolding option.case by (rule fail) (use 2 in \<open>auto simp: within_def\<close>)
  qed
qed

lemma rebuild_step:
  assumes u: "untouched view s t" and f: "found_manifest s dir (Inr (fd, d)) s" and "d \<noteq> []" and "dir \<in> {localDir s, pendingDir s}"
  shows "wp (publish_manifest D fd d) (\<lambda>r v. case r of
      Inl e \<Rightarrow> rebuild_result D view content s (Some e) v | Inr _ \<Rightarrow> rebuilt_as D view s dir fd d v) t"
proof (rule wp_weaken [OF publish_manifest_effect [OF found_valid [OF f]]], goal_cases)
  case (1 r v)
  have "within view {''CURRENT'', fdString D fd} {} t v \<Longrightarrow> within view {''CURRENT'', fdString D fd} (pending_files s (fdString D fd)) s v"
    unfolding untouched_within [OF u] by (rule within_mono) auto
  moreover have "attempted D view t w = attempted D view s w" for w
    unfolding attempted_def untouched_within [OF u] using u by (simp add: untouched_def)
  ultimately show ?case
    using 1 f assms(3,4) by (auto simp: rebuild_result_def rebuilt_as_def split: sum.splits)
qed

lemma rebuilt_remove_pending:
  assumes "rebuilt_as D view s dir fd d t"
  shows "wp (remove_pending (fdString D fd)) (\<lambda>_. rebuilt_as D view s dir fd d) t"
proof (rule wp_remove_pending, goal_cases)
  case (1 v)
  have "pending_files t n = pending_files s n" for n
    using assms same_config_paths [of s t n] by (simp add: rebuilt_as_def within_def)
  then have "within view {''CURRENT'', fdString D fd} (pending_files s (fdString D fd)) t v"
    using 1(1) by (auto intro: within_mono)
  with assms 1 show ?case by (auto simp: rebuilt_as_def intro: within_trans)
qed

lemma rebuild_from_local_effect: "wp (rebuild_from_local D) (rebuild_result D view content s) s"
proof (cases "localDir s = ''''")
  case True
  then show ?thesis by (simp add: rebuild_from_local_def wp_simps rebuild_result_def)
next
  case False
  show ?thesis
    unfolding rebuild_from_local_def wp_bind wp_gets wp_if if_not_P [OF False]
  proof (rule wp_weaken [OF findLatestLocalManifest_effect], goal_cases)
    case (1 m t)
    then have u: "untouched view s t" by (simp add: found_manifest_def untouched_disk_only)
    then have none: "rebuild_result D view content s None t" by (simp add: rebuild_result_def)
    show ?case
    proof (cases "\<exists>fd d. m = Inr (fd, d) \<and> d \<noteq> []")
      case True
      then obtain fd d where m: "m = Inr (fd, d)" "d \<noteq> []" by blast
      have "found_manifest s (localDir s) (Inr (fd, d)) s" using 1 m found_manifest_pre by blast
      then have "wp (publish_manifest D fd d)
          (\<lambda>r. wp (ret (Some (case r of Inl e \<Rightarrow> e | Inr _ \<Rightarrow> None))) (rebuild_result D view content s)) t"
        by (intro wp_weaken [OF rebuild_step [OF u _ m(2)]])
          (auto simp: wp_return rebuild_result_def rebuilt_def split: sum.splits)
      then show ?thesis using m(2) by (simp add: m(1) wp_bind)
    next
      case False
      then show ?thesis using none by (auto simp: wp_return split: sum.split)
    qed
  qed
qed

lemma rebuild_from_pending_effect: "wp (rebuild_from_pending D) (rebuild_result D view content s) s"
proof (cases "pendingDir s = ''''")
  case True
  then show ?thesis by (simp add: rebuild_from_pending_def wp_simps rebuild_result_def)
next
  case False
  show ?thesis
    unfolding rebuild_from_pending_def wp_bind wp_gets wp_if if_not_P [OF False]
  proof (rule wp_weaken [OF findLatestPendingManifest_effect], goal_cases)
    case (1 m t)
    then have u: "untouched view s t" by (simp add: found_manifest_def untouched_disk_only)
    then have none: "rebuild_result D view content s None t" by (simp add: rebuild_result_def)
    show ?case
    proof (cases "\<exists>fd d. m = Inr (fd, d) \<and> d \<noteq> []")
      case True
      then obtain fd d where m: "m = Inr (fd, d)" "d \<noteq> []" by blast
      have f: "found_manifest s (pendingDir s) (Inr (fd, d)) s" using 1 m found_manifest_pre by blast
      have "wp (publish_manifest D fd d) (\<lambda>r. wp (case r of
             Inl e \<Rightarrow> ret (Some e)
           | Inr _ \<Rightarrow> do { remove_pending (fdString D fd); ret (Some None) }) (rebuild_result D view content s)) t"
      proof (rule wp_weaken [OF rebuild_step [OF u f m(2)]], goal_cases)
        case 1
        then show ?case by simp
      next
        case (2 r v)
        show ?case
        proof (cases r)
          case (Inl e)
          then show ?thesis using 2 by (simp add: wp_return)
        next
          case (Inr x)
          then have "rebuilt_as D view s (pendingDir s) fd d v" using 2 by simp
          show ?thesis
            unfolding Inr sum.case wp_bind
            by (rule wp_weaken [OF rebuilt_remove_pending [OF \<open>rebuilt_as _ _ _ _ _ _ v\<close>]])
              (auto simp: wp_return rebuild_result_def rebuilt_def)
        qed
      qed
      then show ?thesis using m(2) by (simp add: m(1) wp_bind)
    next
      case False
      then show ?thesis using none by (auto simp: wp_return split: sum.split)
    qed
  qed
qed

lemma recoverFromLocalCache_effect: "wp (recoverFromLocalCache D) (recovered D view content s) s"
proof -
  have last: "wp (removeAllOrphaned D) (recovered D view content s) t" if "untouched view s t" for t
  proof (rule wp_weaken [OF removeAllOrphaned_effect], goal_cases)
    case (1 r v)
    moreover have "attempted D view s t"
      using that by (auto simp: untouched_def attempted_def within_def intro: exI [of _ "''CURRENT''"])
    ultimately show ?case by (auto simp: recovered_def rebuild_result_def)
  qed
  have attempts: "wp (do { a \<leftarrow> rebuild_from_local D;
        case a of
          Some r \<Rightarrow> ret r
        | None \<Rightarrow> do {
            b \<leftarrow> rebuild_from_pending D;
            case b of
              Some r \<Rightarrow> ret r
            | None \<Rightarrow> (if more then removeAllOrphaned D else ret None) } }) (recovered D view content s) u"
    if u: "untouched view s u" for u more
    unfolding wp_bind
  proof (rule wp_weaken [OF rebuild_from_local_effect], goal_cases)
    case (1 a t)
    then have a: "rebuild_result D view content s a t" using rebuild_result_pre [OF u] by blast
    show ?case
    proof (cases a)
      case (Some r)
      then show ?thesis using a by (simp add: wp_return recovered_def)
    next
      case None
      then have t: "untouched view s t" using a by (simp add: rebuild_result_def)
      show ?thesis
        unfolding None option.case wp_bind
      proof (rule wp_weaken [OF rebuild_from_pending_effect], goal_cases)
        case (1 b v)
        then have b: "rebuild_result D view content s b v" using rebuild_result_pre [OF t] by blast
        then show ?case
          using last by (cases b) (auto simp: wp_if wp_return recovered_def rebuild_result_def)
      qed
    qed
  qed
  show ?thesis
    unfolding recoverFromLocalCache_def wp_bind
  proof (rule wp_list, goal_cases)
    case (1 fds w')
    then have u: "untouched view s (s\<lparr>net := w'\<rparr>)" by (simp add: untouched_def)
    from attempts [OF this, of "fds \<noteq> []"] show ?case
      using u by (simp add: wp_gets wp_if wp_return recovered_def)
  next
    case (2 e w')
    then show ?case by (simp add: wp_simps untouched_def recovered_def)
  qed
qed

lemma rebuilt_repaired: "rebuilt D view s t \<Longrightarrow> repaired D view s t"
proof -
  assume "rebuilt D view s t"
  then obtain dir fd d where r: "rebuilt_as D view s dir fd d t" by (auto simp: rebuilt_def)
  then have "valid_fd fd" by (auto simp: rebuilt_as_def found_valid)
  then have "current_fd (view (net t)) = Some fd" using r current_fd_written by (auto simp: rebuilt_as_def)
  moreover obtain n where "data_at (disk s) (filepath_Join [dir, n]) = Some d"
    using r by (auto simp: rebuilt_as_def found_manifest_def)
  ultimately show ?thesis using r unfolding rebuilt_as_def repaired_def by blast
qed

lemma cleanupOrphaned_effect: "wp (cleanupOrphaned D) (cleaned D view content s) s"
  unfolding cleanupOrphaned_def wp_bind
proof (rule wp_exists, goal_cases)
  case (1 w')
  let ?u = "s\<lparr>net := w'\<rparr>"
  have u: "untouched view s ?u" using 1 by (simp add: untouched_def)
  have "wp (recoverFromLocalCache D) (cleaned D view content ?u) ?u"
    by (rule wp_weaken [OF recoverFromLocalCache_effect])
      (auto simp: cleaned_def recovered_def rebuild_result_def dest: rebuilt_repaired)
  then show ?case
    unfolding cleaned_pre [OF u] sum.case wp_if using verifyCurrentManifest_effect by (simp split: if_split)
next
  case (2 e w')
  then show ?case by (simp add: wp_simps cleaned_def untouched_def)
qed

lemma cleanup_missing_effect:
  assumes "view (net s) ''CURRENT'' = None"
  shows "wp (cleanupOrphaned D) (recovered D view content s) s"
  unfolding cleanupOrphaned_def wp_bind
proof (rule wp_exists, goal_cases)
  case (1 w')
  have u: "untouched view s (s\<lparr>net := w'\<rparr>)" using 1 by (simp add: untouched_def)
  show ?case
    using recoverFromLocalCache_effect [of "s\<lparr>net := w'\<rparr>"] assms unfolding recovered_pre [OF u] by simp
next
  case (2 e w')
  then show ?case by (simp add: wp_simps recovered_def untouched_def)
qed

lemma cleanup_consistent_effect:
  assumes "current_fd (view (net s)) = Some fd" and "view (net s) (fdString D fd) \<noteq> None"
  shows "wp (cleanupOrphaned D) (\<lambda>r t. t = s\<lparr>net := net t\<rparr> \<and> view (net t) = view (net s)) s"
proof -
  obtain c where c: "view (net s) ''CURRENT'' = Some c" "parseFileDesc (TrimSpace c) = Some fd"
    using assms(1) by (auto simp: current_fd_def split: option.splits)
  show ?thesis
    unfolding cleanupOrphaned_def verifyCurrentManifest_def
    using assms(2) c by (auto simp: wp_simps intro!: wp_exists wp_get split: option.split)
qed

end

lemmas cleanup_exec = storage_exec
  cleanupOrphaned_def [THEN wp_unfold] verifyCurrentManifest_def [THEN wp_unfold] recoverFromLocalCache_def [THEN wp_unfold]
  restore_from_local_def [THEN wp_unfold] restore_from_pending_def [THEN wp_unfold] removeAllOrphaned_def [THEN wp_unfold]
  purge_local_def [THEN wp_unfold] for_each.simps [THEN wp_unfold]

section \<open>Properties\<close>

text \<open>
  C14: The clean-up at the start of a session leaves a consistent database alone, whatever requests fail:
  when \<^verbatim>\<open>CURRENT\<close> names a manifest that exists, no object, no local file and no cache entry changes.
\<close>

theorem cleanup_keeps_consistent_database:
  assumes "storage_env D view content" and "current_fd (view (net s)) = Some fd"
    and "view (net s) (fdString D fd) \<noteq> None" and "run_state (cleanupOrphaned D) s = (r, t)"
  shows "t = s\<lparr>net := net t\<rparr> \<and> view (net t) = view (net s)"
  using storage_env.cleanup_consistent_effect [OF assms(1-3), THEN wp_run, OF assms(4)] .

theorem cleanup_keeps_consistent_database_witness:
  "\<exists>r t. run_state (cleanupOrphaned demo_deps)
      (demo_storage [(''CURRENT'', ''MANIFEST-000004'' @ [CHR 0x0A]), (''MANIFEST-000004'', ''m'')] [Answered, Rejected] []) = (r, t)
     \<and> sim_objs (net t) ''MANIFEST-000004'' = Some ''m''"
proof -
  let ?s = "demo_storage [(''CURRENT'', ''MANIFEST-000004'' @ [CHR 0x0A]), (''MANIFEST-000004'', ''m'')] [Answered, Rejected] []"
  obtain r t where t: "run_state (cleanupOrphaned demo_deps) ?s = (r, t)" by force
  have "current_fd (sim_objs (net ?s)) = Some (FileDesc TypeManifest 4)"
    using demo_trim [OF demo_fd(7)] demo_parse unfolding demo_fd by (simp add: current_fd_def demo_storage_def sim_objs_def)
  moreover have m: "sim_objs (net ?s) ''MANIFEST-000004'' = Some ''m''" by (simp add: demo_storage_def sim_objs_def)
  then have "sim_objs (net ?s) (fdString demo_deps (FileDesc TypeManifest 4)) \<noteq> None"
    unfolding demo_deps_simps demo_fd by simp
  ultimately have "sim_objs (net t) = sim_objs (net ?s)"
    using cleanup_keeps_consistent_database [OF demo_env _ _ t] by blast
  then show ?thesis using t m by auto
qed





lemma demo_current: "parseFileDesc ''CURRENT'' = None"
  by (simp add: fmt_simps)

lemma manifest_zero_is_not_found: "latest_manifest [(''MANIFEST-000000'', False)] = (0, '''')"
  by (simp add: latest_manifest_def fmt_simps)

text \<open>
  One refused upload destroys the database. \<^verbatim>\<open>CURRENT\<close> names a manifest that is missing, the local cache
  has it, and the request that uploads it fails: the clean-up then removes every object and the
  whole local directory, with the only copy of the manifest and the pending files, which
  lie below it, and returns nil.
\<close>

theorem failed_repair_wipes_database:
  "\<exists>t. run_state (cleanupOrphaned demo_deps)
       (demo_storage [(''CURRENT'', ''MANIFEST-000004'' @ [CHR 0x0A]), (''000001.ldb'', tab)] [Answered, Answered, Answered, Rejected]
          [(''/c/db/MANIFEST-000004'', File [m]), (''/c/db/pending_uploads/000003.ldb'', File pend)]) = (None, t)
   \<and> (\<forall>k. sim_objs (net t) k = None)
   \<and> data_at (disk t) ''/c/db/MANIFEST-000004'' = None \<and> data_at (disk t) ''/c/db/pending_uploads/000003.ldb'' = None"
proof -
  let ?s = "demo_storage [(''CURRENT'', ''MANIFEST-000004'' @ [CHR 0x0A]), (''000001.ldb'', tab)] [Answered, Answered, Answered, Rejected]
          [(''/c/db/MANIFEST-000004'', File [m]), (''/c/db/pending_uploads/000003.ldb'', File pend)]"
  have "TrimSpace (''MANIFEST-000004'' @ [CHR 0x0A]) = ''MANIFEST-000004''" using demo_trim [OF demo_fd(7)] unfolding demo_fd by simp
  note trim = this [simplified append_Cons append_Nil]
  have "wp (cleanupOrphaned demo_deps) (\<lambda>r t. r = None \<and> (\<forall>k. sim_objs (net t) k = None)
      \<and> data_at (disk t) ''/c/db/MANIFEST-000004'' = None
      \<and> data_at (disk t) ''/c/db/pending_uploads/000003.ldb'' = None) ?s"
    by (simp add: demo_storage_def cleanup_exec demo_option_def lru_list_ops_def wp_exec mem_eval host_eval path_eval
        demo_fd demo_parse demo_key demo_current trim AList.delete_eq HasPrefix_def del: leveldb_String.simps cong: wp_state_cong)
  then show ?thesis by (auto simp: wp_def split: prod.splits)
qed

end
