(* ===== verification/Session.thy ===== *)
theory Session
  imports Background_Retry Orphan_Cleanup
begin

text \<open>
  The life of a storage (\<^verbatim>\<open>s3/storage.go\<close>): \<open>NewS3Storage\<close>, \<open>Lock\<close> with the recovery that it runs,
  \<open>Unlock\<close> and the locker that \<open>Lock\<close> returns, the lease monitor, and \<open>Close\<close>.
\<close>

section \<open>Opening\<close>

text \<open>
  The constructor runs on a machine with its lock and returns the storage, which extends it. On an
  error the context that it created is cancelled; nothing else has that context yet.
\<close>

definition make_dir :: "string \<Rightarrow> string \<Rightarrow> ('w lock_machine, error option) state" where
  "make_dir msg dir = do {
     r \<leftarrow> on_disk (os_MkdirAll dir);
     ret (case r of Inl err \<Rightarrow> Some (Wrapf msg err) | Inr _ \<Rightarrow> None) }"

definition NewS3Storage ::
  "('w, 'c) storage_deps \<Rightarrow> OpenOption \<Rightarrow> ('w lock_machine, error + ('w, 'c) S3Storage) state"
where
  "NewS3Storage D o' =
     (let o' = ApplyDefaults o' in
      case Validate o' of
        Some err \<Rightarrow> ret (Inl err)
      | None \<Rightarrow> (case cache_New (lru D) (MaxCacheSize o') of
          Inl err \<Rightarrow> ret (Inl (Wrapf ''failed to create LRU cache'' err))
        | Inr c \<Rightarrow> do {
            let local = LocalPath o';
            e1 \<leftarrow> (if local \<noteq> '''' then make_dir ''failed to create local cache dir'' local else ret None);
            case e1 of
              Some err \<Rightarrow> ret (Inl err)
            | None \<Rightarrow> do {
                let pending = (if EnableLocalPersistence o' then LocalPersistencePath o' else '''');
                e2 \<leftarrow> (if EnableLocalPersistence o' then make_dir ''failed to create pending upload dir'' pending
                       else ret None);
                case e2 of
                  Some err \<Rightarrow> ret (Inl err)
                | None \<Rightarrow> do {
                    m \<leftarrow> gets id;
                    ret (Inr \<lparr>net = net m, disk = disk m, s3Lock = s3Lock m, opt = o', cache = c, closed = False,
                        localDir = local, pendingDir = pending, retryStopped = False,
                        retryRunning = (pending \<noteq> ''''), lockLost = False, lockHeld = False,
                        shadowPrefix = PendingShadowPrefix o', monitors = 0, warnings = []\<rparr>) } } }))"

section \<open>Synchronising the local cache\<close>

definition sync_local_entry ::
  "('w, 'c) storage_deps \<Rightarrow> string \<times> bool \<Rightarrow> (('w, 'c) S3Storage, error option option) state"
where
  "sync_local_entry D entry =
     (case entry of (name, isDir) \<Rightarrow>
        if isDir \<or> name = ''LOCK'' \<or> name = ''CURRENT'' then ret None
        else do {
          dir \<leftarrow> gets localDir;
          r \<leftarrow> on_disk (os_ReadFile (filepath_Join [dir, name]));
          case r of
            Inl _ \<Rightarrow> ret None
          | Inr data \<Rightarrow> do {
              e \<leftarrow> on_net (api_PutBytes (api D) StorageCtx name data);
              ret (case e of
                     None \<Rightarrow> None
                   | Some err \<Rightarrow> Some (Some (Wrapf (''failed to sync '' @ name @ '' to S3'') err))) } })"

definition syncLocalToS3 :: "('w, 'c) storage_deps \<Rightarrow> (('w, 'c) S3Storage, error option) state" where
  "syncLocalToS3 D = do {
     dir \<leftarrow> gets localDir;
     if dir = '''' then ret None else do {
       r \<leftarrow> on_disk (os_ReadDir dir);
       case r of
         Inl err \<Rightarrow> ret (if os_IsNotExist err then None else Some (Wrapf ''failed to read local cache dir'' err))
       | Inr entries \<Rightarrow> do {
           x \<leftarrow> for_return entries (sync_local_entry D);
           ret (case x of None \<Rightarrow> None | Some e \<Rightarrow> e) } } }"

section \<open>The lease monitor\<close>

text \<open>
  \<open>startLeaseMonitoring\<close> starts a goroutine that waits in a \<^verbatim>\<open>select\<close>: \<open>monitor_ready\<close> says which
  branches can be taken, \<open>monitor_body\<close> what the branch does before the goroutine ends. The channel
  of \<open>LeaseErr\<close> is never closed, so its receive always carries an error.
\<close>

definition startLeaseMonitoring :: "(('w, 'c) S3Storage, unit) state" where
  "startLeaseMonitoring = modify (monitors_update Suc)"

datatype monitor_branch = LeaseErrReceived | MonitorCtxDone

definition monitor_ready :: "('w, 'c) storage_deps \<Rightarrow> ('w, 'c) S3Storage \<Rightarrow> monitor_branch \<Rightarrow> bool" where
  "monitor_ready D s br =
     (0 < monitors s \<and>
      (case br of
         LeaseErrReceived \<Rightarrow> leaseErrCh (s3Lock s) \<noteq> []
       | MonitorCtxDone \<Rightarrow> ctxErr (plat_rt (plat D)) StorageCtx (net s) \<noteq> None))"

definition monitor_body :: "monitor_branch \<Rightarrow> (('w, 'c) S3Storage, unit) state" where
  "monitor_body br =
     (case br of
        LeaseErrReceived \<Rightarrow> do {
          modify (s3Lock_update (leaseErrCh_update tl));
          modify (lockLost_update (\<lambda>_. True));
          modify (monitors_update (\<lambda>n. n - 1)) }
      | MonitorCtxDone \<Rightarrow> modify (monitors_update (\<lambda>n. n - 1)))"

section \<open>Lock and Unlock\<close>

text \<open>
  \<open>Lock\<close> as one step (it holds the mutex); the errors of \<open>syncPendingToS3\<close> and \<open>cleanupOrphaned\<close> are
  only logged. The locker that it returns carries nothing but the storage, hence \<open>unit\<close>.
\<close>

definition Storage_Lock ::
  "slice_sorter \<Rightarrow> nat list \<Rightarrow> ('w, 'c) storage_deps \<Rightarrow> (('w, 'c) S3Storage, error + unit) state"
where
  "Storage_Lock sorter sched D = do {
     c \<leftarrow> gets closed;
     if c then ret (Inl StorageErrClosed) else do {
       e \<leftarrow> S3Lock_Lock (api D) (plat D) StorageCtx;
       case e of
         Some err \<Rightarrow> ret (Inl (Wrapf ''failed to acquire lock'' err))
       | None \<Rightarrow> do {
           startLeaseMonitoring;
           syncPendingToS3 sorter sched D;
           e2 \<leftarrow> syncLocalToS3 D;
           case e2 of
             Some err \<Rightarrow> do {
               S3Lock_Unlock (api D) StorageCtx;
               ret (Inl (Wrapf ''failed to sync local cache to S3'' err)) }
           | None \<Rightarrow> do {
               cleanupOrphaned D;
               modify (lockHeld_update (\<lambda>_. True));
               ret (Inr ()) } } } }"

text \<open>Release the remote lock unless it is lost: with the storage's context first, then with a fresh one.\<close>

definition release_lock :: "('w, 'c) storage_deps \<Rightarrow> (('w, 'c) S3Storage, unit) state" where
  "release_lock D = do {
     lost \<leftarrow> gets lockLost;
     if lost then ret () else do {
       e \<leftarrow> S3Lock_Unlock (api D) StorageCtx;
       case e of
         None \<Rightarrow> ret ()
       | Some _ \<Rightarrow> do {
           ctx \<leftarrow> gets (\<lambda>s. ctxWithTimeout (plat_rt (plat D)) Background (RequestTimeout (opt s)) (net s));
           S3Lock_Unlock (api D) ctx;
           ret () } } }"

definition storageLocker_Unlock :: "('w, 'c) storage_deps \<Rightarrow> (('w, 'c) S3Storage, unit) state" where
  "storageLocker_Unlock D = release_lock D"

definition Storage_Unlock :: "('w, 'c) storage_deps \<Rightarrow> (('w, 'c) S3Storage, unit) state" where
  "Storage_Unlock D = do {
     modify (lockHeld_update (\<lambda>_. False));
     release_lock D }"

section \<open>Closing\<close>

text \<open>
  \<open>Close\<close> cancels the context, closes the stop channel and waits for the background goroutine. The pass that
  the goroutine is in at that moment, if any, is finished first. After it a ticker that is due and the stop channel are both ready, and
  \<^verbatim>\<open>select\<close> may choose the ticker again any number of times, until it chooses the channel: then the goroutine
  makes its last pass and ends. The two facts of the environment are arguments: the pool of the pass under way, and the number of those
  passes.
\<close>

fun last_passes ::
  "slice_sorter \<Rightarrow> nat list \<Rightarrow> nat \<Rightarrow> ('w, 'c) storage_deps \<Rightarrow> nat \<Rightarrow> (('w, 'c) S3Storage, unit) state"
where
  "last_passes sorter sched fuel D 0 = do { backgroundRetryLoop_body sorter sched fuel D StopBranch; ret () }"
| "last_passes sorter sched fuel D (Suc n) = do {
     backgroundRetryLoop_body sorter sched fuel D TickBranch;
     last_passes sorter sched fuel D n }"

type_synonym loop_position = "retry_stage pool option \<times> nat"

definition wait_background ::
  "slice_sorter \<Rightarrow> nat list \<Rightarrow> nat \<Rightarrow> ('w, 'c) storage_deps \<Rightarrow> loop_position \<Rightarrow> (('w, 'c) S3Storage, unit) state"
where
  "wait_background sorter sched fuel D = (\<lambda>(under_way, ticks). do {
     run \<leftarrow> gets retryRunning;
     if run then do {
       (case under_way of None \<Rightarrow> ret () | Some p \<Rightarrow> do { finish_pass sched D p; ret () });
       last_passes sorter sched fuel D ticks }
     else ret () })"

text \<open>What \<open>Close\<close> does before it waits.\<close>

definition close_begin :: "('w, 'c) storage_deps \<Rightarrow> (('w, 'c) S3Storage, unit) state" where
  "close_begin D = do {
     modify (closed_update (\<lambda>_. True));
     modify (cache_update (cache_Purge (lru D)));
     on_net (\<lambda>w. ((), CancelCtx (plat_rt (plat D)) w));
     modify (retryStopped_update (\<lambda>_. True)) }"

definition Storage_Close ::
  "slice_sorter \<Rightarrow> nat list \<Rightarrow> nat \<Rightarrow> ('w, 'c) storage_deps \<Rightarrow> loop_position \<Rightarrow> (('w, 'c) S3Storage, error option) state"
where
  "Storage_Close sorter sched fuel D at = do {
     c \<leftarrow> gets closed;
     if c then ret None else do {
       close_begin D;
       wait_background sorter sched fuel D at;
       ret None } }"

section \<open>Effects\<close>

text \<open>The files of the local directory that are synchronised.\<close>

definition local_data :: "('w, 'c) S3Storage \<Rightarrow> string \<Rightarrow> bytes option" where
  "local_data s n = data_at (disk s) (filepath_Join [localDir s, n])"

definition local_file :: "('w, 'c) S3Storage \<Rightarrow> string \<Rightarrow> bool" where
  "local_file s n = (n \<noteq> [] \<and> CHR ''/'' \<notin> set n \<and> n \<noteq> ''LOCK'' \<and> n \<noteq> ''CURRENT''
     \<and> data_at (disk s) (dir_prefix (localDir s) @ n) \<noteq> None \<and> local_data s n \<noteq> None)"

text \<open>The state after the names in \<open>N\<close> have been looked at.\<close>

definition syncing ::
  "('w \<Rightarrow> string \<Rightarrow> bytes option) \<Rightarrow> ('w, 'c) S3Storage \<Rightarrow> string set \<Rightarrow> ('w, 'c) S3Storage \<Rightarrow> bool"
where
  "syncing view s N t = (same_config s t \<and> cache t = cache s \<and> data_at (disk t) = data_at (disk s)
     \<and> (faults (disk s) = [] \<longrightarrow> faults (disk t) = [])
     \<and> (\<forall>k. view (net t) k = view (net s) k \<or> local_file s k \<and> view (net t) k = local_data s k)
     \<and> (faults (disk s) = [] \<longrightarrow> (\<forall>k \<in> N. local_file s k \<longrightarrow> view (net t) k = local_data s k)))"

lemma syncing_put:
  assumes t: "syncing view s N t" and n: "local_file s n" "local_data s n = Some x" and w: "view w = (view (net t))(n \<mapsto> x)"
  shows "syncing view s (insert n N) (t\<lparr>net := w\<rparr>)" and "syncing view s N (t\<lparr>net := w\<rparr>)"
proof -
  have "view w k = view (net s) k \<or> local_file s k \<and> view w k = local_data s k" for k
    using t n w by (cases "k = n") (auto simp: syncing_def)
  moreover have "view w k = local_data s k" if "faults (disk s) = []" "k \<in> insert n N" "local_file s k" for k
    using t n w that by (cases "k = n") (auto simp: syncing_def)
  ultimately show "syncing view s (insert n N) (t\<lparr>net := w\<rparr>)" and "syncing view s N (t\<lparr>net := w\<rparr>)"
    using t by (simp_all add: syncing_def)
qed

context storage_env
begin

lemma sync_local_entry_effect:
  assumes t: "syncing view s N t" and n: "\<not> isDir \<Longrightarrow> n \<noteq> [] \<and> CHR ''/'' \<notin> set n \<and> data_at (disk s) (dir_prefix (localDir s) @ n) \<noteq> None"
    and dir: "isDir \<Longrightarrow> \<not> local_file s n"
  shows "wp (sync_local_entry D (n, isDir)) (\<lambda>r u. case r of
      None \<Rightarrow> syncing view s (insert n N) u | Some e \<Rightarrow> e \<noteq> None \<and> syncing view s N u) t"
proof -
  have skip: "syncing view s (insert n N) u" if "syncing view s N u" "faults (disk s) = [] \<Longrightarrow> \<not> local_file s n" for u
    using that by (auto simp: syncing_def)
  show ?thesis
  proof (cases "isDir \<or> n = ''LOCK'' \<or> n = ''CURRENT''")
    case True
    then have "\<not> local_file s n" using dir by (auto simp: local_file_def)
    then show ?thesis using skip [OF t] True by (simp add: sync_local_entry_def wp_return)
  next
    case False
    have path: "filepath_Join [localDir t, n] = filepath_Join [localDir s, n]" and d: "data_at (disk t) = data_at (disk s)"
      using t by (auto simp: syncing_def same_config_def)
    show ?thesis
      unfolding sync_local_entry_def prod.case if_not_P [OF False] wp_bind wp_gets path
    proof (rule wp_ReadFile_ok, goal_cases)
      case (1 x h)
      then have x: "local_data s n = Some x" using d by (simp add: local_data_def)
      then have lf: "local_file s n" using False n by (auto simp: local_file_def)
      have th: "syncing view s N (t\<lparr>disk := h\<rparr>)" using t 1 by (simp add: syncing_def)
      show ?case
        unfolding sum.case wp_bind
      proof (rule wp_put, goal_cases)
        case (1 w')
        then show ?case using syncing_put(1) [OF th lf x] by (simp add: wp_return)
      next
        case (2 e w')
        then have "syncing view s N (t\<lparr>disk := h, net := w'\<rparr>)"
          using syncing_put(2) [OF th lf x, of w'] th by (cases "view w' = view (net t)") (simp_all add: syncing_def)
        then show ?case by (simp add: wp_return)
      qed
    next
      case (2 e h)
      have "syncing view s N (t\<lparr>disk := h\<rparr>)" using t 2 by (simp add: syncing_def)
      moreover have "\<not> local_file s n" if "faults (disk s) = []"
      proof -
        have "faults (disk t) = []" using t that by (simp add: syncing_def)
        then have "local_data s n = None" using 2(2) d by (simp add: local_data_def)
        then show ?thesis by (simp add: local_file_def)
      qed
      ultimately show ?case using skip by (simp add: wp_return)
    qed
  qed
qed

lemma syncLocalToS3_effect:
  "wp (syncLocalToS3 D) (\<lambda>r t. syncing view s {} t
     \<and> (r = None \<longrightarrow> localDir s \<noteq> '''' \<longrightarrow> dir_exists (disk s) (localDir s) \<longrightarrow> syncing view s UNIV t)) s"
proof (cases "localDir s = ''''")
  case True
  then show ?thesis by (simp add: syncLocalToS3_def wp_simps syncing_def)
next
  case False
  show ?thesis
    unfolding syncLocalToS3_def wp_bind wp_gets wp_if if_not_P [OF False]
  proof (rule wp_ReadDir_ok, goal_cases)
    case (1 es h)
    let ?t = "s\<lparr>disk := h\<rparr>"
    have listed: "(n, False) \<in> set es \<longleftrightarrow> n \<noteq> [] \<and> CHR ''/'' \<notin> set n \<and> data_at (disk s) (dir_prefix (localDir s) @ n) \<noteq> None" for n
      using 1(5) by simp
    have start: "syncing view s {} ?t" using 1(1,2) by (simp add: syncing_def)
    have weak: "syncing view s N u \<Longrightarrow> syncing view s {} u" for N u by (simp add: syncing_def)
    have "wp (for_return es (sync_local_entry D)) (\<lambda>x u. case x of
        None \<Rightarrow> syncing view s (fst ` set es) u | Some e \<Rightarrow> e \<noteq> None \<and> syncing view s {} u) ?t"
    proof (rule wp_for_return_upto [where I = "\<lambda>ys. syncing view s (fst ` set ys)"], goal_cases)
      case e: (1 ys x zs u)
      obtain n b where x: "x = (n, b)" by force
      have "(n, b) \<in> set es" using e(1) x by simp
      moreover have "\<not> local_file s n" if b
      proof
        assume "local_file s n"
        then have "(n, False) \<in> set es" by (simp add: listed local_file_def)
        then show False using eq_key_imp_eq_value [OF 1(3) \<open>(n, b) \<in> set es\<close>] that by blast
      qed
      ultimately have "wp (sync_local_entry D (n, b)) (\<lambda>r v. case r of
          None \<Rightarrow> syncing view s (insert n (fst ` set ys)) v | Some e \<Rightarrow> e \<noteq> None \<and> syncing view s (fst ` set ys) v) u"
        using listed by (intro sync_local_entry_effect [OF e(2)]) auto
      then show ?case
        unfolding x by (rule wp_weaken) (auto split: option.splits intro: weak)
    qed (use start in simp_all)
    then show ?case
      unfolding sum.case wp_bind
    proof (rule wp_weaken, goal_cases)
      case (1 x u)
      have "syncing view s UNIV u" if "syncing view s (fst ` set es) u"
      proof -
        have "k \<in> fst ` set es" if "local_file s k" for k
          using that listed [of k] by (force simp: local_file_def)
        then show ?thesis using that unfolding syncing_def by blast
      qed
      then show ?case using 1 weak by (auto simp: wp_return split: option.splits)
    qed
  next
    case (2 e h)
    then have "syncing view s {} (s\<lparr>disk := h\<rparr>)" by (simp add: syncing_def)
    moreover have "syncing view s UNIV (s\<lparr>disk := h\<rparr>)" if "dir_exists (disk s) (localDir s)"
      using that 2 by (auto simp: syncing_def)
    ultimately show ?case by (simp add: wp_return)
  qed
qed

end

section \<open>The lock of a storage\<close>

text \<open>The operations of the lock change no field of the storage that contains it.\<close>

definition same_storage :: "('w, 'c) S3Storage \<Rightarrow> ('w, 'c) S3Storage \<Rightarrow> bool" where
  "same_storage s t = (lock_machine.more t = lock_machine.more s)"

lemma same_storage_fields:
  assumes "same_storage s t"
  shows "opt t = opt s" "cache t = cache s" "closed t = closed s" "localDir t = localDir s" "pendingDir t = pendingDir s"
    "retryStopped t = retryStopped s" "retryRunning t = retryRunning s" "lockLost t = lockLost s" "lockHeld t = lockHeld s"
    "shadowPrefix t = shadowPrefix s" "monitors t = monitors s" "warnings t = warnings s"
  using assms by (cases s; cases t; simp add: same_storage_def)+

lemma same_storage_upd [simp]:
  "same_storage s (t\<lparr>net := w\<rparr>) = same_storage s t" "same_storage s (t\<lparr>disk := h\<rparr>) = same_storage s t"
  "same_storage s (s3Lock_update f t) = same_storage s t" "same_storage s s"
  by (cases t; simp add: same_storage_def)+

lemma wp_net_storage: "same_storage s t \<Longrightarrow> (\<And>r u. same_storage s u \<Longrightarrow> Q r u) \<Longrightarrow> wp (on_net f) Q t"
  by (simp add: wp_on_net split: prod.split)

lemma wp_disk_storage: "same_storage s t \<Longrightarrow> (\<And>r u. same_storage s u \<Longrightarrow> Q r u) \<Longrightarrow> wp (on_disk f) Q t"
  by (simp add: wp_on_disk split: prod.split)

lemma acquireLock_storage:
  "same_storage s t \<Longrightarrow> wp (acquireLock a c q) (\<lambda>_. same_storage s) t"
  unfolding acquireLock_def
  by (auto simp: wp_simps wp_fun split: sum.split option.split intro!: wp_disk_storage [of s] wp_net_storage [of s])

lemma check_remote_lock_storage:
  "same_storage s t \<Longrightarrow> wp (check_remote_lock a p c q e) (\<lambda>_. same_storage s) t"
  unfolding check_remote_lock_def isLockHolder_def
  by (auto simp: wp_simps wp_fun split: sum.split option.split intro!: wp_disk_storage [of s] wp_net_storage [of s])

lemma S3Lock_Lock_storage: "wp (S3Lock_Lock a p c) (\<lambda>_. same_storage s) s"
proof -
  have "wp (lock_remote a p c q e) (\<lambda>_. same_storage s) t" if "same_storage s t" for q e t
    unfolding lock_remote_def startLeaseRenewal_def
    by (auto simp: wp_simps wp_fun that split: sum.split option.split
        intro!: wp_net_storage [of s] wp_weaken [OF acquireLock_storage] wp_weaken [OF check_remote_lock_storage])
  then show ?thesis
    unfolding S3Lock_Lock_def randomInt_def
    by (auto simp: wp_simps wp_fun split: option.split intro!: wp_disk_storage [of s] wp_net_storage [of s])
qed

lemma S3Lock_Unlock_storage: "wp (S3Lock_Unlock a c) (\<lambda>_. same_storage s) s"
  unfolding S3Lock_Unlock_def releaseRemoteLock_def
  by (auto simp: wp_simps wp_fun split: option.split intro!: wp_disk_storage [of s] wp_net_storage [of s])

text \<open>What releasing does: nothing when the lock is lost, otherwise at most the removal of the lock.\<close>

definition released :: "('w \<Rightarrow> string \<Rightarrow> bytes option) \<Rightarrow> ('w, 'c) S3Storage \<Rightarrow> ('w, 'c) S3Storage \<Rightarrow> bool" where
  "released view s t =
     (if lockLost s then t = s
      else same_storage s t \<and> stopClosed (s3Lock t)
        \<and> (\<forall>k. k \<noteq> ''LOCK'' \<longrightarrow> view (net t) k = view (net s) k)
        \<and> view (net t) ''LOCK'' \<in> {view (net s) ''LOCK'', None}
        \<and> (\<forall>q. q \<noteq> lock_path (lk_opt (s3Lock s)) \<longrightarrow> data_at (disk t) q = data_at (disk s) q))"

context storage_env
begin

lemma S3Lock_Unlock_released:
  assumes "\<not> lockLost s"
  shows "wp (S3Lock_Unlock (api D) c) (\<lambda>r t. released view s t \<and> (r = None \<longrightarrow> view (net t) ''LOCK'' = None)
    \<and> lk_opt (s3Lock t) = lk_opt (s3Lock s)) s"
proof -
  have "wp (S3Lock_Unlock (api D) c) (\<lambda>r t. same_storage s t \<and> (s3Lock t = (s3Lock s)\<lparr>stopClosed := True\<rparr>
     \<and> (\<forall>k. k \<noteq> ''LOCK'' \<longrightarrow> view (net t) k = view (net s) k)
     \<and> (\<forall>x. x \<noteq> lock_path (lk_opt (s3Lock s)) \<longrightarrow> data_at (disk t) x = data_at (disk s) x)
     \<and> (view (net t) = view (net s) \<or> view (net t) ''LOCK'' = None)
     \<and> (r = None \<longrightarrow> view (net t) ''LOCK'' = None)
     \<and> (r \<noteq> None \<longrightarrow> data_at (disk t) = data_at (disk s)))) s"
    unfolding wp_conj [of _ "\<lambda>_. same_storage s"] using S3Lock_Unlock_storage Unlock_effect [of c s] by blast
  then show ?thesis by (rule wp_weaken) (use assms in \<open>auto simp: released_def\<close>)
qed

lemma release_lock_effect: "wp (release_lock D) (\<lambda>_. released view s) s"
proof (cases "lockLost s")
  case True
  then show ?thesis by (simp add: release_lock_def wp_simps released_def)
next
  case False
  show ?thesis
    unfolding release_lock_def wp_bind wp_gets wp_if if_not_P [OF False]
  proof (rule wp_weaken [OF S3Lock_Unlock_released [OF False]], goal_cases)
    case (1 r t)
    then have lost: "\<not> lockLost t" using False same_storage_fields [of s t] by (simp add: released_def)
    show ?case
    proof (cases r)
      case None
      then show ?thesis using 1 by (simp add: wp_return)
    next
      case (Some e)
      show ?thesis
        unfolding Some option.case wp_bind wp_gets
        by (rule wp_weaken [OF S3Lock_Unlock_released [OF lost]])
          (use 1 False lost in \<open>auto simp: released_def same_storage_def wp_return\<close>)
    qed
  qed
qed

end

context storage_env
begin

lemma S3Lock_Unlock_exact:
  fixes s :: "('w, 'c) S3Storage"
  shows "wp (S3Lock_Unlock (api D) c) (\<lambda>r t. net t = snd (api_Remove (api D) c ''LOCK'' (net s))
     \<and> (r = None \<longleftrightarrow> fst (api_Remove (api D) c ''LOCK'' (net s)) = None)
     \<and> (r = None \<longrightarrow> view (net t) ''LOCK'' = None
          \<and> (faults (disk s) = [] \<longrightarrow> data_at (disk t) (lock_path (lk_opt (s3Lock s))) = None))
     \<and> (r \<noteq> None \<longrightarrow> disk t = disk s) \<and> stopClosed (s3Lock t) \<and> lk_opt (s3Lock t) = lk_opt (s3Lock s)) s"
proof -
  have rest: "wp (releaseRemoteLock (api D) c) (\<lambda>e. wp (case e of
        Some err \<Rightarrow> ret (Some (Wrapf ''failed to release remote lock'' err))
      | None \<Rightarrow> do {
          localLockPath \<leftarrow> gets (\<lambda>m. lock_path (lk_opt (s3Lock m)));
          on_disk (os_Remove localLockPath);
          ret None }) (\<lambda>r t. net t = snd (api_Remove (api D) c ''LOCK'' (net s))
     \<and> (r = None \<longleftrightarrow> fst (api_Remove (api D) c ''LOCK'' (net s)) = None)
     \<and> (r = None \<longrightarrow> view (net t) ''LOCK'' = None
          \<and> (faults (disk s) = [] \<longrightarrow> data_at (disk t) (lock_path (lk_opt (s3Lock s))) = None))
     \<and> (r \<noteq> None \<longrightarrow> disk t = disk s) \<and> stopClosed (s3Lock t) \<and> lk_opt (s3Lock t) = lk_opt (s3Lock s))) u"
    if "stopClosed (s3Lock u)" "net u = net s" "disk u = disk s" "lk_opt (s3Lock u) = lk_opt (s3Lock s)" for u :: "('w, 'c) S3Storage"
    unfolding releaseRemoteLock_def
    by (rule wp_on_net_exact, rule wp_remove) (use that in \<open>auto simp: wp_simps intro!: wp_Remove_ok\<close>)
  show ?thesis
    unfolding S3Lock_Unlock_def wp_bind wp_gets wp_if wp_modify wp_return by (auto intro!: rest simp del: not_None_eq)
qed

end

text \<open>The two requests by which the lock is released: the second, with a context of its own, only if the first fails.\<close>

definition release_requests :: "('w, 'c) storage_deps \<Rightarrow> ('w, 'c) S3Storage \<Rightarrow> error option \<times> 'w" where
  "release_requests D s =
     (case api_Remove (api D) StorageCtx ''LOCK'' (net s) of
        (None, w) \<Rightarrow> (None, w)
      | (Some _, w) \<Rightarrow> api_Remove (api D) (ctxWithTimeout (plat_rt (plat D)) Background (RequestTimeout (opt s)) w) ''LOCK'' w)"

context storage_env
begin

lemma release_lock_exact:
  assumes "\<not> lockLost s"
  shows "wp (release_lock D) (\<lambda>_ t. net t = snd (release_requests D s) \<and> stopClosed (s3Lock t)
     \<and> (fst (release_requests D s) = None \<longrightarrow> view (net t) ''LOCK'' = None
          \<and> (faults (disk s) = [] \<longrightarrow> data_at (disk t) (lock_path (lk_opt (s3Lock s))) = None))
     \<and> (fst (release_requests D s) \<noteq> None \<longrightarrow> disk t = disk s)) s"
proof -
  have one: "wp (S3Lock_Unlock (api D) c) Q u"
    if "\<And>r t. (same_storage u t \<and> net t = snd (api_Remove (api D) c ''LOCK'' (net u))
     \<and> (r = None \<longleftrightarrow> fst (api_Remove (api D) c ''LOCK'' (net u)) = None)
     \<and> (r = None \<longrightarrow> view (net t) ''LOCK'' = None
          \<and> (faults (disk u) = [] \<longrightarrow> data_at (disk t) (lock_path (lk_opt (s3Lock u))) = None))
     \<and> (r \<noteq> None \<longrightarrow> disk t = disk u) \<and> stopClosed (s3Lock t) \<and> lk_opt (s3Lock t) = lk_opt (s3Lock u)) \<Longrightarrow> Q r t" for c Q and u :: "('w, 'c) S3Storage"
  proof (rule wp_weaken)
    show "wp (S3Lock_Unlock (api D) c) (\<lambda>r t. same_storage u t \<and> (net t = snd (api_Remove (api D) c ''LOCK'' (net u))
     \<and> (r = None \<longleftrightarrow> fst (api_Remove (api D) c ''LOCK'' (net u)) = None)
     \<and> (r = None \<longrightarrow> view (net t) ''LOCK'' = None
          \<and> (faults (disk u) = [] \<longrightarrow> data_at (disk t) (lock_path (lk_opt (s3Lock u))) = None))
     \<and> (r \<noteq> None \<longrightarrow> disk t = disk u) \<and> stopClosed (s3Lock t) \<and> lk_opt (s3Lock t) = lk_opt (s3Lock u))) u"
      unfolding wp_conj [of _ "\<lambda>_. same_storage u"] by (intro conjI S3Lock_Unlock_storage S3Lock_Unlock_exact)
  qed (rule that)
  show ?thesis
    unfolding release_lock_def wp_bind wp_gets wp_if if_not_P [OF assms]
  proof (rule one, goal_cases)
    case (1 r t)
    show ?case
    proof (cases r)
      case None
      then show ?thesis using 1 by (cases "api_Remove (api D) StorageCtx ''LOCK'' (net s)") (simp add: wp_return release_requests_def)
    next
      case (Some e)
      then have f: "fst (api_Remove (api D) StorageCtx ''LOCK'' (net s)) \<noteq> None" "net t = snd (api_Remove (api D) StorageCtx ''LOCK'' (net s))"
        "disk t = disk s" "opt t = opt s" "lk_opt (s3Lock t) = lk_opt (s3Lock s)"
        using 1 same_storage_fields [of s t] by auto
      then have q: "release_requests D s = api_Remove (api D) (ctxWithTimeout (plat_rt (plat D)) Background (RequestTimeout (opt t)) (net t)) ''LOCK'' (net t)"
        by (cases "api_Remove (api D) StorageCtx ''LOCK'' (net s)") (auto simp: release_requests_def)
      show ?thesis
        unfolding Some option.case wp_bind wp_gets
        by (rule one) (use f q in \<open>auto simp: wp_return\<close>)
    qed
  qed
qed

end

lemma release_lock_unheld:
  "run_state (release_lock D) (lockHeld_update f s) = map_prod id (lockHeld_update f) (run_state (release_lock D) s)"
  unfolding release_lock_def S3Lock_Unlock_def releaseRemoteLock_def
  by (simp add: on_net_def on_disk_def gets_def modify_def split: prod.split option.split)

context recovery_env
begin

text \<open>The recovery of the pending files does not touch the lock object.\<close>

lemma recover_files_lock:
  assumes "reading u UNIV es t" and "clean_dir (pendingDir u)"
  shows "wp (recover_files sched D es) (\<lambda>_ v. same_config u v \<and> view (net v) ''LOCK'' = view (net u) ''LOCK'') t"
proof (rule wp_weaken [OF recover_files_effect], goal_cases)
  case 1
  show ?case using reading_good [OF assms] by blast
next
  case 2
  show ?case using reading_good [OF assms] by blast
next
  case (3 p v)
  have t: "same_config u t" "net t = net u" using assms(1) disk_only_fields [of u t] by (simp_all add: reading_def)
  have "pe_name f \<noteq> ''LOCK''" and "shadow_key t (pe_name f) \<noteq> ''LOCK''" if "f \<in> set es" for f
  proof -
    have "pe_name f \<in> pending_names u" using assms(1) that by (auto simp: reading_def)
    moreover have "parseFileDesc ''LOCK'' = None" by (simp add: fmt_simps)
    ultimately show "pe_name f \<noteq> ''LOCK''" by (auto simp: pending_names_def)
    have "CHR ''/'' \<in> set (shadow_key t (pe_name f))" by (simp add: shadow_key_def)
    then show "shadow_key t (pe_name f) \<noteq> ''LOCK''" by auto
  qed
  then have "\<forall>f \<in> set es. ''LOCK'' \<noteq> pe_name f \<and> ''LOCK'' \<noteq> shadow_key t (pe_name f)" by metis
  moreover have "\<forall>k. (\<forall>f \<in> set es. k \<noteq> pe_name f \<and> k \<noteq> shadow_key t (pe_name f)) \<longrightarrow> view (net v) k = view (net t) k"
    using 3 by (simp add: recovering_def)
  ultimately have "view (net v) ''LOCK'' = view (net t) ''LOCK''" by blast
  then show ?case using 3 t by (auto simp: recovering_def intro: same_config_trans)
qed

lemma syncPendingToS3_lock:
  assumes dir: "pendingDir s = '''' \<or> clean_dir (pendingDir s)"
  shows "wp (syncPendingToS3 sorter sched D) (\<lambda>_ t. same_config s t \<and> view (net t) ''LOCK'' = view (net s) ''LOCK'') s"
    (is "wp _ ?Q s")
proof (cases "pendingDir s = ''''")
  case True
  then show ?thesis by (simp add: syncPendingToS3_def wp_simps)
next
  case False
  then have cd: "clean_dir (pendingDir s)" using dir by simp
  show ?thesis
    unfolding syncPendingToS3_def wp_bind wp_gets wp_if if_not_P [OF False]
  proof (rule wp_weaken [OF syncFromShadow_effect], goal_cases)
    case (1 x u)
    then have u: "same_config s u" "view (net u) = view (net s)" by (simp_all add: restored_def)
    have pd: "pendingDir u = pendingDir s" using u by (simp add: same_config_def)
    show ?case
    proof (rule wp_weaken [OF readPendingFiles_effect], goal_cases)
      case 1
      show ?case using cd pd by simp
    next
      case (2 r t)
      then have "disk_only u t" by (auto simp: files_read_def unread_def reading_def split: sum.splits)
      then have t: "?Q undefined t" using u disk_only_fields [of u t] by (auto intro: same_config_trans)
      show ?case
      proof (cases "\<exists>es. r = Inr es \<and> es \<noteq> []")
        case True
        then obtain es where es: "r = Inr es" "es \<noteq> []" by blast
        then have rd: "reading u UNIV es t" using 2 by (auto simp: files_read_def)
        have cu: "clean_dir (pendingDir u)" using cd pd by simp
        show ?thesis
          unfolding es(1) sum.case if_not_P [OF es(2)] wp_bind
          by (rule wp_weaken [OF recover_files_lock [OF rd cu]]) (use u in \<open>auto simp: wp_return intro: same_config_trans\<close>)
      next
        case False
        then show ?thesis using t by (cases r) (auto simp: wp_return wp_if)
      qed
    qed
  qed
qed

end

text \<open>The outcome of \<open>Lock\<close> for the flags and for the lock object.\<close>

definition storage_locked ::
  "('w, 'c) storage_deps \<Rightarrow> ('w \<Rightarrow> string \<Rightarrow> bytes option) \<Rightarrow> ('w, 'c) S3Storage \<Rightarrow> error + unit
     \<Rightarrow> ('w, 'c) S3Storage \<Rightarrow> bool"
where
  "storage_locked D view s r t =
     (if closed s then r = Inl StorageErrClosed \<and> t = s
      else closed t = closed s \<and> lockLost t = lockLost s
        \<and> (case r of
             Inr _ \<Rightarrow> lockHeld t \<and> monitors t = Suc (monitors s)
               \<and> view (net t) ''LOCK'' = Some (lockID (s3Lock t)) \<and> StorageCtx \<in> set (renewals (s3Lock t))
               \<and> takeable (stale_for_Lock (api D) (plat D) StorageCtx (lk_opt (s3Lock s)) (net s)) (lk_opt (s3Lock s))
                    (view (net s)) (data_at (disk s))
           | Inl _ \<Rightarrow> lockHeld t = lockHeld s))"

context storage_env
begin

lemma cleaned_lock:
  assumes "cleaned D view content s r t"
  shows "same_config s t" and "view (net t) ''LOCK'' = view (net s) ''LOCK''"
proof -
  have "same_config s t \<and> view (net t) ''LOCK'' = view (net s) ''LOCK''"
    using assms unfolding cleaned_def
  proof (elim disjE exE conjE)
    assume "repaired D view s t"
    then obtain fd where "current_fd (view (net t)) = Some fd" and w: "within view {''CURRENT'', fdString D fd} (pending_files s (fdString D fd)) s t"
      by (auto simp: repaired_def)
    then have "fdString D fd \<noteq> ''LOCK''" using parsed_not_meta by (auto simp: current_fd_def split: option.splits)
    then show ?thesis using w by (auto simp: within_def)
  next
    fix u assume "attempted D view s u" and w: "wiped D view content u r t"
    then obtain n where "db_key D n" "within view {''CURRENT'', n} {} s u" by (auto simp: attempted_def)
    moreover have "n \<noteq> ''LOCK''" using \<open>db_key D n\<close> lock_not_db by metis
    ultimately have "same_config s u \<and> view (net u) ''LOCK'' = view (net s) ''LOCK''" by (auto simp: within_def)
    moreover have "same_config u t \<and> view (net t) ''LOCK'' = view (net u) ''LOCK''"
      using w lock_not_db by (auto simp: wiped_def shrunk_def split: if_splits)
    ultimately show ?thesis by (auto intro: same_config_trans)
  qed (simp add: untouched_def)
  then show "same_config s t" and "view (net t) ''LOCK'' = view (net s) ''LOCK''" by simp_all
qed

lemma syncing_lock: "syncing view s N t \<Longrightarrow> same_config s t \<and> view (net t) ''LOCK'' = view (net s) ''LOCK''"
  by (auto simp: syncing_def local_file_def)

end

context recovery_env
begin

lemma Storage_Lock_effect:
  assumes dir: "pendingDir s = '''' \<or> clean_dir (pendingDir s)"
  shows "wp (Storage_Lock sorter sched D) (storage_locked D view s) s"
proof (cases "closed s")
  case True
  then show ?thesis by (simp add: Storage_Lock_def wp_simps storage_locked_def)
next
  case False
  have lock: "wp (S3Lock_Lock (api D) (plat D) StorageCtx) (\<lambda>r t. same_storage s t \<and> locked (api D) view (plat D) StorageCtx s r t) s"
    by (simp add: wp_conj Lock_effect S3Lock_Lock_storage)
  show ?thesis
    unfolding Storage_Lock_def wp_bind [of "gets _"] wp_gets wp_if if_not_P [OF False] wp_bind [of "S3Lock_Lock _ _ _"]
  proof (rule wp_weaken [OF lock], goal_cases)
    case (1 r t)
    note st = same_storage_fields [OF conjunct1 [OF 1]]
    show ?case
    proof (cases r)
      case (Some e)
      then show ?thesis using st False by (simp add: wp_return storage_locked_def)
    next
      case None
      let ?t = "monitors_update Suc t"
      have lk: "view (net t) ''LOCK'' = Some (lockID (s3Lock t))" "StorageCtx \<in> set (renewals (s3Lock t))"
        "takeable (stale_for_Lock (api D) (plat D) StorageCtx (lk_opt (s3Lock s)) (net s)) (lk_opt (s3Lock s))
                    (view (net s)) (data_at (disk s))"
      proof -
        have l: "locked (api D) view (plat D) StorageCtx s None t" using 1 None by simp
        then show "view (net t) ''LOCK'' = Some (lockID (s3Lock t))"
          and "takeable (stale_for_Lock (api D) (plat D) StorageCtx (lk_opt (s3Lock s)) (net s)) (lk_opt (s3Lock s))
                    (view (net s)) (data_at (disk s))"
          by (simp_all add: locked_def lock_written_def)
        have "s3Lock t = (s3Lock s)\<lparr>lockID := lockID (s3Lock t), renewals := StorageCtx # renewals (s3Lock s)\<rparr>"
          using l by (simp add: locked_def)
        from arg_cong [OF this, of renewals] show "StorageCtx \<in> set (renewals (s3Lock t))" by simp
      qed
      let ?K = "\<lambda>u. same_config ?t u \<and> view (net u) ''LOCK'' = view (net t) ''LOCK''"
      have pend: "wp (syncPendingToS3 sorter sched D) (\<lambda>_. ?K) ?t"
        using syncPendingToS3_lock [of ?t] dir st by simp
      show ?thesis
        unfolding None option.case startLeaseMonitoring_def wp_bind wp_modify
      proof (rule wp_weaken [OF pend], goal_cases)
        case k: (1 x u)
        show ?case
        proof (rule wp_weaken [OF syncLocalToS3_effect], goal_cases)
          case (1 e v)
          have v: "?K v" using k syncing_lock [OF conjunct1 [OF 1]] by (auto intro: same_config_trans)
          show ?case
          proof (cases e)
            case (Some err)
            have "lockHeld v = lockHeld s \<and> lockLost v = lockLost s \<and> closed v = closed s"
              using v st by (simp add: same_config_def)
            then show ?thesis
              unfolding Some option.case wp_bind
              by (intro wp_weaken [OF S3Lock_Unlock_storage])
                (auto simp: wp_return storage_locked_def False dest: same_storage_fields)
          next
            case None
            show ?thesis
              unfolding None option.case wp_bind wp_modify wp_return
            proof (rule wp_weaken [OF cleanupOrphaned_effect], goal_cases)
              case (1 y z)
              have z: "?K z" using v cleaned_lock [OF 1] by (auto intro: same_config_trans)
              then show ?case
                using st lk False by (simp add: storage_locked_def same_config_def)
            qed
          qed
        qed
      qed
    qed
  qed
qed

end

section \<open>Closing a storage\<close>

lemma same_files_trans: "same_files s t \<Longrightarrow> same_files t u \<Longrightarrow> same_files s u"
  by (auto simp: same_files_def intro: same_config_trans)

text \<open>
  A last pass changes nothing but corrupt files of the pending directory and their checksums, which it deletes; and
  deleting files makes no other file corrupt.
\<close>

definition only_corrupt_gone :: "('w, 'c) S3Storage \<Rightarrow> ('w, 'c) S3Storage \<Rightarrow> bool" where
  "only_corrupt_gone s t = (net t = net s \<and> cache t = cache s \<and> closed t = closed s \<and> retryStopped t = retryStopped s
     \<and> pendingDir t = pendingDir s
     \<and> (\<forall>q. data_at (disk t) q = data_at (disk s) q
          \<or> data_at (disk t) q = None \<and> (\<exists>n \<in> corrupt_names s. q \<in> entry_files s n)))"

lemma corrupt_shrinks:
  assumes "pendingDir t = pendingDir s" and "\<And>q. data_at (disk t) q = data_at (disk s) q \<or> data_at (disk t) q = None"
  shows "corrupt_names t \<subseteq> corrupt_names s" and "entry_files t n = entry_files s n"
proof -
  have d: "pending_data t m = pending_data s m \<or> pending_data t m = None" for m
    using assms by (simp add: pending_data_def)
  show "corrupt_names t \<subseteq> corrupt_names s"
  proof
    fix m assume m: "m \<in> corrupt_names t"
    then have "pending_data t m = pending_data s m" using d [of m] by (auto simp: corrupt_names_def pending_names_def)
    with m d [of "m @ ''.cksum''"] show "m \<in> corrupt_names s"
      by (auto simp: corrupt_names_def pending_names_def intact_def)
  qed
  show "entry_files t n = entry_files s n" using assms(1) by (simp add: entry_files_def)
qed

lemma only_corrupt_gone_trans:
  assumes "only_corrupt_gone s t" and "only_corrupt_gone t u"
  shows "only_corrupt_gone s u"
proof -
  have d: "data_at (disk t) q = data_at (disk s) q \<or> data_at (disk t) q = None" for q
    using assms(1) unfolding only_corrupt_gone_def by metis
  have "pendingDir t = pendingDir s" using assms(1) by (simp add: only_corrupt_gone_def)
  note sh = corrupt_shrinks [OF this d]
  have q: "data_at (disk u) q = data_at (disk s) q \<or> data_at (disk u) q = None \<and> (\<exists>n \<in> corrupt_names s. q \<in> entry_files s n)" for q
    using assms sh unfolding only_corrupt_gone_def by (metis subsetD)
  then show ?thesis using assms by (simp add: only_corrupt_gone_def)
qed

context slice_sort
begin

lemma stop_body_effect:
  assumes "retryStopped s" and "pendingDir s = '''' \<or> clean_dir (pendingDir s)"
  shows "wp (backgroundRetryLoop_body sorter sched fuel D br) (\<lambda>_ t. only_corrupt_gone s t
     \<and> (br = StopBranch \<longrightarrow> \<not> retryRunning t)) s"
proof -
  have pass: "wp (retryPendingFilesOnce sorter sched fuel D) (\<lambda>p t. only_corrupt_gone s t) u"
    if u: "same_files s u" for u
  proof -
    have st: "retryStopped u" and dir: "pendingDir u = '''' \<or> clean_dir (pendingDir u)"
      using assms same_files_pending [OF u] by simp_all
    have names: "corrupt_names u = corrupt_names s" "\<And>n. entry_files u n = entry_files s n"
      using same_files_pending [OF u] by simp_all
    have "net u = net s" "cache u = cache s" "same_config s u" "data_at (disk u) = data_at (disk s)"
      using u by (simp_all add: same_files_def)
    then have "only_corrupt_gone u t \<Longrightarrow> only_corrupt_gone s t" for t
      unfolding only_corrupt_gone_def names by (simp add: same_config_def)
    moreover have "disk_only u t \<Longrightarrow> \<forall>q. data_at (disk t) q = data_at (disk u) q
          \<or> data_at (disk t) q = None \<and> (\<exists>n \<in> corrupt_names u. q \<in> entry_files u n) \<Longrightarrow> only_corrupt_gone u t" for t
      using disk_only_fields [of u t] by (simp add: only_corrupt_gone_def same_config_def)
    ultimately show ?thesis
      by (intro wp_weaken [OF stopped_pass [OF st dir]]) blast
  qed
  have upd: "only_corrupt_gone s (retryRunning_update f t) = only_corrupt_gone s t" for f t
    by (simp add: only_corrupt_gone_def)
  show ?thesis
    unfolding backgroundRetryLoop_body_def wp_bind
    by (rule wp_weaken [OF checkPendingPressure_effect], rule wp_weaken [OF pass])
      (auto simp: wp_simps upd split: loop_branch.split)
qed

lemma last_passes_effect:
  assumes "retryStopped s" and "pendingDir s = '''' \<or> clean_dir (pendingDir s)"
  shows "wp (last_passes sorter sched fuel D n) (\<lambda>_ t. only_corrupt_gone s t \<and> \<not> retryRunning t) s"
  using assms
proof (induction n arbitrary: s)
  case 0
  then show ?case unfolding last_passes.simps wp_bind by (intro wp_weaken [OF stop_body_effect]) (simp_all add: wp_return)
next
  case (Suc n)
  show ?case
    unfolding last_passes.simps wp_bind
  proof (rule wp_weaken [OF stop_body_effect [OF Suc.prems]], goal_cases)
    case (1 r t)
    then have t: "only_corrupt_gone s t" by simp
    then have "retryStopped t" "pendingDir t = '''' \<or> clean_dir (pendingDir t)" using Suc.prems by (auto simp: only_corrupt_gone_def)
    from Suc.IH [OF this] show ?case by (rule wp_weaken) (use only_corrupt_gone_trans [OF t] in blast)
  qed
qed

end

text \<open>
  A pass under way when \<open>Close\<close> is called: the files it was started for, each with its data in the pending directory until
  it is in the object. This is what \<open>recovering\<close> says of every moment of a pass.
\<close>

definition pass_under_way ::
  "('w, 'c) storage_deps \<Rightarrow> ('w \<Rightarrow> string \<Rightarrow> bytes option) \<Rightarrow> ('w, 'c) S3Storage \<Rightarrow> retry_stage pool \<Rightarrow> bool"
where
  "pass_under_way D view s p = (\<exists>files. good_files s files \<and> recovering uploading view s files p s
     \<and> (\<forall>f \<in> set files. fdString D (pe_fd f) = pe_name f \<and> data_at (disk s) (pe_localPath f) \<in> {None, Some (pe_data f)}))"

text \<open>
  What \<open>Close\<close> does: objects change only through the uploads that were in flight, files only by these and by the removal of corrupt ones, and no
  intact pending file is lost.
\<close>

definition closed_down ::
  "('w, 'c) storage_deps \<Rightarrow> ('w \<Rightarrow> string \<Rightarrow> bytes option) \<Rightarrow> ('c \<Rightarrow> string \<Rightarrow> memFile option) \<Rightarrow> retry_stage pool option
     \<Rightarrow> ('w, 'c) S3Storage \<Rightarrow> ('w, 'c) S3Storage \<Rightarrow> bool"
where
  "closed_down D view content under_way s t =
     (let B = (case under_way of None \<Rightarrow> {} | Some p \<Rightarrow> begun p) in
        closed t \<and> retryStopped t \<and> \<not> retryRunning t \<and> pendingDir t = pendingDir s \<and> (\<forall>k. content (cache t) k = None)
      \<and> (\<forall>k. view (net t) k = view (net s) k
           \<or> (\<exists>f \<in> B. k = pe_name f \<and> view (net t) k = Some (pe_data f) \<or> k = shadow_key s (pe_name f) \<and> view (net t) k = None))
      \<and> (\<forall>q. data_at (disk t) q = data_at (disk s) q
           \<or> data_at (disk t) q = None \<and> (\<exists>n \<in> corrupt_names s \<union> pe_name ` B. q \<in> entry_files s n))
      \<and> (\<forall>n \<in> pending_names s. intact s n \<longrightarrow> pending_data t n = pending_data s n \<or> view (net t) n = pending_data s n)
      \<and> (under_way = None \<longrightarrow> net t = CancelCtx (plat_rt (plat D)) (net s)))"

context recovery_env
begin

lemma finish_pass_result:
  assumes quiet: "\<And>d w. view (snd (SelectAfter (plat_rt (plat D)) Background d w)) = view w"
    and stop: "retryStopped s" and p: "pass_under_way D view s p"
  shows "wp (finish_pass sched D p) (\<lambda>_ t. flown view (begun p) s t
     \<and> (\<forall>f \<in> begun p. pe_localPath f = dir_prefix (pendingDir s) @ pe_name f)
     \<and> (\<forall>n \<in> pending_names s. pending_data t n = pending_data s n \<or> view (net t) n = pending_data s n)) s"
proof -
  obtain files where good: "good_files s files" and rec: "recovering uploading view s files p s"
    and names: "\<forall>f \<in> set files. fdString D (pe_fd f) = pe_name f"
    and data: "\<forall>f \<in> set files. data_at (disk s) (pe_localPath f) \<in> {None, Some (pe_data f)}"
    using p by (auto simp: pass_under_way_def)
  have "set (waiting p) \<union> fst ` set (running p) \<subseteq> set files" using rec by (auto simp: recovering_def)
  then have "\<forall>f \<in> set (waiting p) \<union> fst ` set (running p). fdString D (pe_fd f) = pe_name f" and sub: "begun p \<subseteq> set files"
    using names by (auto simp: begun_def)
  then have flight: "wp (finish_pass sched D p) (\<lambda>p' t. flown view (begun p) s t) s" by (intro finish_pass_flight stop)
  have "wp (finish_pass sched D p) (recovering uploading view s files) s"
    unfolding finish_pass_def
    by (simp add: wp_simps) (rule upload_task.pool_effect_from [OF retry_upload_task [OF quiet] good names upload_concurrency_pos rec])
  with flight have "wp (finish_pass sched D p) (\<lambda>p' t. flown view (begun p) s t \<and> recovering uploading view s files p' t) s"
    by (simp add: wp_conj)
  then show ?thesis
  proof (rule wp_weaken, goal_cases)
    case (1 p' t)
    have lp: "pe_localPath f = dir_prefix (pendingDir s) @ pe_name f" "\<not> HasSuffix (pe_name f) ''.cksum''" if "f \<in> set files" for f
      using good that by (simp_all add: good_files_def)
    have "pending_data t n = pending_data s n \<or> view (net t) n = pending_data s n" if n: "n \<in> pending_names s" for n
    proof (cases "pending_data t n = pending_data s n")
      case False
      have "\<not> HasSuffix n ''.cksum''" using n by (simp add: pending_names_def)
      moreover obtain f where f: "f \<in> begun p" "dir_prefix (pendingDir s) @ n \<in> {pe_localPath f, pe_localPath f @ ''.cksum''}"
        and gone: "pending_data t n = None"
        using False 1 by (auto simp: flown_def pending_data_def same_config_def)
      ultimately have nf: "n = pe_name f" using lp [of f] sub cksum_suffix by auto
      have "\<not> kept t f" using gone nf lp [of f] f(1) sub 1 by (auto simp: kept_def pending_data_def flown_def same_config_def)
      then have "stored view t f" using recovering_kept [of uploading view s files p' t f] good 1 f(1) sub by blast
      moreover have ff: "f \<in> set files" using f(1) sub by blast
      have "pending_data s n \<noteq> None" using n by (simp add: pending_names_def)
      then have "pending_data s n = Some (pe_data f)" using bspec [OF data ff] lp(1) [OF ff] nf by (auto simp: pending_data_def)
      ultimately show ?thesis using nf by (simp add: stored_def)
    qed simp
    then show ?case using 1 lp sub by blast
  qed
qed

lemma Storage_Close_effect:
  assumes quiet: "\<And>d w. view (snd (SelectAfter (plat_rt (plat D)) Background d w)) = view w"
    and dir: "pendingDir s = '''' \<or> clean_dir (pendingDir s)" and run: "retryRunning s = (pendingDir s \<noteq> '''')"
    and p: "case under_way of None \<Rightarrow> True | Some p \<Rightarrow> pass_under_way D view s p"
  shows "wp (Storage_Close sorter sched fuel D (under_way, ticks))
     (\<lambda>r t. r = None \<and> (if closed s then t = s else closed_down D view content (if retryRunning s then under_way else None) s t)) s"
proof (cases "closed s")
  case True
  then show ?thesis by (simp add: Storage_Close_def wp_simps)
next
  case False
  let ?t = "(cache_update (cache_Purge (lru D)) (s\<lparr>closed := True\<rparr>))
      \<lparr>net := CancelCtx (plat_rt (plat D)) (net s), retryStopped := True\<rparr>"
  let ?B = "case under_way of None \<Rightarrow> {} | Some p \<Rightarrow> begun p"
  have names: "corrupt_names ?t = corrupt_names s" "entry_files ?t n = entry_files s n" "pending_names ?t = pending_names s"
    "pending_data ?t n = pending_data s n" "shadow_key ?t n = shadow_key s n" for n
    by (simp_all add: corrupt_names_def pending_names_def intact_def entry_files_def pending_data_def shadow_key_def)
  have vw: "view (net ?t) = view (net s)" by (simp add: cancel_quiet)
  have last: "wp (last_passes sorter sched fuel D ticks) (\<lambda>_ t. closed_down D view content under_way s t) u"
    if u: "flown view ?B ?t u" "under_way = None \<longrightarrow> u = ?t" "\<forall>f \<in> ?B. pe_localPath f = dir_prefix (pendingDir s) @ pe_name f"
      "\<forall>n \<in> pending_names s. pending_data u n = pending_data s n \<or> view (net u) n = pending_data s n" for u
  proof -
    have c: "same_config ?t u" "cache u = cache ?t" and dt: "data_at (disk u) q = data_at (disk s) q
          \<or> data_at (disk u) q = None \<and> (\<exists>f \<in> ?B. q = pe_localPath f \<or> q = pe_localPath f @ ''.cksum'')" for q
      using u(1) unfolding flown_def by simp_all
    have pd: "pendingDir u = pendingDir s" using c(1) by (simp add: same_config_def)
    have st: "retryStopped u" "pendingDir u = '''' \<or> clean_dir (pendingDir u)" "closed u"
      using c(1) dir by (simp_all add: same_config_def)
    have "data_at (disk u) q = data_at (disk s) q \<or> data_at (disk u) q = None" for q using dt [of q] by (elim disjE conjE) simp_all
    note sh = corrupt_shrinks [OF pd this]
    show ?thesis
    proof (rule wp_weaken [OF last_passes_effect [OF st(1,2)]], goal_cases)
      case (1 r t)
      then have t: "net t = net u" "cache t = cache u" "closed t" "retryStopped t" "\<not> retryRunning t" "pendingDir t = pendingDir s"
        and q: "\<And>q. data_at (disk t) q = data_at (disk u) q
          \<or> data_at (disk t) q = None \<and> (\<exists>n \<in> corrupt_names s. q \<in> entry_files s n)"
        using st pd sh unfolding only_corrupt_gone_def by (simp_all, meson subsetD)
      have files: "data_at (disk t) x = data_at (disk s) x
           \<or> data_at (disk t) x = None \<and> (\<exists>n \<in> corrupt_names s \<union> pe_name ` ?B. x \<in> entry_files s n)" for x
        using q [of x] dt [of x] u(3) by (auto simp: entry_files_def)
      have kept: "pending_data t n = pending_data s n \<or> view (net t) n = pending_data s n"
        if n: "n \<in> pending_names s" "intact s n" for n
      proof -
        have "n \<notin> corrupt_names s" using n by (simp add: corrupt_names_def)
        then have "dir_prefix (pendingDir s) @ n \<notin> entry_files s m" if "m \<in> corrupt_names s" for m
          using entry_files_other [of n s m] n(1) that by (auto simp: corrupt_names_def entry_files_def)
        then have "pending_data t n = pending_data u n" using q [of "dir_prefix (pendingDir s) @ n"] pd t(6) by (auto simp: pending_data_def)
        then show ?thesis using u(4) n(1) t(1) by auto
      qed
      have "content (cache t) k = None" for k using t(2) c(2) by (simp add: purge_content)
      moreover have "view (net t) k = view (net s) k
           \<or> (\<exists>f \<in> ?B. k = pe_name f \<and> view (net t) k = Some (pe_data f) \<or> k = shadow_key s (pe_name f) \<and> view (net t) k = None)" for k
        using u(1) vw unfolding flown_def names t(1) by simp
      moreover have "under_way = None \<longrightarrow> net t = CancelCtx (plat_rt (plat D)) (net s)" using u(2) t(1) by auto
      ultimately show ?case using t files kept unfolding closed_down_def Let_def by blast
    qed
  qed
  have "wp (wait_background sorter sched fuel D (under_way, ticks)) (\<lambda>_ t. closed_down D view content (if retryRunning s then under_way else None) s t) ?t"
  proof (cases "retryRunning s")
    case True
    show ?thesis
    proof (cases under_way)
      case None
      then show ?thesis using True last [of ?t] names by (simp add: wait_background_def wp_simps wp_fun)
    next
      case (Some p)
      have "data_at (disk ?t) = data_at (disk s)" "kept ?t = kept s" "stored view ?t = stored view s"
        by (simp_all add: fun_eq_iff kept_def stored_def cancel_quiet)
      then have "pass_under_way D view ?t p"
        using p Some vw by (simp add: pass_under_way_def good_files_def recovering_def same_config_def names cong: if_cong split del: if_split)
      from finish_pass_result [OF quiet _ this] have
        fin: "wp (finish_pass sched D p) (\<lambda>_ u. flown view (begun p) ?t u
     \<and> (\<forall>f \<in> begun p. pe_localPath f = dir_prefix (pendingDir s) @ pe_name f)
     \<and> (\<forall>n \<in> pending_names s. pending_data u n = pending_data s n \<or> view (net u) n = pending_data s n)) ?t"
        by (simp add: names)
      show ?thesis
        using True Some by (simp add: wait_background_def wp_simps wp_fun) (rule wp_weaken [OF fin], use last Some in simp)
    qed
  next
    case False
    then show ?thesis by (simp add: wait_background_def wp_simps closed_down_def purge_content cancel_quiet Let_def names)
  qed
  then show ?thesis
    using False by (simp add: Storage_Close_def close_begin_def wp_simps wp_fun wp_on_net)
qed

end

section \<open>Properties\<close>

text \<open>
  C11: What \<open>Lock\<close> of the storage means. On a closed storage it fails and does nothing. When it succeeds,
  the flag \<open>lockHeld\<close> is set, a lease monitor and a renewal run, the remote lock was free, its own or
  stale at the time of the test before, and after all the recovery work it still holds this process's identifier: neither the pending
  files, nor the local cache, nor the clean-up touch it. When it fails, the flag is as before.
\<close>

theorem Lock_outcome:
  assumes "storage_env D view content" and "slice_sort sorter" and "pendingDir s = '''' \<or> clean_dir (pendingDir s)"
    and "run_state (Storage_Lock sorter sched D) s = (r, t)"
  shows "if closed s then r = Inl StorageErrClosed \<and> t = s
     else lockLost t = lockLost s
        \<and> (case r of
             Inr _ \<Rightarrow> lockHeld t \<and> monitors t = Suc (monitors s)
               \<and> view (net t) ''LOCK'' = Some (lockID (s3Lock t)) \<and> StorageCtx \<in> set (renewals (s3Lock t))
               \<and> takeable (stale_for_Lock (api D) (plat D) StorageCtx (lk_opt (s3Lock s)) (net s)) (lk_opt (s3Lock s))
                    (view (net s)) (data_at (disk s))
           | Inl _ \<Rightarrow> lockHeld t = lockHeld s)"
proof -
  have "storage_locked D view s r t"
    using recovery_env.Storage_Lock_effect [OF recovery_env.intro [OF assms(1,2)] assms(3), THEN wp_run, OF assms(4)] .
  then show ?thesis by (auto simp: storage_locked_def split: sum.splits if_splits)
qed

lemmas sync_exec =
  Storage_Lock_def [THEN wp_unfold] startLeaseMonitoring_def [THEN wp_unfold] syncPendingToS3_def [THEN wp_unfold]
  syncFromShadow_def [THEN wp_unfold] readPendingFiles_def [THEN wp_unfold] fold_each.simps [THEN wp_unfold]
  for_each.simps [THEN wp_unfold] syncLocalToS3_def [THEN wp_unfold] sync_local_entry_def [THEN wp_unfold]
  for_return.simps [THEN wp_unfold]

theorem Lock_outcome_witness:
  "\<exists>t. run_state (Storage_Lock slice_insertion [0] demo_deps) ((demo_storage [] [] [])\<lparr>lockHeld := False\<rparr>) = (Inr (), t)
     \<and> lockHeld t \<and> monitors t = 2 \<and> sim_objs (net t) ''LOCK'' = Some (lockID (s3Lock t))"
proof -
  let ?s = "(demo_storage [] [] [])\<lparr>lockHeld := False\<rparr>"
  have any: "wp f Q s" if "\<And>r t. Q r t" for f :: "((sim_world, lru_list) S3Storage, 'r) state" and Q s
    using that by (simp add: wp_def split: prod.split)
  have "wp (Storage_Lock slice_insertion [0] demo_deps) (\<lambda>r t. r = Inr ()) ?s"
    by (simp add: demo_storage_def storage_exec sync_exec lock_exec demo_lock_path NewS3Lock_def sim_platform_def
        wp_exec mem_eval host_eval path_eval HasPrefix_def slice_insertion_def cong: wp_state_cong)
      (rule any, simp add: wp_simps)
  then obtain t where t: "run_state (Storage_Lock slice_insertion [0] demo_deps) ?s = (Inr (), t)" by (rule wp_obtain)
  have "pendingDir ?s = '''' \<or> clean_dir (pendingDir ?s)" by simp
  moreover have "\<not> closed ?s" "monitors ?s = 1" by (simp_all add: demo_storage_def)
  ultimately show ?thesis using Lock_outcome [OF demo_env go_sort.slice_sort_axioms _ t] t by auto
qed

text \<open>
  C33: \<open>syncLocalToS3\<close>, which every \<open>Lock\<close> runs, uploads the local cache over the objects. When it returns nil
  on a disk where nothing fails, every object named like a local file holds that file, whatever the
  object held before, and all other objects are as they were. It compares no versions, and it does not ask
  whether the lock has been lost.
\<close>

theorem local_cache_overwrites_objects:
  assumes "storage_env D view content" and "localDir s \<noteq> ''''" and "faults (disk s) = []"
    and "dir_exists (disk s) (localDir s)" and "run_state (syncLocalToS3 D) s = (None, t)"
  shows "(\<forall>n. local_file s n \<longrightarrow> view (net t) n = local_data s n)
    \<and> (\<forall>k. \<not> local_file s k \<longrightarrow> view (net t) k = view (net s) k)
    \<and> cache t = cache s \<and> data_at (disk t) = data_at (disk s)"
proof -
  have "syncing view s UNIV t"
    using storage_env.syncLocalToS3_effect [OF assms(1), THEN wp_run, OF assms(5)] assms(2,4) by simp
  then show ?thesis using assms(3) unfolding syncing_def by blast
qed

lemmas session_exec = cleanup_exec sync_exec

text \<open>A stale local manifest replaces a newer object, although the lock is lost.\<close>

theorem local_cache_overwrites_objects_witness:
  "\<exists>t. run_state (syncLocalToS3 demo_deps)
       ((demo_storage [(''MANIFEST-000004'', ''new'')] [] [(''/c/db/MANIFEST-000004'', File ''old'')])\<lparr>lockLost := True\<rparr>) = (None, t)
     \<and> sim_objs (net t) ''MANIFEST-000004'' = Some ''old''"
proof -
  let ?s = "(demo_storage [(''MANIFEST-000004'', ''new'')] [] [(''/c/db/MANIFEST-000004'', File ''old'')])\<lparr>lockLost := True\<rparr>"
  have "wp (syncLocalToS3 demo_deps) (\<lambda>r t. r = None) ?s"
    by (simp add: demo_storage_def session_exec demo_option_def wp_exec mem_eval host_eval path_eval AList.delete_eq HasPrefix_def
        del: leveldb_String.simps cong: wp_state_cong)
  then obtain t where t: "run_state (syncLocalToS3 demo_deps) ?s = (None, t)" by (rule wp_obtain)
  have "local_data ?s ''MANIFEST-000004'' = Some ''old''" and "local_file ?s ''MANIFEST-000004''"
    by (simp_all add: local_file_def local_data_def demo_storage_def host_eval path_eval)
  moreover have "localDir ?s \<noteq> ''''" "faults (disk ?s) = []" "dir_exists (disk ?s) (localDir ?s)"
    by (simp_all add: demo_storage_def dir_exists_def node_at_def)
  ultimately show ?thesis using local_cache_overwrites_objects [OF demo_env _ _ _ t] t by auto
qed

text \<open>
  C32: The two ways to release the lock do the same, except that only \<open>Unlock\<close> of the storage clears \<open>lockHeld\<close>:
  after the \<open>Unlock\<close> of the locker that \<open>Lock\<close> returned, the background goroutine still counts the lock as held. When
  the lock was lost, nothing is done. Otherwise the renewal is stopped, and the removal of the lock object is requested
  once with the context of the storage and, if that fails, once more with a fresh one; when one of the two succeeds, the object is gone,
  and so is the local copy on a disk without faults; when both fail, the local copy stays. No other object
  and no other file changes.
\<close>

theorem unlock_outcome:
  assumes "storage_env D view content" and "run_state (Storage_Unlock D) s = ((), t)"
    and "run_state (storageLocker_Unlock D) s = ((), u)"
  shows "t = u\<lparr>lockHeld := False\<rparr> \<and> lockHeld u = lockHeld s
     \<and> (if lockLost s then u = s
        else stopClosed (s3Lock u)
          \<and> (case api_Remove (api D) StorageCtx ''LOCK'' (net s) of
               (None, w) \<Rightarrow> net u = w \<and> view (net u) ''LOCK'' = None
                 \<and> (faults (disk s) = [] \<longrightarrow> data_at (disk u) (lock_path (lk_opt (s3Lock s))) = None)
             | (Some _, w) \<Rightarrow>
                 (case api_Remove (api D) (WithTimeout Background (Now (plat_rt (plat D)) w + RequestTimeout (opt s))) ''LOCK'' w of
                    (None, w') \<Rightarrow> net u = w' \<and> view (net u) ''LOCK'' = None
                      \<and> (faults (disk s) = [] \<longrightarrow> data_at (disk u) (lock_path (lk_opt (s3Lock s))) = None)
                  | (Some _, w') \<Rightarrow> net u = w' \<and> disk u = disk s)))
     \<and> (\<forall>k. k \<noteq> ''LOCK'' \<longrightarrow> view (net u) k = view (net s) k)
     \<and> view (net u) ''LOCK'' \<in> {view (net s) ''LOCK'', None}
     \<and> (\<forall>q. q \<noteq> lock_path (lk_opt (s3Lock s)) \<longrightarrow> data_at (disk u) q = data_at (disk s) q)"
proof -
  have run: "run_state (release_lock D) s = ((), u)" using assms(3) by (simp add: storageLocker_Unlock_def)
  have u: "released view s u" by (rule wp_run [OF storage_env.release_lock_effect [OF assms(1)] run])
  have "run_state (release_lock D) (lockHeld_update (\<lambda>_. False) s) = ((), lockHeld_update (\<lambda>_. False) u)"
    using run by (simp add: release_lock_unheld)
  then have t: "t = u\<lparr>lockHeld := False\<rparr>" using assms(2) by (simp add: Storage_Unlock_def modify_def)
  have frame: "lockHeld u = lockHeld s" "\<forall>k. k \<noteq> ''LOCK'' \<longrightarrow> view (net u) k = view (net s) k"
    "view (net u) ''LOCK'' \<in> {view (net s) ''LOCK'', None}"
    "\<forall>q. q \<noteq> lock_path (lk_opt (s3Lock s)) \<longrightarrow> data_at (disk u) q = data_at (disk s) q"
    using u same_storage_fields [of s u] by (auto simp: released_def split: if_splits)
  show ?thesis
  proof (cases "lockLost s")
    case True
    then show ?thesis using t frame u by (simp add: released_def)
  next
    case False
    from wp_run [OF storage_env.release_lock_exact [OF assms(1) this] run] False t frame show ?thesis
      by (auto simp: release_requests_def ctxWithTimeout_def split: prod.splits option.splits)
  qed
qed

theorem unlock_outcome_witness:
  "\<exists>t u. run_state (Storage_Unlock demo_deps) (demo_storage [(''LOCK'', ''x'')] [Rejected] []) = ((), t)
     \<and> run_state (storageLocker_Unlock demo_deps) (demo_storage [(''LOCK'', ''x'')] [Rejected] []) = ((), u)
     \<and> \<not> lockHeld t \<and> lockHeld u \<and> sim_objs (net t) ''LOCK'' = None"
proof -
  let ?s = "demo_storage [(''LOCK'', ''x'')] [Rejected] []"
  obtain t where t: "run_state (Storage_Unlock demo_deps) ?s = ((), t)" by (metis old.unit.exhaust surj_pair)
  obtain u where u: "run_state (storageLocker_Unlock demo_deps) ?s = ((), u)" by (metis old.unit.exhaust surj_pair)
  note out = unlock_outcome [OF demo_env t u]
  have "sim_objs (net u) ''LOCK'' = None"
    using conjunct1 [OF conjunct2 [OF conjunct2 [OF out]]]
    by (simp add: demo_storage_def mem_eval sim_platform_def sim_rt_def demo_option_def split: prod.splits option.splits)
  with out t u show ?thesis by auto
qed

lemma closed_answers:
  assumes "closed t"
  shows "run_state (SetMeta D fd) t = (Some StorageErrClosed, t)" "run_state (GetMeta D) t = (Inl StorageErrClosed, t)"
    "run_state (List_files D ft) t = (Inl StorageErrClosed, t)" "run_state (Open D fd) t = (Inl StorageErrClosed, t)"
    "run_state (Create D fd) t = (Inl StorageErrClosed, t)" "run_state (Remove D fd) t = (Some StorageErrClosed, t)"
    "run_state (Rename D fd fd') t = (Some StorageErrClosed, t)" "run_state (Storage_Lock sorter sched D) t = (Inl StorageErrClosed, t)"
    "run_state (Storage_Close sorter sched' fuel D at) t = (None, t)"
  using assms
  by (simp_all add: SetMeta_def Create_def Remove_def Rename_def guarded_closed GetMeta_def List_files_def Open_def Storage_Lock_def
      Storage_Close_def gets_def)

text \<open>
  C16: \<open>Close\<close> always returns nil. It begins no upload and loses no data. An object changes only when an upload
  of the background goroutine was in flight (\<open>begun\<close>): to the data of that file, and its shadow may be removed. A file
  changes only by being deleted, when it belongs to such an upload or is corrupt. The data of every intact
  pending file is afterwards still there or in its object. When no pass was under way, all that happens to the outside
  is that the context is cancelled. Afterwards the background
  goroutine has ended, the cache is empty, every operation answers that the storage is closed and does nothing, and
  \<open>Close\<close> itself returns nil and does nothing.
\<close>

theorem Close_outcome:
  assumes "storage_env D view content" and "slice_sort sorter"
    and "\<And>d w. view (snd (SelectAfter (plat_rt (plat D)) Background d w)) = view w"
    and "pendingDir s = '''' \<or> clean_dir (pendingDir s)" and "retryRunning s = (pendingDir s \<noteq> '''')"
    and "case under_way of None \<Rightarrow> True | Some p \<Rightarrow> pendingDir s \<noteq> '''' \<and> pass_under_way D view s p"
    and "run_state (Storage_Close sorter sched fuel D (under_way, ticks)) s = (r, t)"
  shows "let B = (case under_way of None \<Rightarrow> {} | Some p \<Rightarrow> begun p) in
     r = None \<and> (if closed s then t = s
     else retryStopped t \<and> \<not> retryRunning t \<and> pendingDir t = pendingDir s \<and> (\<forall>k. content (cache t) k = None)
       \<and> (under_way = None \<longrightarrow> net t = CancelCtx (plat_rt (plat D)) (net s))
       \<and> (\<forall>k. view (net t) k = view (net s) k
            \<or> (\<exists>f \<in> B. k = pe_name f \<and> view (net t) k = Some (pe_data f) \<or> k = shadow_key s (pe_name f) \<and> view (net t) k = None))
       \<and> (\<forall>q. data_at (disk t) q = data_at (disk s) q
            \<or> data_at (disk t) q = None \<and> (\<exists>n \<in> corrupt_names s \<union> pe_name ` B. q \<in> entry_files s n))
       \<and> (\<forall>n \<in> pending_names s. intact s n \<longrightarrow> pending_data t n = pending_data s n \<or> view (net t) n = pending_data s n))
     \<and> run_state (Storage_Close sorter' sched' fuel' D at') t = (None, t)
     \<and> run_state (SetMeta D fd) t = (Some StorageErrClosed, t) \<and> run_state (GetMeta D) t = (Inl StorageErrClosed, t)
     \<and> run_state (List_files D ft) t = (Inl StorageErrClosed, t) \<and> run_state (Open D fd) t = (Inl StorageErrClosed, t)
     \<and> run_state (Create D fd) t = (Inl StorageErrClosed, t) \<and> run_state (Remove D fd) t = (Some StorageErrClosed, t)
     \<and> run_state (Rename D fd fd') t = (Some StorageErrClosed, t) \<and> run_state (Storage_Lock sorter sched D) t = (Inl StorageErrClosed, t)"
proof -
  have p: "case under_way of None \<Rightarrow> True | Some p \<Rightarrow> pass_under_way D view s p" using assms(6) by (simp split: option.splits)
  have u: "(if retryRunning s then under_way else None) = under_way" using assms(5,6) by (simp split: option.splits)
  have c: "r = None \<and> (if closed s then t = s else closed_down D view content under_way s t)"
    using wp_run [OF recovery_env.Storage_Close_effect [OF recovery_env.intro [OF assms(1,2)] assms(3-5) p] assms(7)] unfolding u .
  then have "closed t" by (cases "closed s") (simp_all add: closed_down_def Let_def)
  note closed_answers [OF this]
  then show ?thesis using c by (cases "closed s") (simp_all add: closed_down_def Let_def)
qed

text \<open>A storage with a pass under way that has just sent its request when \<open>Close\<close> is called: the file is stored or still pending.\<close>

theorem Close_outcome_witness:
  "\<exists>t. run_state (Storage_Close slice_insertion [0] 5 demo_deps (Some \<lparr>waiting = [],
         running = [(\<lparr>pe_name = ''000001.ldb'', pe_data = ''z'', pe_fd = FileDesc TypeTable 1,
           pe_localPath = ''/c/db/pending_uploads/000001.ldb''\<rparr>, RetPut 0 0)], results = []\<rparr>, 1))
       (demo_storage [] [] [(''/c/db/pending_uploads/000001.ldb'', File ''z'')]) = (None, t)
     \<and> (data_at (disk t) ''/c/db/pending_uploads/000001.ldb'' = Some ''z'' \<or> sim_objs (net t) ''000001.ldb'' = Some ''z'')
     \<and> run_state (Create demo_deps (FileDesc TypeTable 1)) t = (Inl StorageErrClosed, t)"
proof -
  let ?s = "demo_storage [] [] [(''/c/db/pending_uploads/000001.ldb'', File ''z'')]"
  let ?f = "\<lparr>pe_name = ''000001.ldb'', pe_data = ''z'', pe_fd = FileDesc TypeTable 1, pe_localPath = ''/c/db/pending_uploads/000001.ldb''\<rparr>"
  let ?p = "\<lparr>waiting = [], running = [(?f, RetPut 0 0)], results = []\<rparr>"
  obtain r t where t: "run_state (Storage_Close slice_insertion [0] 5 demo_deps (Some ?p, 1)) ?s = (r, t)" by force
  have d: "pending_data ?s ''000001.ldb'' = Some ''z''" "pending_data ?s ''000001.ldb.cksum'' = None" "pendingDir ?s \<noteq> ''''"
    by (simp_all add: pending_data_def demo_storage_def host_eval path_eval)
  have "good_files ?s [?f]" by (simp add: good_files_def HasSuffix_def dir_prefix_def)
  moreover have "recovering uploading sim_objs ?s [?f] ?p ?s"
    by (simp add: recovering_def all_names_def kept_def demo_storage_def data_at_def node_at_def)
  moreover have "fdString demo_deps (pe_fd ?f) = pe_name ?f" "data_at (disk ?s) (pe_localPath ?f) = Some (pe_data ?f)"
    unfolding demo_deps_simps by (simp add: demo_fd del: leveldb_String.simps) (simp add: demo_storage_def data_at_def node_at_def)
  ultimately have "pass_under_way demo_deps sim_objs ?s ?p" unfolding pass_under_way_def by (intro exI [of _ "[?f]"]) simp
  then have p: "case Some ?p of None \<Rightarrow> True | Some p \<Rightarrow> pendingDir ?s \<noteq> '''' \<and> pass_under_way demo_deps sim_objs ?s p"
    using d(3) by simp
  have quiet: "sim_objs (snd (SelectAfter (plat_rt (plat demo_deps)) Background d w)) = sim_objs w" for d w
    by (simp add: sim_platform_def sim_rt_def sim_objs_def)
  have dir: "pendingDir ?s = '''' \<or> clean_dir (pendingDir ?s)" "retryRunning ?s = (pendingDir ?s \<noteq> '''')"
    by (simp_all add: demo_storage_def)
  note out = Close_outcome [OF demo_env go_sort.slice_sort_axioms quiet dir p t, unfolded Let_def]
  have "''000001.ldb'' \<in> pending_names ?s" "intact ?s ''000001.ldb''"
    using d by (simp_all add: pending_names_def intact_def demo_parse HasSuffix_def)
  moreover have "\<not> closed ?s" by simp
  note out = out [unfolded if_not_P [OF this]]
  have "\<forall>n \<in> pending_names ?s. intact ?s n \<longrightarrow> pending_data t n = pending_data ?s n \<or> sim_objs (net t) n = pending_data ?s n"
    using out by blast
  ultimately have "pending_data t ''000001.ldb'' = Some ''z'' \<or> sim_objs (net t) ''000001.ldb'' = Some ''z''"
    using d(1) by metis
  moreover have "pendingDir t = ''/c/db/pending_uploads''" using out by simp
  ultimately have "data_at (disk t) ''/c/db/pending_uploads/000001.ldb'' = Some ''z'' \<or> sim_objs (net t) ''000001.ldb'' = Some ''z''"
    by (simp add: pending_data_def dir_prefix_def)
  then show ?thesis using out t by blast
qed

end
