(* ===== verification/Frames.thy ===== *)
theory Frames
  imports Session
begin

text \<open>
  What an operation of the storage leaves alone, whatever the client, the disk and the platform
  answer. \<open>keeps R f\<close> says that \<open>f\<close> relates every state to its final state by \<open>R\<close>. For a
  reflexive and transitive \<open>R\<close> this passes through the control structures (the locale
  \<open>state_relation\<close>), so that one rule per call decides it for all of the code: configuration, flags
  and lock are changed only by \<open>Lock\<close>, \<open>Unlock\<close>, \<open>Close\<close> and the two monitors.
\<close>

named_theorems keeps_rules \<open>rules for keeps, along the code\<close>

section \<open>Control structures\<close>

definition keeps :: "('s \<Rightarrow> 's \<Rightarrow> bool) \<Rightarrow> ('s, 'a) state \<Rightarrow> bool" where
  "keeps R f = (\<forall>s. wp f (\<lambda>_. R s) s)"

lemma keepsI: "(\<And>s. wp f (\<lambda>_. R s) s) \<Longrightarrow> keeps R f"
  by (simp add: keeps_def)

lemma keeps_run: "keeps R f \<Longrightarrow> run_state f s = (r, t) \<Longrightarrow> R s t"
  unfolding keeps_def by (blast dest: wp_run)

lemma keeps_mono: "keeps R f \<Longrightarrow> (\<And>s t. R s t \<Longrightarrow> R' s t) \<Longrightarrow> keeps R' f"
  unfolding keeps_def by (blast intro: wp_weaken)

lemma keeps_branches [keeps_rules]:
  "keeps R f \<Longrightarrow> keeps R g \<Longrightarrow> keeps R (if b then f else g)"
  "keeps R f \<Longrightarrow> (\<And>x. keeps R (h x)) \<Longrightarrow> keeps R (case y of None \<Rightarrow> f | Some x \<Rightarrow> h x)"
  "(\<And>a. keeps R (k a)) \<Longrightarrow> (\<And>b. keeps R (l b)) \<Longrightarrow> keeps R (case z of Inl a \<Rightarrow> k a | Inr b \<Rightarrow> l b)"
  "(\<And>a b. keeps R (p a b)) \<Longrightarrow> keeps R (case q of (a, b) \<Rightarrow> p a b)"
  "(\<And>x. keeps R (h x)) \<Longrightarrow> keeps R (Let u h)"
  by (simp_all split: option.split sum.split prod.split)

locale state_relation =
  fixes R :: "'s \<Rightarrow> 's \<Rightarrow> bool"
  assumes kept_refl: "R s s" and kept_trans: "R s t \<Longrightarrow> R t u \<Longrightarrow> R s u"
begin

lemma keeps_return [keeps_rules]: "keeps R (ret x)"
  by (simp add: keeps_def wp_return kept_refl)

lemma keeps_gets [keeps_rules]: "keeps R (gets f)"
  by (simp add: keeps_def wp_gets kept_refl)

lemma keeps_bind [keeps_rules]:
  assumes "keeps R f" and "\<And>x. keeps R (g x)"
  shows "keeps R (State_Monad.bind f g)"
proof (rule keepsI)
  fix s
  have "wp f (\<lambda>_. R s) s" using assms(1) by (simp add: keeps_def)
  then show "wp (State_Monad.bind f g) (\<lambda>_. R s) s"
    unfolding wp_bind
  proof (rule wp_weaken)
    fix x t assume "R s t"
    then show "wp (g x) (\<lambda>_. R s) t"
      using assms(2) [of x] kept_trans unfolding keeps_def by (blast intro: wp_weaken)
  qed
qed

lemma keeps_for_each [keeps_rules]: "(\<And>x. keeps R (f x)) \<Longrightarrow> keeps R (for_each xs f)"
  by (induction xs) (auto intro!: keeps_return keeps_bind)

lemma keeps_fold_each [keeps_rules]: "(\<And>a x. keeps R (f a x)) \<Longrightarrow> keeps R (fold_each f a xs)"
  by (induction xs arbitrary: a) (auto intro!: keeps_return keeps_bind)

lemma keeps_for_return [keeps_rules]: "(\<And>x. keeps R (f x)) \<Longrightarrow> keeps R (for_return xs f)"
  by (induction xs) (auto intro!: keeps_return keeps_bind split: option.split)

lemma keeps_pool_step [keeps_rules]: "(\<And>f st. keeps R (task f st)) \<Longrightarrow> keeps R (pool_step task init cap c p)"
  unfolding pool_step_def Let_def by (intro keeps_branches keeps_return keeps_bind)

lemma keeps_pool_run [keeps_rules]: "(\<And>f st. keeps R (task f st)) \<Longrightarrow> keeps R (pool_run task init cap n sched p)"
  by (induction n arbitrary: sched p) (auto intro!: keeps_return keeps_bind keeps_pool_step)

end

section \<open>Operations that keep the configuration\<close>

interpretation config: state_relation "same_config :: ('w, 'c) S3Storage \<Rightarrow> ('w, 'c) S3Storage \<Rightarrow> bool"
  by unfold_locales (auto intro: same_config_trans)

lemma config_calls [keeps_rules]:
  "keeps same_config (on_net f)" "keeps same_config (on_disk g)" "keeps same_config (modify (cache_update h))"
  "keeps same_config (cache_get D fd)"
proof -
  show "keeps same_config (cache_get D fd)" by (auto simp: keeps_def cache_get_def wp_def split: prod.split)
qed (auto simp: keeps_def wp_modify wp_on_net wp_on_disk split: prod.split)

lemma config_helpers [keeps_rules]:
  "keeps same_config (cache_add D fd d)" "keeps same_config (cache_remove D fd)"
  "keeps same_config (uploadToShadow D n d)" "keeps same_config (cleanShadow D n)" "keeps same_config (remove_pending n)"
  unfolding cache_add_def cache_remove_def uploadToShadow_def cleanShadow_def remove_pending_def
  by (intro keeps_rules)+

lemma config_upload [keeps_rules]: "keeps same_config (uploadFile D fd d)"
  unfolding uploadFile_def upload_failed_def upload_done_def persistToLocal_def by (intro keeps_rules)

lemma config_guarded [keeps_rules]: "keeps same_config f \<Longrightarrow> keeps same_config (guarded e f)"
  unfolding guarded_def by (intro keeps_rules)

lemma config_writers [keeps_rules]:
  "keeps same_config (memWriter_Write w d)" "keeps same_config (memWriter_Sync D w)" "keeps same_config (memWriter_Close D w)"
proof -
  have sync: "keeps same_config (run_syncFn D w)"
    by (auto simp: run_syncFn_def intro!: keeps_rules split: option.split sync_fn.split)
  show "keeps same_config (memWriter_Write w d)" unfolding memWriter_Write_def by (intro keeps_rules)
  show "keeps same_config (memWriter_Sync D w)" unfolding memWriter_Sync_def by (intro keeps_rules sync)
  show "keeps same_config (memWriter_Close D w)" unfolding memWriter_Close_def by (intro keeps_rules sync)
qed

lemma config_files [keeps_rules]:
  "keeps same_config (SetMeta D fd)" "keeps same_config (GetMeta D)" "keeps same_config (List_files D ft)"
  "keeps same_config (Open D fd)" "keeps same_config (Create D fd)" "keeps same_config (Remove D fd)"
  "keeps same_config (Rename D fd fd')"
  unfolding SetMeta_def GetMeta_def read_meta_def meta_target_def List_files_def pending_fds_def Open_def open_pending_def
    Create_def Remove_def remove_local_def Rename_def rename_cache_def rename_by_move_def rename_by_copy_def
    rename_pending_def remove_source_def rename_local_def
  by (intro keeps_rules)+

lemma config_pending [keeps_rules]:
  "keeps same_config (syncFromShadow D)" "keeps same_config (readPendingFiles sorter)"
  "keeps same_config HasPendingUploads" "keeps same_config (RetryPendingUploads D)"
  unfolding syncFromShadow_def restore_shadow_def readPendingFiles_def read_pending_entry_def verify_cksum_def
    HasPendingUploads_def RetryPendingUploads_def retry_pending_entry_def
  by (intro keeps_rules)+

lemma config_warning [keeps_rules]: "keeps same_config (modify (warnings_update f))"
  by (simp add: keeps_def wp_modify same_config_def)

lemma config_pressure [keeps_rules]: "keeps same_config checkPendingPressure"
  unfolding checkPendingPressure_def add_pending_size_def by (intro keeps_rules)

lemma config_tasks [keeps_rules]: "keeps same_config (recover_task D f st)" "keeps same_config (retry_task D f st')"
  by (cases st; auto intro!: keeps_rules) (rule keepsI, rule retry_task_config)

lemma config_recovery [keeps_rules]:
  "keeps same_config (syncPendingToS3 sorter sched D)" "keeps same_config (syncLocalToS3 D)"
  "keeps same_config (cleanupOrphaned D)" "keeps same_config (retryPendingFilesOnce sorter sched fuel D)"
  unfolding syncPendingToS3_def recover_files_def syncLocalToS3_def sync_local_entry_def retryPendingFilesOnce_def
    cleanupOrphaned_def recoverFromLocalCache_def rebuild_from_pending_def rebuild_from_local_def publish_manifest_def
    verifyCurrentManifest_def restore_from_pending_def restore_from_local_def removeAllOrphaned_def purge_local_def
    findLatestPendingManifest_def findLatestLocalManifest_def
  by (intro keeps_rules)+

section \<open>What every operation but Close and the monitors leaves alone\<close>

text \<open>
  \<open>Lock\<close> and \<open>Unlock\<close> change \<open>lockHeld\<close>, the number of monitors and the state of the lock, but not the
  life of the storage: its options and directories, whether it is closed, and whether the lock was lost.
\<close>

definition same_life :: "('w, 'c) S3Storage \<Rightarrow> ('w, 'c) S3Storage \<Rightarrow> bool" where
  "same_life s t = (opt t = opt s \<and> closed t = closed s \<and> localDir t = localDir s \<and> pendingDir t = pendingDir s
     \<and> retryStopped t = retryStopped s \<and> retryRunning t = retryRunning s \<and> lockLost t = lockLost s
     \<and> shadowPrefix t = shadowPrefix s)"

interpretation life: state_relation "same_life :: ('w, 'c) S3Storage \<Rightarrow> ('w, 'c) S3Storage \<Rightarrow> bool"
  by unfold_locales (auto simp: same_life_def)

lemma same_life_lock [simp]: "same_life s (s3Lock_update f t) = same_life s t"
  by (simp add: same_life_def)

lemma config_life: "keeps same_config f \<Longrightarrow> keeps same_life f"
  by (erule keeps_mono) (simp add: same_config_def same_life_def)

lemma storage_life: "keeps same_storage f \<Longrightarrow> keeps same_life f"
  by (erule keeps_mono) (simp add: same_life_def same_storage_fields)

lemma life_lock [keeps_rules]:
  "keeps same_life (S3Lock_Lock a p c)" "keeps same_life (S3Lock_Unlock a c')"
  by (rule storage_life, rule keepsI, rule S3Lock_Lock_storage S3Lock_Unlock_storage)+

lemma life_flags [keeps_rules]:
  "keeps same_life startLeaseMonitoring" "keeps same_life (modify (lockHeld_update f))" "keeps same_life (modify (s3Lock_update g))"
  by (simp_all add: keeps_def startLeaseMonitoring_def wp_modify same_life_def)

lemma life_session:
  "keeps same_life (Storage_Lock sorter sched D)" "keeps same_life (Storage_Unlock D)" "keeps same_life (storageLocker_Unlock D)"
  unfolding Storage_Lock_def Storage_Unlock_def storageLocker_Unlock_def release_lock_def
  by (intro keeps_rules config_life [OF config_recovery(1)] config_life [OF config_recovery(2)] config_life [OF config_recovery(3)])+

end
