(* ===== verification/Writer_Uploads.thy ===== *)
theory Writer_Uploads
  imports Frames
begin

text \<open>
  \<open>uploadFile\<close> in steps. \<^verbatim>\<open>Sync\<close> and \<^verbatim>\<open>Close\<close> of a writer run it without the mutex of the storage
  (\<^verbatim>\<open>s3/storage.go\<close>), so that other calls and the goroutines may come between any two of its requests and
  system calls. Run alone, the steps are \<open>uploadFile\<close>. (One system call more or less: a stage that
  writes a file atomically, with its temporary file, is one step. The contents are those of the buffer when the call
  begins, as a writer is used by one goroutine.)
\<close>

section \<open>The stages\<close>

text \<open>
  By the call that is made next. The closure that \<open>Create\<close> makes for journals and manifests starts with the
  local file, the other one with the checks; the stages after a failed request carry the error that is returned.
\<close>

datatype upload_stage =
    UpSave string | UpCheck | UpPut
  | UpMkdir error | UpPersist error | UpCksum error | UpBackup error
  | UpRemove | UpRemoveCksum | UpShadow | UpCache

definition pending_file :: "('w, 'c) storage_deps \<Rightarrow> file_desc \<Rightarrow> ('w, 'c) S3Storage \<Rightarrow> string" where
  "pending_file D fd s = filepath_Join [pendingDir s, fdString D fd]"

fun upload_task ::
  "('w, 'c) storage_deps \<Rightarrow> file_desc \<Rightarrow> bytes \<Rightarrow> upload_stage \<Rightarrow> (('w, 'c) S3Storage, upload_stage progress) state"
where
  "upload_task D fd data (UpSave localPath) = do {
     e \<leftarrow> on_disk (atomicWriteFile localPath data);
     ret (case e of Inl err \<Rightarrow> Finished (Some (Wrapf ''failed to write local cache'' err)) | Inr _ \<Rightarrow> Running UpCheck) }"
| "upload_task D fd data UpCheck = do {
     maxSize \<leftarrow> gets (\<lambda>s. MaxFileSize (opt s));
     lost \<leftarrow> gets lockLost;
     ret (if \<not> isMetadataKey (fdString D fd) \<and> maxSize < int (length data) then Finished (Some ErrFileTooLarge)
          else if lost then Finished (Some ErrLockLost) else Running UpPut) }"
| "upload_task D fd data UpPut = do {
     e \<leftarrow> on_net (api_PutBytes (api D) StorageCtx (fdString D fd) data);
     dir \<leftarrow> gets pendingDir;
     ret (case e of
            Some err \<Rightarrow>
              (let err' = Wrapf (''failed to upload file '' @ fdString D fd) err
               in if dir \<noteq> '''' then Running (UpMkdir err') else Finished (Some err'))
          | None \<Rightarrow> Running (if dir \<noteq> '''' then UpRemove else UpShadow)) }"
| "upload_task D fd data (UpMkdir err) = do {
     p \<leftarrow> gets (pending_file D fd);
     e \<leftarrow> on_disk (os_MkdirAll (filepath_Dir p));
     ret (case e of Inl _ \<Rightarrow> Finished (Some err) | Inr _ \<Rightarrow> Running (UpPersist err)) }"
| "upload_task D fd data (UpPersist err) = do {
     p \<leftarrow> gets (pending_file D fd);
     e \<leftarrow> on_disk (atomicWriteFile p data);
     ret (case e of Inl _ \<Rightarrow> Finished (Some err) | Inr _ \<Rightarrow> Running (UpCksum err)) }"
| "upload_task D fd data (UpCksum err) = do {
     p \<leftarrow> gets (pending_file D fd);
     on_disk (os_WriteFile (p @ ''.cksum'') (cksum_of data));
     ret (Running (UpBackup err)) }"
| "upload_task D fd data (UpBackup err) = do { uploadToShadow D (fdString D fd) data; ret (Finished (Some err)) }"
| "upload_task D fd data UpRemove = do {
     p \<leftarrow> gets (pending_file D fd);
     on_disk (os_Remove p);
     ret (Running UpRemoveCksum) }"
| "upload_task D fd data UpRemoveCksum = do {
     p \<leftarrow> gets (pending_file D fd);
     on_disk (os_Remove (p @ ''.cksum''));
     ret (Running UpShadow) }"
| "upload_task D fd data UpShadow = do { cleanShadow D (fdString D fd); ret (Running UpCache) }"
| "upload_task D fd data UpCache = do { cache_add D fd data; ret (Finished None) }"

text \<open>The first stage of a writer's \<^verbatim>\<open>syncFn\<close>; without one there is nothing to do.\<close>

definition first_stage :: "memWriter \<Rightarrow> upload_stage option" where
  "first_stage w = (case mw_syncFn w of
     None \<Rightarrow> None
   | Some UploadOnly \<Rightarrow> Some UpCheck
   | Some (LocalThenUpload localPath) \<Rightarrow> Some (UpSave localPath))"

section \<open>What a step does\<close>

lemmas run_calls = on_disk_def on_net_def gets_def modify_def

lemma config_upload_task [keeps_rules]: "keeps same_config (upload_task D fd data st)"
  by (cases st) (simp_all add: keeps_rules)

text \<open>Whatever comes in between, an upload makes at most seven steps.\<close>

fun upload_rank :: "upload_stage \<Rightarrow> nat" where
  "upload_rank (UpSave p) = 6"
| "upload_rank UpCheck = 5"
| "upload_rank UpPut = 4"
| "upload_rank (UpMkdir err) = 3"
| "upload_rank (UpPersist err) = 2"
| "upload_rank (UpCksum err) = 1"
| "upload_rank (UpBackup err) = 0"
| "upload_rank UpRemove = 3"
| "upload_rank UpRemoveCksum = 2"
| "upload_rank UpShadow = 1"
| "upload_rank UpCache = 0"

lemma upload_task_rank:
  "run_state (upload_task D fd data st) s = (Running st', t) \<Longrightarrow> upload_rank st' < upload_rank st"
  by (cases st) (auto simp: run_calls Let_def split: prod.splits sum.splits option.splits if_splits)

section \<open>The steps without interruption\<close>

primrec upload_run ::
  "nat \<Rightarrow> ('w, 'c) storage_deps \<Rightarrow> file_desc \<Rightarrow> bytes \<Rightarrow> upload_stage \<Rightarrow> (('w, 'c) S3Storage, upload_stage progress) state"
where
  "upload_run 0 D fd data st = ret (Running st)"
| "upload_run (Suc n) D fd data st = do {
     r \<leftarrow> upload_task D fd data st;
     case r of Running st' \<Rightarrow> upload_run n D fd data st' | Finished e \<Rightarrow> ret (Finished e) }"

lemma upload_run_after:
  "run_state (upload_task D fd data st) s = (Running st', t) \<Longrightarrow>
     run_state (upload_run (Suc n) D fd data st) s = run_state (upload_run n D fd data st') t"
  "run_state (upload_task D fd data st) s = (Finished e, t) \<Longrightarrow>
     run_state (upload_run (Suc n) D fd data st) s = (Finished e, t)"
  by simp_all

lemma upload_run_done:
  "run_state (upload_run (4 + n) D fd data (if pendingDir s \<noteq> '''' then UpRemove else UpShadow)) s =
     (case run_state (upload_done D fd data) s of (e, t) \<Rightarrow> (Finished e, t))"
  by (simp add: upload_done_def remove_pending_def cleanShadow_def cache_add_def run_calls pending_file_def numeral_eq_Suc
      split: prod.split)

lemma upload_run_persist:
  assumes "pendingDir s \<noteq> ''''"
  shows "run_state (upload_run (4 + n) D fd data (UpMkdir err)) s =
     (Finished (Some err), snd (run_state (persistToLocal D fd data) s))"
proof -
  let ?p = "filepath_Join [pendingDir s, fdString D fd]"
  obtain r1 h1 where 1: "os_MkdirAll (filepath_Dir ?p) (disk s) = (r1, h1)" by fastforce
  obtain r2 h2 where 2: "atomicWriteFile ?p data h1 = (r2, h2)" by fastforce
  show ?thesis
    using assms 1 2
    by (cases r1; cases r2)
      (simp_all add: persistToLocal_def uploadToShadow_def run_calls pending_file_def numeral_eq_Suc Let_def
        split: prod.split)
qed

lemma upload_run_check:
  "run_state (upload_run (6 + n) D fd data UpCheck) s =
     (case run_state (uploadFile D fd data) s of (e, t) \<Rightarrow> (Finished e, t))"
proof (cases "(\<not> isMetadataKey (fdString D fd) \<and> MaxFileSize (opt s) < int (length data)) \<or> lockLost s")
  case True
  then show ?thesis by (auto simp: uploadFile_def run_calls numeral_eq_Suc Let_def)
next
  case False
  obtain e w where put: "api_PutBytes (api D) StorageCtx (fdString D fd) data (net s) = (e, w)" by fastforce
  let ?t = "s\<lparr>net := w\<rparr>"
  have steps: "run_state (upload_run (6 + n) D fd data UpCheck) s = run_state (upload_run (5 + n) D fd data UpPut) s"
    using False by (auto simp: run_calls numeral_eq_Suc)
  show ?thesis
  proof (cases e)
    case None
    have "run_state (upload_run (5 + n) D fd data UpPut) s =
        run_state (upload_run (4 + n) D fd data (if pendingDir ?t \<noteq> '''' then UpRemove else UpShadow)) ?t"
      using put None by (simp add: upload_run_after(1) run_calls numeral_eq_Suc del: upload_run.simps)
    moreover have "run_state (uploadFile D fd data) s = run_state (upload_done D fd data) ?t"
      using False put None by (auto simp: uploadFile_def run_calls Let_def)
    ultimately show ?thesis unfolding steps by (simp only: upload_run_done)
  next
    case (Some err)
    let ?err = "Wrapf (''failed to upload file '' @ fdString D fd) err"
    have up: "run_state (uploadFile D fd data) s = run_state (upload_failed D fd data err) ?t"
      using False put Some by (auto simp: uploadFile_def run_calls Let_def)
    show ?thesis
    proof (cases "pendingDir s = ''''")
      case True
      then show ?thesis
        unfolding steps up using put Some
        by (simp add: upload_failed_def run_calls numeral_eq_Suc Let_def)
    next
      case False
      have "run_state (upload_run (5 + n) D fd data UpPut) s = run_state (upload_run (4 + n) D fd data (UpMkdir ?err)) ?t"
        using put Some False by (simp add: upload_run_after(1) run_calls numeral_eq_Suc Let_def del: upload_run.simps)
      then show ?thesis
        unfolding steps up using False
        by (simp add: upload_run_persist upload_failed_def run_calls del: upload_run.simps split: prod.split)
    qed
  qed
qed

lemma upload_run_first:
  assumes "first_stage w = Some st"
  shows "run_state (upload_run 7 D (mw_fd w) (mw_buf w) st) s =
     (case run_state (run_syncFn D w) s of (e, t) \<Rightarrow> (Finished e, t))"
proof (cases st)
  case UpCheck
  then have "mw_syncFn w = Some UploadOnly"
    using assms by (auto simp: first_stage_def split: option.splits sync_fn.splits)
  then show ?thesis using UpCheck upload_run_check [of 1 D "mw_fd w" "mw_buf w" s] by (simp add: run_syncFn_def)
next
  case (UpSave p)
  then have f: "mw_syncFn w = Some (LocalThenUpload p)"
    using assms by (auto simp: first_stage_def split: option.splits sync_fn.splits)
  obtain r h where saved: "atomicWriteFile p (mw_buf w) (disk s) = (r, h)" by fastforce
  have *: "run_state (upload_run 7 D (mw_fd w) (mw_buf w) st) s =
      run_state (upload_run (Suc 6) D (mw_fd w) (mw_buf w) (UpSave p)) s" by (simp add: UpSave)
  show ?thesis
  proof (cases r)
    case (Inl err)
    then show ?thesis unfolding * using saved f by (simp add: run_syncFn_def run_calls numeral_eq_Suc)
  next
    case (Inr u)
    have "run_state (upload_run (Suc 6) D (mw_fd w) (mw_buf w) (UpSave p)) s =
        run_state (upload_run 6 D (mw_fd w) (mw_buf w) UpCheck) (s\<lparr>disk := h\<rparr>)"
      using saved Inr by (intro upload_run_after(1)) (simp add: run_calls)
    then show ?thesis
      unfolding * using upload_run_check [of 0 D "mw_fd w" "mw_buf w" "s\<lparr>disk := h\<rparr>"] saved f Inr
      by (simp add: run_syncFn_def run_calls del: upload_run.simps)
  qed
qed (use assms in \<open>auto simp: first_stage_def split: option.splits sync_fn.splits\<close>)

section \<open>Steps and call\<close>



end
