(* ===== verification/Protocol.thy ===== *)
theory Protocol
  imports Writer_Uploads
begin

text \<open>
  A process that has opened a storage, as a step relation: the calls of the client, the background
  goroutine of \<open>backgroundRetryLoop\<close> with its pool, the uploads of its writers, the lease monitor, the renewal goroutines, and
  anything that other processes do to the bucket. The reachable states are those of any interleaving
  (\<^verbatim>\<open>s3/storage.go\<close>, \<^verbatim>\<open>s3/lock.go\<close>).
\<close>

section \<open>Processes\<close>

text \<open>
  The writers that \<open>Create\<close> has returned; the uploads that their \<^verbatim>\<open>Sync\<close> and \<^verbatim>\<open>Close\<close> have begun, each with the
  contents and the stage it is at; the pass that the background goroutine is in, with the
  branch that it took; and whether \<open>Close\<close> is waiting for that goroutine, with the mutex held.
\<close>

record ('w, 'c) process =
  store :: "('w, 'c) S3Storage"
  writers :: "memWriter list"
  uploads :: "(file_desc \<times> bytes \<times> upload_stage) list"
  pass :: "(retry_stage pool \<times> loop_branch) option"
  closing :: bool

definition new_process :: "('w, 'c) S3Storage \<Rightarrow> ('w, 'c) process" where
  "new_process s = \<lparr>store = s, writers = [], uploads = [], pass = None, closing = False\<rparr>"

datatype operation =
    OpSetMeta file_desc | OpGetMeta | OpList int | OpOpen file_desc | OpCreate file_desc
  | OpRemove file_desc | OpRename file_desc file_desc | OpLock "nat list" | OpUnlock
  | OpLockerUnlock | OpWrite nat bytes | OpSync nat | OpCloseWriter nat
  | OpRetryPending | OpHasPending

text \<open>The operations that take the mutex, so that they wait while \<open>Close\<close> holds it.\<close>

fun takes_mutex :: "operation \<Rightarrow> bool" where
  "takes_mutex OpLockerUnlock = False"
| "takes_mutex (OpWrite i d) = False"
| "takes_mutex (OpSync i) = False"
| "takes_mutex (OpCloseWriter i) = False"
| "takes_mutex OpRetryPending = False"
| "takes_mutex OpHasPending = False"
| "takes_mutex _ = True"

definition exec :: "(('w, 'c) S3Storage, 'a) state \<Rightarrow> ('w, 'c) process \<Rightarrow> ('w, 'c) process" where
  "exec f P = P\<lparr>store := snd (run_state f (store P))\<rparr>"

text \<open>
  \<^verbatim>\<open>Sync\<close> and \<^verbatim>\<open>Close\<close> of a writer take no mutex: they begin an upload, which then moves by steps of its own. (A closed
  writer, or one without a \<^verbatim>\<open>syncFn\<close>, returns at once.)
\<close>

definition begin_upload :: "memWriter \<Rightarrow> ('w, 'c) process \<Rightarrow> ('w, 'c) process" where
  "begin_upload w P =
     (if mw_closed w then P
      else case first_stage w of
          None \<Rightarrow> P
        | Some st \<Rightarrow> P\<lparr>uploads := uploads P @ [(mw_fd w, mw_buf w, st)]\<rparr>)"

fun perform :: "slice_sorter \<Rightarrow> ('w, 'c) storage_deps \<Rightarrow> operation \<Rightarrow> ('w, 'c) process \<Rightarrow> ('w, 'c) process" where
  "perform sorter D (OpSetMeta fd) P = exec (SetMeta D fd) P"
| "perform sorter D OpGetMeta P = exec (GetMeta D) P"
| "perform sorter D (OpList ft) P = exec (List_files D ft) P"
| "perform sorter D (OpOpen fd) P = exec (Open D fd) P"
| "perform sorter D (OpCreate fd) P =
     (case fst (run_state (Create D fd) (store P)) of
        Inl _ \<Rightarrow> exec (Create D fd) P
      | Inr w \<Rightarrow> (exec (Create D fd) P)\<lparr>writers := writers P @ [w]\<rparr>)"
| "perform sorter D (OpRemove fd) P = exec (Remove D fd) P"
| "perform sorter D (OpRename fd fd') P = exec (Rename D fd fd') P"
| "perform sorter D (OpLock sched) P = exec (Storage_Lock sorter sched D) P"
| "perform sorter D OpUnlock P = exec (Storage_Unlock D) P"
| "perform sorter D OpLockerUnlock P = exec (storageLocker_Unlock D) P"
| "perform sorter D (OpWrite i d) P =
     (exec (memWriter_Write (writers P ! i) d) P)
       \<lparr>writers := (writers P)[i := snd (fst (run_state (memWriter_Write (writers P ! i) d) (store P)))]\<rparr>"
| "perform sorter D (OpSync i) P = begin_upload (writers P ! i) P"
| "perform sorter D (OpCloseWriter i) P =
     (begin_upload (writers P ! i) P)\<lparr>writers := (writers P)[i := (writers P ! i)\<lparr>mw_closed := True\<rparr>]\<rparr>"
| "perform sorter D OpRetryPending P = exec (RetryPendingUploads D) P"
| "perform sorter D OpHasPending P = exec HasPendingUploads P"

fun enabled :: "operation \<Rightarrow> ('w, 'c) process \<Rightarrow> bool" where
  "enabled (OpWrite i d) P = (i < length (writers P))"
| "enabled (OpSync i) P = (i < length (writers P))"
| "enabled (OpCloseWriter i) P = (i < length (writers P))"
| "enabled op P = (takes_mutex op \<longrightarrow> \<not> closing P)"

section \<open>Steps\<close>

text \<open>
  The background goroutine starts a pass when a branch of its \<^verbatim>\<open>select\<close> is ready: it looks at the
  flags and reads the pending directory (\<open>retryPendingFilesOnce\<close> with no fuel is the pool that has not
  moved yet); then the pool moves step by step until it is done, and after the pass of the stop branch
  the goroutine ends.
\<close>

definition begin_pass ::
  "slice_sorter \<Rightarrow> ('w, 'c) storage_deps \<Rightarrow> loop_branch \<Rightarrow> ('w, 'c) process \<Rightarrow> ('w, 'c) process"
where
  "begin_pass sorter D br P =
     (case run_state (do { checkPendingPressure; retryPendingFilesOnce sorter [] 0 D }) (store P) of
        (p, s) \<Rightarrow> P\<lparr>store := s, pass := Some (p, br)\<rparr>)"

definition move_pass ::
  "('w, 'c) storage_deps \<Rightarrow> nat \<Rightarrow> retry_stage pool \<Rightarrow> loop_branch \<Rightarrow> ('w, 'c) process \<Rightarrow> ('w, 'c) process"
where
  "move_pass D c p br P =
     (case run_state (pool_step (retry_task D) RetStart (upload_concurrency (store P)) c p) (store P) of
        (p', s) \<Rightarrow> P\<lparr>store := s, pass := Some (p', br)\<rparr>)"

definition end_pass :: "loop_branch \<Rightarrow> ('w, 'c) process \<Rightarrow> ('w, 'c) process" where
  "end_pass br P =
     (case br of
        TickBranch \<Rightarrow> P\<lparr>pass := None\<rparr>
      | StopBranch \<Rightarrow> P\<lparr>pass := None, store := retryRunning_update (\<lambda>_. False) (store P)\<rparr>)"

text \<open>A step of the upload \<open>j\<close>, which leaves the list when its call returns.\<close>

definition move_upload :: "('w, 'c) storage_deps \<Rightarrow> nat \<Rightarrow> ('w, 'c) process \<Rightarrow> ('w, 'c) process" where
  "move_upload D j P =
     (case uploads P ! j of (fd, data, st) \<Rightarrow>
        case run_state (upload_task D fd data st) (store P) of (r, s) \<Rightarrow>
          P\<lparr>store := s,
            uploads := (case r of
                Running st' \<Rightarrow> (uploads P)[j := (fd, data, st')]
              | Finished _ \<Rightarrow> take j (uploads P) @ drop (Suc j) (uploads P))\<rparr>)"

text \<open>An iteration of the renewal goroutine \<open>i\<close>, which leaves the list when it returns.\<close>

definition renew :: "('w, 'c) storage_deps \<Rightarrow> nat \<Rightarrow> renewal_branch \<Rightarrow> ('w, 'c) process \<Rightarrow> ('w, 'c) process" where
  "renew D i br P =
     (case run_state (renewal_body (api D) (renewals (s3Lock (store P)) ! i) br) (store P) of
        (goes_on, s) \<Rightarrow>
          P\<lparr>store := (if goes_on then s
             else s3Lock_update (renewals_update (\<lambda>rs. take i rs @ drop (Suc i) rs)) s)\<rparr>)"

datatype label =
    Call operation | MoveUpload nat | BeginClose | EndClose | BeginPass loop_branch | MovePass nat | EndPass
  | Monitor monitor_branch | Renew nat renewal_branch | World

inductive step ::
  "slice_sorter \<Rightarrow> ('w, 'c) storage_deps \<Rightarrow> ('w, 'c) process \<Rightarrow> label \<Rightarrow> ('w, 'c) process \<Rightarrow> bool"
  for sorter D
where
  call: "enabled op P \<Longrightarrow> step sorter D P (Call op) (perform sorter D op P)"
| move_upload: "j < length (uploads P) \<Longrightarrow> step sorter D P (MoveUpload j) (move_upload D j P)"
| begin_close: "\<not> closing P \<Longrightarrow> \<not> closed (store P) \<Longrightarrow>
    step sorter D P BeginClose ((exec (close_begin D) P)\<lparr>closing := True\<rparr>)"
| end_close: "closing P \<Longrightarrow> \<not> retryRunning (store P) \<Longrightarrow> step sorter D P EndClose (P\<lparr>closing := False\<rparr>)"
| begin_pass: "pass P = None \<Longrightarrow> retryRunning (store P) \<Longrightarrow> loop_ready D due (store P) br \<Longrightarrow>
    step sorter D P (BeginPass br) (begin_pass sorter D br P)"
| move_pass: "pass P = Some (p, br) \<Longrightarrow> \<not> pool_done p \<Longrightarrow> step sorter D P (MovePass c) (move_pass D c p br P)"
| end_pass: "pass P = Some (p, br) \<Longrightarrow> pool_done p \<Longrightarrow> step sorter D P EndPass (end_pass br P)"
| monitor: "monitor_ready D (store P) br \<Longrightarrow> step sorter D P (Monitor br) (exec (monitor_body br) P)"
| renew: "i < length (renewals (s3Lock (store P))) \<Longrightarrow>
    renewal_ready (plat D) (renewals (s3Lock (store P)) ! i) due (store P) br \<Longrightarrow>
    step sorter D P (Renew i br) (renew D i br P)"
| world: "step sorter D P World (P\<lparr>store := (store P)\<lparr>net := w\<rparr>\<rparr>)"

inductive_cases step_CallE: "step sorter D P (Call op) Q"

inductive steps ::
  "slice_sorter \<Rightarrow> ('w, 'c) storage_deps \<Rightarrow> ('w, 'c) process \<Rightarrow> label list \<Rightarrow> ('w, 'c) process \<Rightarrow> bool"
  for sorter D
where
  none: "steps sorter D P [] P"
| more: "step sorter D P l Q \<Longrightarrow> steps sorter D Q ls R \<Longrightarrow> steps sorter D P (l # ls) R"

inductive_simps steps_simps [simp]: "steps sorter D P [] Q" "steps sorter D P (l # ls) Q"

inductive reachable :: "slice_sorter \<Rightarrow> ('w, 'c) storage_deps \<Rightarrow> ('w, 'c) process \<Rightarrow> bool" for sorter D where
  opened: "run_state (NewS3Storage D o') m = (Inr s, m') \<Longrightarrow> reachable sorter D (new_process s)"
| moved: "reachable sorter D P \<Longrightarrow> step sorter D P l Q \<Longrightarrow> reachable sorter D Q"

lemma reachable_steps: "steps sorter D P ls Q \<Longrightarrow> reachable sorter D P \<Longrightarrow> reachable sorter D Q"
  by (induction rule: steps.induct) (auto intro: reachable.moved)

section \<open>What a step does to the storage\<close>

text \<open>
  Every call is an operation of the storage, with a change of the list of writers at most, or begins an upload.
\<close>

lemma exec_simps [simp]:
  "store (exec f P) = snd (run_state f (store P))" "writers (exec f P) = writers P" "uploads (exec f P) = uploads P" "pass (exec f P) = pass P"
  "closing (exec f P) = closing P"
  by (simp_all add: exec_def)

lemma begin_upload_fields [simp]:
  "store (begin_upload w P) = store P" "pass (begin_upload w P) = pass P" "closing (begin_upload w P) = closing P"
  by (simp_all add: begin_upload_def split: option.split)

lemma move_upload_fields [simp]: "pass (move_upload D j P) = pass P" "closing (move_upload D j P) = closing P"
  by (simp_all add: move_upload_def split: prod.split)

lemma perform_fields [simp]: "pass (perform sorter D op P) = pass P" "closing (perform sorter D op P) = closing P"
  by (cases op; simp split: sum.split)+

lemma life_snd: "keeps same_life f \<Longrightarrow> same_life s (snd (run_state f s))"
  by (metis keeps_run surjective_pairing)

lemmas life_calls = life_session config_files [THEN config_life] config_writers [THEN config_life]
  config_pending [THEN config_life]

lemma same_life_refl [simp]: "same_life s s"
  by (simp add: same_life_def)

lemma life_perform: "same_life (store P) (store (perform sorter D op P))"
  by (cases op; simp add: life_snd life_calls split: sum.split)

lemma move_upload_life: "same_life (store P) (store (move_upload D j P))"
proof -
  have "keeps same_life (upload_task D fd data st)" for fd data st by (intro config_life keeps_rules)
  from life_snd [OF this] show ?thesis by (simp add: move_upload_def case_prod_beta)
qed

lemma begin_pass_life: "same_life (store P) (store (begin_pass sorter D br P))"
proof -
  have "keeps same_life (do { checkPendingPressure; retryPendingFilesOnce sorter [] 0 D })"
    by (intro config_life keeps_rules)
  from life_snd [OF this] show ?thesis by (simp add: begin_pass_def case_prod_beta del: run_state_bind)
qed

lemma move_pass_life: "same_life (store P) (store (move_pass D c p br P))"
proof -
  have "keeps same_life (pool_step (retry_task D) RetStart n c p)" for n
    by (intro config_life keeps_rules)
  from life_snd [OF this] show ?thesis by (simp add: move_pass_def case_prod_beta)
qed

lemma renew_life: "same_life (store P) (store (renew D i br P))"
proof -
  have "keeps same_life (renewal_body (api D) c br)" for c
    unfolding renewal_body_def renewLease_def
    by (auto intro!: keeps_rules config_life [OF config_calls(1)] split: renewal_branch.split)
  from life_snd [OF this] show ?thesis by (simp add: renew_def case_prod_beta)
qed

section \<open>The invariant\<close>

text \<open>
  The state that the constructor sets up: options with their defaults, directories and prefix from
  the options, never empty; and the life of the background goroutine, which runs until \<open>Close\<close>.
\<close>

definition storage_inv :: "('w, 'c) S3Storage \<Rightarrow> bool" where
  "storage_inv s = (positive_options (opt s) \<and> Validate (opt s) = None
     \<and> localDir s = LocalPath (opt s) \<and> LocalPath (opt s) \<noteq> ''''
     \<and> pendingDir s = LocalPersistencePath (opt s) \<and> LocalPersistencePath (opt s) \<noteq> ''''
     \<and> shadowPrefix s = PendingShadowPrefix (opt s) \<and> PendingShadowPrefix (opt s) \<noteq> ''''
     \<and> closed s = retryStopped s \<and> (\<not> closed s \<longrightarrow> retryRunning s))"

text \<open>
  The process: \<open>Close\<close> has set the flag before it waits, and when it has returned the goroutine is
  over; a pass belongs to the goroutine, and its uploads in flight respect the limit.
\<close>

definition process_inv :: "('w, 'c) process \<Rightarrow> bool" where
  "process_inv P = (storage_inv (store P) \<and> (closing P \<longrightarrow> closed (store P))
     \<and> (closed (store P) \<and> \<not> closing P \<longrightarrow> \<not> retryRunning (store P))
     \<and> (case pass P of
          None \<Rightarrow> True
        | Some (p, br) \<Rightarrow> retryRunning (store P) \<and> (br = StopBranch \<longrightarrow> closed (store P))
            \<and> int (length (running p)) \<le> PendingMaxConcurrency (opt (store P))))"

lemma filepath_Join_not_Nil: "x \<noteq> '''' \<Longrightarrow> filepath_Join (x # xs) \<noteq> ''''"
  by (auto simp: filepath_Join_def filepath_Clean_def Let_def)

lemma NewS3Storage_inv:
  assumes "run_state (NewS3Storage D o') m = (Inr s, m')"
  shows "storage_inv s \<and> opt s = ApplyDefaults o' \<and> \<not> closed s \<and> retryRunning s \<and> \<not> lockLost s \<and> \<not> lockHeld s"
proof -
  let ?o = "ApplyDefaults o'"
  have v: "Validate ?o = None"
    using assms by (cases "Validate ?o") (simp_all add: NewS3Storage_def Let_def)
  have e: "EnableLocalPersistence ?o" and p: "PendingShadowPrefix ?o \<noteq> ''''"
    by (simp_all add: ApplyDefaults_def DefaultPendingShadowPrefix_def)
  have "LocalCacheDir ?o \<noteq> ''''" using v by (simp add: Validate_None)
  then have dirs: "LocalPath ?o \<noteq> ''''" "LocalPersistencePath ?o \<noteq> ''''"
    by (simp_all add: LocalPath_def LocalPersistencePath_def filepath_Join_not_Nil)
  have "wp (NewS3Storage D o') (\<lambda>r _. case r of Inl _ \<Rightarrow> True | Inr s \<Rightarrow> opt s = ?o \<and> localDir s = LocalPath ?o
      \<and> pendingDir s = LocalPersistencePath ?o \<and> shadowPrefix s = PendingShadowPrefix ?o \<and> \<not> closed s \<and> \<not> retryStopped s
      \<and> retryRunning s \<and> \<not> lockLost s \<and> \<not> lockHeld s) m"
    using v e dirs by (auto simp: NewS3Storage_def make_dir_def Let_def wp_simps wp_fun intro!: wp_on_disk_any split: sum.split)
  from wp_run [OF this assms] show ?thesis
    using v p dirs positive_options_ApplyDefaults [of o'] by (simp add: storage_inv_def)
qed

lemma storage_inv_life: "storage_inv s \<Longrightarrow> same_life s t \<Longrightarrow> storage_inv t"
  unfolding storage_inv_def same_life_def by metis

text \<open>What the steps of a pass do to the pool.\<close>

lemma begin_pass_pool: "\<exists>p. pass (begin_pass sorter D br P) = Some (p, br) \<and> running p = []"
proof -
  have none: "wp (retryPendingFilesOnce sorter [] 0 D) (\<lambda>p _. running p = []) s" for s
    unfolding retryPendingFilesOnce_def wp_bind wp_gets wp_if
    by (auto simp: wp_simps start_pool_def split: sum.split intro: wp_weaken [OF wp_I [OF TrueI]])
  have "wp (do { checkPendingPressure; retryPendingFilesOnce sorter [] 0 D }) (\<lambda>p _. running p = []) (store P)"
    unfolding wp_bind by (rule wp_I) (rule none)
  then show ?thesis by (auto simp: begin_pass_def wp_def split: prod.splits)
qed

lemma length_advance: "i < length (running p) \<Longrightarrow> length (running (advance i r p)) \<le> length (running p)"
  by (simp add: advance_def split: prod.split progress.split)

lemma move_pass_pool:
  assumes "\<not> pool_done p" and "int (length (running p)) \<le> upload_concurrency (store P)"
  shows "\<exists>p'. pass (move_pass D c p br P) = Some (p', br) \<and> int (length (running p')) \<le> upload_concurrency (store P)"
proof -
  let ?n = "upload_concurrency (store P)"
  have "wp (pool_step (retry_task D) RetStart ?n c p) (\<lambda>p' _. int (length (running p')) \<le> ?n) (store P)"
  proof (rule wp_pool_step [OF assms(1) upload_concurrency_pos], goal_cases)
    case (1 i)
    have "int (length (running (advance i r p))) \<le> ?n" for r using assms(2) length_advance [OF 1, of r] by linarith
    then show ?case by (rule wp_I)
  next
    case 2
    then show ?case by (simp add: can_start_def start_next_def)
  qed
  then show ?thesis by (auto simp: move_pass_def wp_def split: prod.splits)
qed

lemma upload_concurrency_opt: "storage_inv s \<Longrightarrow> upload_concurrency s = PendingMaxConcurrency (opt s)"
  by (simp add: storage_inv_def upload_concurrency_def positive_options_def)

text \<open>The invariant holds at the start and every step keeps it.\<close>

lemma process_inv_new: "run_state (NewS3Storage D o') m = (Inr s, m') \<Longrightarrow> process_inv (new_process s)"
  using NewS3Storage_inv [of D o' m s m'] by (simp add: process_inv_def new_process_def)

lemma process_inv_same:
  assumes "process_inv P" and "same_life (store P) (store Q)" and "pass Q = pass P" and "closing Q = closing P"
  shows "process_inv Q"
  using assms storage_inv_life [OF _ assms(2)]
  by (simp add: process_inv_def same_life_def split: option.splits prod.splits)

lemma process_inv_step: "step sorter D P l Q \<Longrightarrow> process_inv P \<Longrightarrow> process_inv Q"
proof (induction rule: step.induct)
  case (call op P)
  then show ?case by (auto intro: process_inv_same life_perform)
next
  case (move_upload j P)
  then show ?case by (auto intro: process_inv_same move_upload_life)
next
  case (begin_close P)
  then show ?case
    by (simp add: process_inv_def storage_inv_def close_begin_def exec_def modify_def on_net_def
        split: option.splits prod.splits)
next
  case (end_close P)
  then show ?case by (auto simp: process_inv_def split: option.splits prod.splits)
next
  case (begin_pass P due br)
  have "same_life (store P) (store (begin_pass sorter D br P))" by (rule begin_pass_life)
  moreover obtain p where "pass (begin_pass sorter D br P) = Some (p, br)" "running p = []"
    using begin_pass_pool by blast
  moreover have "closing (begin_pass sorter D br P) = closing P" by (simp add: begin_pass_def split: prod.split)
  moreover have "0 < PendingMaxConcurrency (opt (store P))"
    using begin_pass.prems by (simp add: process_inv_def storage_inv_def positive_options_def)
  ultimately show ?case
    using begin_pass storage_inv_life
    by (auto simp: process_inv_def same_life_def loop_ready_def storage_inv_def split: loop_branch.splits)
next
  case (move_pass P p br c)
  have l: "same_life (store P) (store (move_pass D c p br P))" by (rule move_pass_life)
  have inv: "storage_inv (store P)" using move_pass.prems by (simp add: process_inv_def)
  obtain p' where "pass (move_pass D c p br P) = Some (p', br)" "int (length (running p')) \<le> PendingMaxConcurrency (opt (store P))"
  proof -
    have "int (length (running p)) \<le> upload_concurrency (store P)"
      using move_pass upload_concurrency_opt [OF inv] by (simp add: process_inv_def)
    from move_pass_pool [OF move_pass.hyps(2) this, of D c br] upload_concurrency_opt [OF inv] that show ?thesis by auto
  qed
  moreover have "closing (move_pass D c p br P) = closing P" by (simp add: move_pass_def split: prod.split)
  ultimately show ?case
    using move_pass l storage_inv_life [OF inv l] by (auto simp: process_inv_def same_life_def)
next
  case (end_pass P p br)
  then show ?case by (cases br) (auto simp: process_inv_def end_pass_def storage_inv_def)
next
  case (monitor P br)
  then show ?case
    by (cases br) (auto simp: process_inv_def storage_inv_def monitor_body_def exec_def modify_def split: option.splits)
next
  case (renew i P due br)
  then show ?case
    by (rule_tac process_inv_same [OF _ renew_life]) (auto simp: renew_def split: prod.split)
next
  case (world P w)
  then show ?case by (rule_tac process_inv_same) (auto simp: same_life_def)
qed

lemma reachable_inv: "reachable sorter D P \<Longrightarrow> process_inv P"
  by (induction rule: reachable.induct) (blast intro: process_inv_new process_inv_step)+

section \<open>The fence\<close>

text \<open>
  Once the lock is lost, what does an operation do to the objects outside the reserved lock key and the
  shadow prefix? \<open>fenced view\<close> says: nothing. It is kept by all of the code but the uploads of \<open>Lock\<close>
  and of \<open>RetryPendingUploads\<close> and an upload of the background goroutine that is in flight.
\<close>

definition fenced :: "('w \<Rightarrow> string \<Rightarrow> bytes option) \<Rightarrow> ('w, 'c) S3Storage \<Rightarrow> ('w, 'c) S3Storage \<Rightarrow> bool" where
  "fenced view s t = (lockLost s \<longrightarrow> lockLost t
     \<and> (\<forall>k. k \<noteq> ''LOCK'' \<and> CHR ''/'' \<notin> set k \<longrightarrow> view (net t) k = view (net s) k))"

interpretation fence: state_relation "fenced view :: ('w, 'c) S3Storage \<Rightarrow> ('w, 'c) S3Storage \<Rightarrow> bool" for view
  by unfold_locales (auto simp: fenced_def)

lemma fenced_local [keeps_rules]:
  "keeps (fenced view) (on_disk g)" "keeps (fenced view) (modify (cache_update h))" "keeps (fenced view) (cache_get D fd)"
  "keeps (fenced view) (modify (lockHeld_update b))" "keeps (fenced view) (modify (warnings_update w))"
proof -
  show "keeps (fenced view) (cache_get D fd)" by (auto simp: keeps_def cache_get_def wp_def fenced_def split: prod.split)
qed (auto simp: keeps_def wp_modify wp_on_disk fenced_def split: prod.split)

lemma fenced_guarded [keeps_rules]: "keeps (fenced view) (guarded err f)"
proof (rule keepsI)
  fix s show "wp (guarded err f) (\<lambda>_. fenced view s) s"
    by (rule wp_guarded) (auto simp: fenced_def intro!: wp_I)
qed

lemma fenced_upload [keeps_rules]: "keeps (fenced view) (uploadFile D fd d)"
proof (rule keepsI)
  fix s show "wp (uploadFile D fd d) (\<lambda>_. fenced view s) s"
    by (cases "lockLost s") (auto simp: uploadFile_def wp_simps Let_def fenced_def intro!: wp_I)
qed

lemma fenced_writers [keeps_rules]:
  "keeps (fenced view) (memWriter_Write w d)" "keeps (fenced view) (memWriter_Sync D w)" "keeps (fenced view) (memWriter_Close D w)"
proof -
  have sync: "keeps (fenced view) (run_syncFn D w)"
    by (auto simp: run_syncFn_def intro!: keeps_rules split: option.split sync_fn.split)
  show "keeps (fenced view) (memWriter_Write w d)" unfolding memWriter_Write_def by (intro keeps_rules)
  show "keeps (fenced view) (memWriter_Sync D w)" unfolding memWriter_Sync_def by (intro keeps_rules sync)
  show "keeps (fenced view) (memWriter_Close D w)" unfolding memWriter_Close_def by (intro keeps_rules sync)
qed

context storage_env
begin

text \<open>Requests that only read, and requests that write reserved keys only.\<close>

lemma fenced_requests:
  "keeps (fenced view) (on_net (api_GetBytes (api D) c k))" "keeps (fenced view) (on_net (api_Exists (api D) c k))"
  "keeps (fenced view) (on_net (api_List (api D) c))" "keeps (fenced view) (on_net (api_ListNames (api D) c p))"
  by (auto simp: keeps_def fenced_def intro: wp_get wp_exists wp_list wp_names)

lemma fenced_reserved:
  assumes "k = ''LOCK'' \<or> CHR ''/'' \<in> set k"
  shows "keeps (fenced view) (on_net (api_PutBytes (api D) c k d))" and "keeps (fenced view) (on_net (api_Remove (api D) c k))"
  using assms by (auto simp: keeps_def fenced_def intro!: wp_put wp_remove)

lemma fenced_shadow: "keeps (fenced view) (cleanShadow D n)" "keeps (fenced view) (uploadToShadow D n d)"
  unfolding cleanShadow_def uploadToShadow_def by (intro keeps_rules fenced_reserved; simp)+

lemma fenced_readers:
  "keeps (fenced view) (GetMeta D)" "keeps (fenced view) (List_files D ft)" "keeps (fenced view) (Open D fd)"
  "keeps (fenced view) HasPendingUploads" "keeps (fenced view) checkPendingPressure"
  unfolding GetMeta_def read_meta_def meta_target_def List_files_def pending_fds_def Open_def open_pending_def
    HasPendingUploads_def cache_add_def checkPendingPressure_def add_pending_size_def
  by (intro keeps_rules fenced_requests)+

lemma fenced_writes:
  "keeps (fenced view) (SetMeta D fd)" "keeps (fenced view) (Create D fd)" "keeps (fenced view) (Remove D fd)"
  "keeps (fenced view) (Rename D fd fd')"
  unfolding SetMeta_def Create_def Remove_def Rename_def by (intro keeps_rules)+

lemma fenced_unlock: "keeps (fenced view) (Storage_Unlock D)" "keeps (fenced view) (storageLocker_Unlock D)"
proof -
  have rel: "keeps (fenced view) (release_lock D)"
  proof (rule keepsI)
    fix s show "wp (release_lock D) (\<lambda>_. fenced view s) s"
      by (rule wp_weaken [OF release_lock_effect]) (auto simp: released_def fenced_def split: if_splits)
  qed
  show "keeps (fenced view) (Storage_Unlock D)" "keeps (fenced view) (storageLocker_Unlock D)"
    unfolding Storage_Unlock_def storageLocker_Unlock_def by (intro keeps_rules rel)+
qed

end

text \<open>The same for the steps of the goroutines: an upload that has not begun does not begin.\<close>

definition no_upload :: "retry_stage pool \<Rightarrow> bool" where
  "no_upload p = (\<forall>x \<in> set (running p). \<forall>a n. snd x \<noteq> RetPut a n)"

definition nothing_in_flight :: "('w, 'c) process \<Rightarrow> bool" where
  "nothing_in_flight P =
     ((case pass P of None \<Rightarrow> True | Some (p, _) \<Rightarrow> no_upload p) \<and> (\<forall>(_, _, st) \<in> set (uploads P). st \<noteq> UpPut))"

text \<open>The steps that may write objects without asking for the flag.\<close>

fun ignores_fence :: "label \<Rightarrow> bool" where
  "ignores_fence (Call (OpLock sched)) = True"
| "ignores_fence (Call OpRetryPending) = True"
| "ignores_fence World = True"
| "ignores_fence _ = False"

lemma no_upload_start: "no_upload p \<Longrightarrow> waiting p \<noteq> [] \<Longrightarrow> no_upload (start_next RetStart p)"
  by (auto simp: no_upload_def start_next_def)

lemma no_upload_advance:
  assumes "no_upload p" and "i < length (running p)" and "\<forall>a n. r \<noteq> Running (RetPut a n)"
  shows "no_upload (advance i r p)"
proof -
  obtain f st where f: "running p ! i = (f, st)" by force
  show ?thesis
    using assms by (cases r) (auto simp: no_upload_def advance_def f set_update_others dest: in_set_takeD in_set_dropD)
qed

locale fence_env = storage_env +
  assumes sleep_quiet: "\<And>d w. view (snd (SelectAfter (plat_rt (plat D)) Background d w)) = view w"
begin

lemma fenced_task:
  assumes "lockLost s" and "\<forall>a n. st \<noteq> RetPut a n"
  shows "wp (retry_task D f st) (\<lambda>r t. fenced view s t \<and> (\<forall>a n. r \<noteq> Running (RetPut a n))) s"
proof (cases st)
  case RetShadow
  have "wp (cleanShadow D (pe_name f)) (\<lambda>_. fenced view s) s" using fenced_shadow(1) by (simp add: keeps_def)
  then show ?thesis by (simp add: RetShadow retry_task.simps wp_simps wp_fun)
next
  case (RetWait a n d)
  then show ?thesis using sleep_quiet by (auto simp: wp_def run_upload_stage fenced_def)
next
  case (RetPut a n)
  then show ?thesis using assms(2) by simp
qed (use assms in \<open>auto simp: retry_task.simps wp_simps wp_fun fenced_def intro!: wp_on_disk_any\<close>)

lemma fenced_pool_step:
  assumes "lockLost s" and "no_upload p" and "\<not> pool_done p" and "1 \<le> cap"
  shows "wp (pool_step (retry_task D) RetStart cap c p) (\<lambda>p' t. fenced view s t \<and> no_upload p') s"
proof (rule wp_pool_step [OF assms(3,4)], goal_cases)
  case (1 i)
  then have "\<forall>a n. snd (running p ! i) \<noteq> RetPut a n" using assms(2) by (simp add: no_upload_def)
  from fenced_task [OF assms(1) this] show ?case
    by (rule wp_weaken) (use no_upload_advance [OF assms(2) 1] in blast)
next
  case 2
  then show ?case using no_upload_start [OF assms(2)] by (simp add: can_start_def fenced_def)
qed

end

interpretation demo_fence: fence_env demo_deps sim_objs lru_list_content
  by (intro fence_env.intro fence_env_axioms.intro demo_env) (simp add: sim_platform_def sim_rt_def sim_objs_def)

context fence_env
begin

lemma fenced_snd: "keeps (fenced view) f \<Longrightarrow> fenced view s (snd (run_state f s))"
  by (metis keeps_run surjective_pairing)

lemmas fenced_calls = fenced_readers fenced_writes fenced_unlock fenced_writers

lemma fenced_perform:
  assumes "\<not> ignores_fence (Call op)"
  shows "fenced view (store P) (store (perform sorter D op P))"
  using assms by (cases op; simp add: fenced_snd fenced_calls fence.kept_refl split: sum.split)

text \<open>Neither does an upload that a writer begins: its first stage is not the request, and \<open>UpCheck\<close> asks for the flag.\<close>

lemma perform_in_flight: "nothing_in_flight P \<Longrightarrow> nothing_in_flight (perform sorter D op P)"
  by (cases op)
    (auto simp: nothing_in_flight_def begin_upload_def first_stage_def split: option.splits sync_fn.splits sum.splits)

lemma fenced_upload_task:
  assumes "lockLost s" and "st \<noteq> UpPut"
  shows "wp (upload_task D fd data st) (\<lambda>r t. fenced view s t \<and> r \<noteq> Running UpPut) s"
proof (cases st)
  case (UpBackup err)
  have "wp (uploadToShadow D (fdString D fd) data) (\<lambda>_. fenced view s) s" using fenced_shadow(2) by (simp add: keeps_def)
  then show ?thesis by (simp add: UpBackup wp_simps wp_fun)
next
  case UpShadow
  have "wp (cleanShadow D (fdString D fd)) (\<lambda>_. fenced view s) s" using fenced_shadow(1) by (simp add: keeps_def)
  then show ?thesis by (simp add: UpShadow wp_simps wp_fun)
next
  case UpCache
  have "wp (cache_add D fd data) (\<lambda>_. fenced view s) s" by (auto simp: cache_add_def wp_simps wp_modify fenced_def)
  then show ?thesis by (simp add: UpCache wp_simps wp_fun)
qed (use assms in \<open>auto simp: wp_simps wp_fun fenced_def intro!: wp_on_disk_any split: sum.splits\<close>)

lemma fenced_move_upload:
  assumes "lockLost (store P)" and "nothing_in_flight P" and "j < length (uploads P)"
  shows "fenced view (store P) (store (move_upload D j P)) \<and> nothing_in_flight (move_upload D j P)"
proof -
  obtain fd data st where u: "uploads P ! j = (fd, data, st)" by (cases "uploads P ! j")
  obtain r t where t: "run_state (upload_task D fd data st) (store P) = (r, t)" by force
  have "st \<noteq> UpPut" using assms(2,3) u nth_mem [OF assms(3)] by (auto simp: nothing_in_flight_def)
  from wp_run [OF fenced_upload_task [OF assms(1) this] t] assms(2,3) show ?thesis
    by (cases r)
      (auto simp: move_upload_def nothing_in_flight_def u t set_update_others dest: in_set_takeD in_set_dropD)
qed

lemma fenced_begin_pass:
  assumes "lockLost (store P)"
    and "nothing_in_flight P"
  shows "fenced view (store P) (store (begin_pass sorter D br P)) \<and> nothing_in_flight (begin_pass sorter D br P)"
proof -
  have none: "wp (retryPendingFilesOnce sorter [] 0 D) (\<lambda>p t. t = s \<and> running p = []) s" if "lockLost s" for s
    using that by (simp add: retryPendingFilesOnce_def wp_simps start_pool_def)
  have "wp (retryPendingFilesOnce sorter [] 0 D) (\<lambda>p t. fenced view (store P) t \<and> running p = []) s" if "fenced view (store P) s" for s
    by (rule wp_weaken [OF none]) (use that assms in \<open>auto simp: fenced_def\<close>)
  moreover have "wp checkPendingPressure (\<lambda>_. fenced view (store P)) (store P)"
    using fenced_readers(5) unfolding keeps_def by blast
  ultimately have "wp (do { checkPendingPressure; retryPendingFilesOnce sorter [] 0 D })
      (\<lambda>p t. fenced view (store P) t \<and> running p = []) (store P)"
    unfolding wp_bind by (rule_tac wp_weaken)
  then show ?thesis
    using assms(2) by (auto simp: begin_pass_def wp_def nothing_in_flight_def no_upload_def split: prod.splits)
qed

lemma fenced_move_pass:
  assumes "lockLost (store P)" and "no_upload p" and "\<not> pool_done p" and "nothing_in_flight P"
  shows "fenced view (store P) (store (move_pass D c p br P)) \<and> nothing_in_flight (move_pass D c p br P)"
proof -
  obtain p' t where t: "run_state (pool_step (retry_task D) RetStart (upload_concurrency (store P)) c p) (store P) = (p', t)"
    by force
  from wp_run [OF fenced_pool_step [OF assms(1-3) upload_concurrency_pos] t] t assms(4) show ?thesis
    by (simp add: move_pass_def nothing_in_flight_def)
qed

lemma fenced_renew: "fenced view (store P) (store (renew D i br P))"
proof -
  have lock: "fenced view s (s3Lock_update f t) = fenced view s t" for s t f by (simp add: fenced_def)
  have "keeps (fenced view) (modify (s3Lock_update f))" for f by (simp add: keeps_def wp_modify fenced_def)
  then have "keeps (fenced view) (renewal_body (api D) c br)" for c
    unfolding renewal_body_def renewLease_def
    by (auto intro!: keeps_rules fenced_reserved split: renewal_branch.split)
  from fenced_snd [OF this] show ?thesis by (simp add: renew_def case_prod_beta lock)
qed

lemma fenced_step:
  assumes "step sorter D P l Q" and "lockLost (store P)" and "nothing_in_flight P" and "\<not> ignores_fence l"
  shows "fenced view (store P) (store Q) \<and> nothing_in_flight Q"
  using assms
proof (induction rule: step.induct)
  case (call op P)
  then show ?case using fenced_perform perform_in_flight by blast
next
  case (move_upload j P)
  then show ?case using fenced_move_upload by blast
next
  case (begin_close P)
  then show ?case
    by (simp add: nothing_in_flight_def close_begin_def exec_def modify_def on_net_def fenced_def cancel_quiet)
next
  case (begin_pass P due br)
  then show ?case using fenced_begin_pass by blast
next
  case (move_pass P p br c)
  have "no_upload p" using move_pass.hyps(1) move_pass.prems(2) by (simp add: nothing_in_flight_def)
  then show ?case using fenced_move_pass move_pass by blast
next
  case (end_pass P p br)
  then show ?case by (cases br) (simp_all add: nothing_in_flight_def end_pass_def fenced_def)
next
  case (monitor P br)
  then show ?case by (cases br) (simp_all add: nothing_in_flight_def monitor_body_def exec_def modify_def fenced_def)
next
  case (renew i P due br)
  then show ?case using fenced_renew by (simp add: nothing_in_flight_def renew_def split: prod.splits)
qed (simp_all add: nothing_in_flight_def fenced_def)

lemma fenced_steps:
  assumes "steps sorter D P ls Q" and "lockLost (store P)" and "nothing_in_flight P" and "\<forall>l \<in> set ls. \<not> ignores_fence l"
  shows "fenced view (store P) (store Q)"
  using assms
proof (induction rule: steps.induct)
  case (none P)
  then show ?case by (rule_tac fence.kept_refl)
next
  case (more P l Q ls R)
  have q: "fenced view (store P) (store Q)" "nothing_in_flight Q"
    using fenced_step [OF more.hyps(1)] more.prems by simp_all
  moreover have "lockLost (store Q)" using q(1) more.prems(1) by (simp add: fenced_def)
  ultimately have "fenced view (store Q) (store R)" using more by simp
  then show ?case by (rule fence.kept_trans [OF q(1)])
qed

end

section \<open>Close ends\<close>

fun is_move :: "label \<Rightarrow> bool" where
  "is_move (MovePass c) = True"
| "is_move _ = False"

lemma move_pass_rank:
  assumes "retryStopped (store P)" and "\<not> pool_done p"
  shows "\<exists>p'. pass (move_pass D c p br P) = Some (p', br) \<and> pool_rank close_rank 3 p' < pool_rank close_rank 3 p"
proof -
  obtain p' t where t: "run_state (pool_step (retry_task D) RetStart (upload_concurrency (store P)) c p) (store P) = (p', t)"
    by force
  have "closing_rank.ok_pool p" by (simp add: closing_rank.ok_pool_def)
  from wp_run [OF closing_rank.pool_step_rank [OF assms(2) upload_concurrency_pos this assms(1)] t] t show ?thesis
    by (simp add: move_pass_def)
qed

text \<open>A step of anything else leaves the pool alone, until the pass ends; and the stop channel stays closed.\<close>

lemma step_stopped: "step sorter D P l Q \<Longrightarrow> retryStopped (store P) \<Longrightarrow> retryStopped (store Q)"
proof (induction rule: step.induct)
  case (call op P)
  then show ?case using life_perform [of P sorter D op] by (auto simp: same_life_def)
next
  case (begin_pass P due br)
  then show ?case using begin_pass_life [of P sorter D br] by (auto simp: same_life_def)
next
  case (move_upload j P)
  then show ?case using move_upload_life [of P D j] by (auto simp: same_life_def)
next
  case (move_pass P p br c)
  then show ?case using move_pass_life [of P D c p br] by (auto simp: same_life_def)
next
  case (renew i P due br)
  then show ?case using renew_life [of P D i br] by (auto simp: same_life_def)
next
  case (end_pass P p br)
  then show ?case by (cases br) (simp_all add: end_pass_def)
next
  case (monitor P br)
  then show ?case by (cases br) (simp_all add: monitor_body_def exec_def modify_def)
qed (simp_all add: close_begin_def exec_def modify_def on_net_def split: prod.split)

lemma step_pool:
  assumes "step sorter D P l Q" and "pass P = Some (p, br)" and "retryStopped (store P)" and "l \<noteq> EndPass"
  shows "\<exists>p'. pass Q = Some (p', br) \<and> pool_rank close_rank 3 p' + (if is_move l then 1 else 0) \<le> pool_rank close_rank 3 p"
  using assms
proof (induction rule: step.induct)
  case (move_pass P p' br' c)
  then show ?case using move_pass_rank [OF move_pass.prems(2), of p D c br] by auto
next
  case (renew i P due br)
  then show ?case by (simp add: renew_def split: prod.split)
qed simp_all

lemma moves_bounded:
  assumes "steps sorter D P ls Q" and "pass P = Some (p, br)" and "retryStopped (store P)" and "EndPass \<notin> set ls"
  shows "length (filter is_move ls) \<le> pool_rank close_rank 3 p"
  using assms
proof (induction arbitrary: p rule: steps.induct)
  case (none P)
  then show ?case by simp
next
  case (more P l Q ls R)
  obtain p' where "pass Q = Some (p', br)" "pool_rank close_rank 3 p' + (if is_move l then 1 else 0) \<le> pool_rank close_rank 3 p"
    using step_pool [OF more.hyps(1) more.prems(1,2)] more.prems(3) by auto
  moreover have "length (filter is_move ls) \<le> pool_rank close_rank 3 p'"
    using more.IH [OF calculation(1) step_stopped [OF more.hyps(1) more.prems(2)]] more.prems(3) by simp
  ultimately show ?case by (cases "is_move l") simp_all
qed

text \<open>While \<open>Close\<close> waits, the goroutine or \<open>Close\<close> itself can always move.\<close>

lemma closing_not_stuck:
  assumes "process_inv P" and "closing P"
  shows "\<exists>l Q. (is_move l \<or> l \<in> {EndClose, EndPass, BeginPass StopBranch}) \<and> step sorter D P l Q"
proof (cases "pass P")
  case None
  have "retryStopped (store P)" using assms by (auto simp: process_inv_def storage_inv_def None)
  then have "loop_ready D 0 (store P) StopBranch" by (simp add: loop_ready_def)
  then show ?thesis
    using None assms(2) step.end_close [of P sorter D] step.begin_pass [OF None, of D 0 StopBranch sorter] by blast
next
  case (Some x)
  then obtain p br where p: "pass P = Some (p, br)" by (cases x) auto
  show ?thesis using step.move_pass [OF p, of sorter D 0] step.end_pass [OF p, of sorter D] is_move.simps(1) by blast
qed

section \<open>Properties\<close>

text \<open>
  C25: The constructor establishes the invariant of the type: with the defaults filled in, every number
  that later code divides, shifts or waits by is positive; both directories and the shadow prefix come
  from the options and are not empty, so that the code for their absence is never reached; and the
  background goroutine runs. The new storage is open and holds no lock.
\<close>

theorem NewS3Storage_establishes_invariant:
  assumes "run_state (NewS3Storage D o') m = (Inr s, m')"
  shows "storage_inv s \<and> opt s = ApplyDefaults o' \<and> pendingDir s \<noteq> '''' \<and> shadowPrefix s \<noteq> ''''
     \<and> \<not> closed s \<and> retryRunning s \<and> \<not> lockLost s \<and> \<not> lockHeld s"
  using NewS3Storage_inv [OF assms] by (auto simp: storage_inv_def)

lemma demo_opened: "\<exists>s m'. run_state (NewS3Storage demo_deps demo_option) (demo_machine []) = (Inr s, m')"
proof -
  have "wp (NewS3Storage demo_deps demo_option) (\<lambda>r _. \<exists>s. r = Inr s) (demo_machine [])"
    by (simp add: NewS3Storage_def [THEN wp_unfold] make_dir_def [THEN wp_unfold] demo_machine_def demo_disk_def demo_option_def ApplyDefaults_def or_default_def
        Validate_def LocalPath_def LocalPersistencePath_def lru_list_ops_def default_defs wp_exec mem_eval host_eval path_eval
        cong: wp_state_cong)
  then show ?thesis by (auto simp: wp_def split: prod.splits)
qed

theorem NewS3Storage_establishes_invariant_witness:
  "\<exists>s m'. run_state (NewS3Storage demo_deps demo_option) (demo_machine []) = (Inr s, m') \<and> storage_inv s \<and> \<not> closed s"
proof -
  obtain s m' where s: "run_state (NewS3Storage demo_deps demo_option) (demo_machine []) = (Inr s, m')"
    using demo_opened by blast
  from NewS3Storage_establishes_invariant [OF s] s show ?thesis by blast
qed

text \<open>
  C8: In every state that a process can reach, by any interleaving of its calls, uploads and goroutines with
  anything that others do to the bucket, the invariant holds: the storage is closed exactly when the
  stop channel is; the background goroutine runs until then, and it is over once \<open>Close\<close> has returned;
  a last pass is only made by a closed storage; at most \<^verbatim>\<open>PendingMaxConcurrency\<close> uploads are in flight.
\<close>

theorem reachable_processes_are_consistent:
  assumes "reachable sorter D P"
  shows "storage_inv (store P) \<and> closed (store P) = retryStopped (store P)
     \<and> (\<not> closed (store P) \<longrightarrow> retryRunning (store P))
     \<and> (closed (store P) \<and> \<not> closing P \<longrightarrow> \<not> retryRunning (store P) \<and> pass P = None)
     \<and> (\<forall>p br. pass P = Some (p, br) \<longrightarrow> (br = StopBranch \<longrightarrow> closed (store P))
          \<and> int (length (running p)) \<le> PendingMaxConcurrency (opt (store P)))"
  using reachable_inv [OF assms]
  by (cases "pass P") (auto simp: process_inv_def storage_inv_def)

lemma reachable_closing: "\<exists>P :: (sim_world, lru_list) process. reachable slice_insertion demo_deps P \<and> closing P"
proof -
  obtain s m' where s: "run_state (NewS3Storage demo_deps demo_option) (demo_machine []) = (Inr s, m')"
    using demo_opened by blast
  have "\<not> closed s" using NewS3Storage_inv [OF s] by simp
  then have "step slice_insertion demo_deps (new_process s) BeginClose ((exec (close_begin demo_deps) (new_process s))\<lparr>closing := True\<rparr>)"
    by (intro step.begin_close) (simp_all add: new_process_def)
  then show ?thesis using reachable.opened [OF s] reachable.moved by fastforce
qed

theorem reachable_processes_are_consistent_witness:
  "\<exists>P :: (sim_world, lru_list) process. reachable slice_insertion demo_deps P \<and> closing P
     \<and> closed (store P) = retryStopped (store P) \<and> 0 < PendingMaxConcurrency (opt (store P))"
proof -
  obtain P :: "(sim_world, lru_list) process" where P: "reachable slice_insertion demo_deps P" "closing P"
    using reachable_closing by blast
  from reachable_processes_are_consistent [OF P(1)] P show ?thesis
    by (auto simp: storage_inv_def positive_options_def)
qed

text \<open>
  C4: The fence holds for the process as a whole. From any state in which the lock is lost and no
  request of the background goroutine or of a writer's upload is in flight, no sequence of calls, steps of uploads
  and steps of goroutines changes
  an object of the database, and the lock stays lost: the exceptions are a new \<open>Lock\<close> and
  \<open>RetryPendingUploads\<close>, which write without asking, and what others do. (The lock object itself and
  the shadow prefix are outside of the statement.)
\<close>

theorem lost_lock_fences_the_process:
  assumes "storage_env D view content"
    and "\<And>d w. view (snd (SelectAfter (plat_rt (plat D)) Background d w)) = view w"
    and "lockLost (store P)" and "nothing_in_flight P"
    and "steps sorter D P ls Q" and "\<forall>l \<in> set ls. \<not> ignores_fence l"
    and "k \<noteq> ''LOCK''" and "CHR ''/'' \<notin> set k"
  shows "lockLost (store Q) \<and> view (net (store Q)) k = view (net (store P)) k"
  using fence_env.fenced_steps [OF fence_env.intro [OF assms(1) fence_env_axioms.intro [OF assms(2)]] assms(5,3,4,6)] assms(3,7,8)
  by (simp add: fenced_def)

theorem lost_lock_fences_the_process_witness:
  "\<exists>P Q :: (sim_world, lru_list) process. steps slice_insertion demo_deps P [Call (OpRemove (FileDesc TypeTable 1)), BeginClose] Q
     \<and> lockLost (store Q) \<and> sim_objs (net (store Q)) ''000001.ldb'' = Some ''abc''"
proof -
  let ?s = "(demo_storage [(''000001.ldb'', ''abc'')] [] [])\<lparr>lockLost := True\<rparr>"
  let ?P = "new_process ?s"
  let ?P1 = "perform slice_insertion demo_deps (OpRemove (FileDesc TypeTable 1)) ?P"
  have "closed (store ?P1) = closed (store ?P)"
    using life_perform [of ?P slice_insertion demo_deps "OpRemove (FileDesc TypeTable 1)"] unfolding same_life_def by blast
  then have c: "\<not> closed (store ?P1)" by (simp only: new_process_def) simp
  let ?Q = "(exec (close_begin demo_deps) ?P1)\<lparr>closing := True\<rparr>"
  have "step slice_insertion demo_deps ?P (Call (OpRemove (FileDesc TypeTable 1))) ?P1"
    by (rule step.call) (simp add: new_process_def)
  moreover have "step slice_insertion demo_deps ?P1 BeginClose ?Q"
    using c by (intro step.begin_close) (simp_all add: new_process_def)
  ultimately have "steps slice_insertion demo_deps ?P [Call (OpRemove (FileDesc TypeTable 1)), BeginClose] ?Q"
    by (blast intro: steps.intros)
  note st = this
  have "sim_objs (snd (SelectAfter (plat_rt (plat demo_deps)) Background x w)) = sim_objs w" for x w
    by (simp add: sim_platform_def sim_rt_def sim_objs_def)
  from lost_lock_fences_the_process [OF demo_env this _ _ st, of "''000001.ldb''"]
  have "lockLost (store ?Q) \<and> sim_objs (net (store ?Q)) ''000001.ldb'' = sim_objs (net ?s) ''000001.ldb''"
    by (simp add: new_process_def nothing_in_flight_def)
  moreover have "sim_objs (net ?s) ''000001.ldb'' = Some ''abc''" by (simp add: demo_storage_def mem_eval)
  ultimately show ?thesis using st by metis
qed

text \<open>
  C15: \<open>Close\<close> ends. While it waits (in any reachable state) the process is never stuck: the background
  goroutine can start its last pass, move or end its pass, or \<open>Close\<close> can return. And a pass that is
  under way makes at most a bounded number of further moves, whatever happens in between and whatever the
  client answers: three for a file not yet begun, fewer for the others.
\<close>

theorem Close_ends:
  assumes "reachable sorter D P" and "closing P"
  shows "(\<exists>l Q. (is_move l \<or> l \<in> {EndClose, EndPass, BeginPass StopBranch}) \<and> step sorter D P l Q)
     \<and> (\<forall>p br ls Q. pass P = Some (p, br) \<and> steps sorter D P ls Q \<and> EndPass \<notin> set ls
          \<longrightarrow> length (filter is_move ls) \<le> pool_rank close_rank 3 p)"
proof -
  have inv: "process_inv P" using reachable_inv [OF assms(1)] .
  then have "retryStopped (store P)" using assms(2) by (auto simp: process_inv_def storage_inv_def)
  then show ?thesis using closing_not_stuck [OF inv assms(2)] moves_bounded by blast
qed

theorem Close_ends_witness:
  "\<exists>P :: (sim_world, lru_list) process. closing P \<and> reachable slice_insertion demo_deps P
     \<and> (\<exists>l Q. step slice_insertion demo_deps P l Q)"
proof -
  obtain P :: "(sim_world, lru_list) process" where P: "reachable slice_insertion demo_deps P" "closing P"
    using reachable_closing by blast
  from Close_ends [OF P] P show ?thesis by blast
qed

end
