(* ===== verification/Storage_Refinement.thy ===== *)
theory Storage_Refinement
  imports Frames
begin

text \<open>
  What the storage promises to its client, goleveldb: a map from descriptors to contents and a pointer to
  the current manifest. \<open>spec_step\<close> is that abstract store, \<open>view_of\<close> the abstraction function, and
  every operation that succeeds takes the abstract step, with the same answer (\<^verbatim>\<open>s3/storage.go\<close>).
\<close>

section \<open>The abstract store\<close>

record file_store =
  fs_files :: "file_desc \<Rightarrow> bytes option"
  fs_current :: "file_desc option"

datatype file_op =
    WriteFile file_desc "bytes list" | OpenFile file_desc | RemoveFile file_desc
  | RenameFile file_desc file_desc | SetCurrent file_desc | GetCurrent

datatype answer = Done | Contents bytes | Current file_desc

fun spec_step :: "file_op \<Rightarrow> file_store \<Rightarrow> (answer \<times> file_store) option" where
  "spec_step (WriteFile fd ps) m = Some (Done, m\<lparr>fs_files := (fs_files m)(fd \<mapsto> concat ps)\<rparr>)"
| "spec_step (OpenFile fd) m = (case fs_files m fd of None \<Rightarrow> None | Some d \<Rightarrow> Some (Contents d, m))"
| "spec_step (RemoveFile fd) m = Some (Done, m\<lparr>fs_files := (fs_files m)(fd := None)\<rparr>)"
| "spec_step (RenameFile a b) m =
     (case fs_files m a of None \<Rightarrow> None | Some d \<Rightarrow> Some (Done, m\<lparr>fs_files := (fs_files m)(a := None, b \<mapsto> d)\<rparr>))"
| "spec_step (SetCurrent fd) m = Some (Done, m\<lparr>fs_current := Some fd\<rparr>)"
| "spec_step GetCurrent m =
     (case fs_current m of
        None \<Rightarrow> None
      | Some fd \<Rightarrow> if fs_files m fd = None then None else Some (Current fd, m))"

fun spec_run :: "file_op list \<Rightarrow> file_store \<Rightarrow> (answer list \<times> file_store) option" where
  "spec_run [] m = Some ([], m)"
| "spec_run (op # ops) m =
     (case spec_step op m of
        None \<Rightarrow> None
      | Some (a, m') \<Rightarrow> (case spec_run ops m' of None \<Rightarrow> None | Some (as, m'') \<Rightarrow> Some (a # as, m'')))"

text \<open>What a call that returns an error may have done: a request can be carried out although its answer is lost.\<close>

fun spec_failures :: "file_op \<Rightarrow> file_store \<Rightarrow> file_store set" where
  "spec_failures (WriteFile fd ps) m = {m, m\<lparr>fs_files := (fs_files m)(fd \<mapsto> concat ps)\<rparr>}"
| "spec_failures (OpenFile fd) m = {m}"
| "spec_failures (RemoveFile fd) m = {m, m\<lparr>fs_files := (fs_files m)(fd := None)\<rparr>}"
| "spec_failures (RenameFile a b) m = {m, m\<lparr>fs_files := (fs_files m)(b := fs_files m a)\<rparr>,
     m\<lparr>fs_files := (fs_files m)(a := None, b := fs_files m a)\<rparr>}"
| "spec_failures (SetCurrent fd) m = {m, m\<lparr>fs_current := Some fd\<rparr>}"
| "spec_failures GetCurrent m = {m}"

section \<open>The operations of the storage\<close>

definition answered :: "answer \<Rightarrow> error option \<Rightarrow> error + answer" where
  "answered a e = (case e of None \<Rightarrow> Inr a | Some err \<Rightarrow> Inl err)"

fun do_op :: "('w, 'c) storage_deps \<Rightarrow> file_op \<Rightarrow> (('w, 'c) S3Storage, error + answer) state" where
  "do_op D (WriteFile fd ps) = do { e \<leftarrow> write_file D fd ps; ret (answered Done e) }"
| "do_op D (OpenFile fd) = do { r \<leftarrow> Open D fd; ret (map_sum id (\<lambda>rd. Contents (rd_data rd)) r) }"
| "do_op D (RemoveFile fd) = do { e \<leftarrow> Remove D fd; ret (answered Done e) }"
| "do_op D (RenameFile a b) = do { e \<leftarrow> Rename D a b; ret (answered Done e) }"
| "do_op D (SetCurrent fd) = do { e \<leftarrow> SetMeta D fd; ret (answered Done e) }"
| "do_op D GetCurrent = do { r \<leftarrow> GetMeta D; ret (map_sum id Current r) }"

text \<open>
  The abstraction function, and the states that it is sound for: what is cached is what the bucket
  holds, the pointer is a proper descriptor, nothing waits in the pending directory, and the local
  directory is not inside of that one.
\<close>

definition view_of :: "('w, 'c) storage_deps \<Rightarrow> ('w \<Rightarrow> string \<Rightarrow> bytes option) \<Rightarrow> ('w, 'c) S3Storage \<Rightarrow> file_store" where
  "view_of D view s = \<lparr>fs_files = (\<lambda>fd. if valid_fd fd then view (net s) (fdString D fd) else None),
     fs_current = current_fd (view (net s))\<rparr>"

definition coherent ::
  "('w, 'c) storage_deps \<Rightarrow> ('w \<Rightarrow> string \<Rightarrow> bytes option) \<Rightarrow> ('c \<Rightarrow> string \<Rightarrow> memFile option) \<Rightarrow> ('w, 'c) S3Storage \<Rightarrow> bool"
where
  "coherent D view content s = (\<forall>fd f. valid_fd fd \<longrightarrow> content (cache s) (fdString D fd) = Some f
     \<longrightarrow> view (net s) (fdString D fd) = Some (mf_data f))"

definition vacant :: "('w, 'c) storage_deps \<Rightarrow> ('w, 'c) S3Storage \<Rightarrow> bool" where
  "vacant D s = (\<forall>fd. valid_fd fd \<longrightarrow> node_at (disk s) (pending_path s (fdString D fd)) = None)"

definition apart :: "('w, 'c) S3Storage \<Rightarrow> bool" where
  "apart s = (clean_dir (localDir s) \<and> clean_dir (pendingDir s) \<and> localDir s \<noteq> pendingDir s
     \<and> \<not> HasPrefix (localDir s) (dir_prefix (pendingDir s)))"

definition in_session ::
  "('w, 'c) storage_deps \<Rightarrow> ('w \<Rightarrow> string \<Rightarrow> bytes option) \<Rightarrow> ('c \<Rightarrow> string \<Rightarrow> memFile option) \<Rightarrow> ('w, 'c) S3Storage \<Rightarrow> bool"
where
  "in_session D view content s = (coherent D view content s \<and> vacant D s \<and> apart s
     \<and> (\<forall>fd. current_fd (view (net s)) = Some fd \<longrightarrow> valid_fd fd))"

text \<open>
  The calls: proper descriptors. The one exception is a \<open>Rename\<close> whose read of the renamed object fails: it
  succeeds all the same and leaves the cached entries of both names as they were (\<open>Rename_stale_cache\<close> in
  \<open>Storage_Rename\<close>), so that it counts as a call of the session only when neither name is cached.
\<close>

fun proper :: "file_op \<Rightarrow> bool" where
  "proper (WriteFile fd ps) = valid_fd fd"
| "proper (OpenFile fd) = valid_fd fd"
| "proper (RemoveFile fd) = valid_fd fd"
| "proper (RenameFile a b) = (valid_fd a \<and> valid_fd b \<and> a \<noteq> b)"
| "proper (SetCurrent fd) = valid_fd fd"
| "proper GetCurrent = True"

definition call_ok :: "('w, 'c) storage_deps \<Rightarrow> ('c \<Rightarrow> string \<Rightarrow> memFile option) \<Rightarrow> ('w, 'c) S3Storage \<Rightarrow> file_op \<Rightarrow> bool" where
  "call_ok D content s op = (proper op \<and> (case op of
     RenameFile a b \<Rightarrow> \<not> isl (rename_read D a b (net s))
       \<or> content (cache s) (fdString D a) = None \<and> content (cache s) (fdString D b) = None
   | _ \<Rightarrow> True))"

lemma call_ok_simps [simp]:
  "call_ok D content s (WriteFile fd ps) = valid_fd fd"
  "call_ok D content s (OpenFile fd) = valid_fd fd"
  "call_ok D content s (RemoveFile fd) = valid_fd fd"
  "call_ok D content s (RenameFile a b) = (valid_fd a \<and> valid_fd b \<and> a \<noteq> b
     \<and> (\<not> isl (rename_read D a b (net s)) \<or> content (cache s) (fdString D a) = None \<and> content (cache s) (fdString D b) = None))"
  "call_ok D content s (SetCurrent fd) = valid_fd fd"
  "call_ok D content s GetCurrent"
  by (auto simp: call_ok_def)

text \<open>A session: calls that all succeed, with their answers.\<close>

inductive session ::
  "('w, 'c) storage_deps \<Rightarrow> ('c \<Rightarrow> string \<Rightarrow> memFile option) \<Rightarrow> ('w, 'c) S3Storage \<Rightarrow> file_op list \<Rightarrow> answer list
     \<Rightarrow> ('w, 'c) S3Storage \<Rightarrow> bool"
  for D content
where
  no_call: "session D content s [] [] s"
| next_call: "call_ok D content s op \<Longrightarrow> run_state (do_op D op) s = (Inr a, t) \<Longrightarrow> session D content t ops as u \<Longrightarrow>
    session D content s (op # ops) (a # as) u"

section \<open>Nothing waits in the pending directory\<close>

definition stays_vacant :: "('w, 'c) storage_deps \<Rightarrow> ('w, 'c) S3Storage \<Rightarrow> ('w, 'c) S3Storage \<Rightarrow> bool" where
  "stays_vacant D s t = (localDir t = localDir s \<and> pendingDir t = pendingDir s \<and> (apart s \<and> vacant D s \<longrightarrow> vacant D t))"

interpretation vacancy: state_relation "stays_vacant D :: ('w, 'c) S3Storage \<Rightarrow> ('w, 'c) S3Storage \<Rightarrow> bool" for D
  by unfold_locales (auto simp: stays_vacant_def apart_def)

lemma vacant_nodes:
  assumes "\<And>fd. apart s \<Longrightarrow> valid_fd fd \<Longrightarrow> node_at (disk s) (pending_path s (fdString D fd)) = None \<Longrightarrow>
    node_at h (pending_path s (fdString D fd)) = None"
  shows "stays_vacant D s (s\<lparr>disk := h\<rparr>)"
  using assms by (auto simp: stays_vacant_def vacant_def pending_path_def)

lemma keeps_disk_vacant:
  fixes D :: "('w, 'c) storage_deps"
  assumes "\<And>(s :: ('w, 'c) S3Storage) fd. apart s \<Longrightarrow> valid_fd fd \<Longrightarrow> node_at (disk s) (pending_path s (fdString D fd)) = None \<Longrightarrow>
    node_at (snd (f (disk s))) (pending_path s (fdString D fd)) = None"
  shows "keeps (stays_vacant D) (on_disk f)"
proof (rule keepsI, simp only: wp_on_disk case_prod_beta)
  fix s show "stays_vacant D s (s\<lparr>disk := snd (f (disk s))\<rparr>)" by (rule vacant_nodes) (rule assms)
qed

lemma Remove_none: "node_at h q = None \<Longrightarrow> node_at (snd (os_Remove p h)) q = None"
proof (cases "q = p")
  case True
  assume q: "node_at h q = None"
  obtain r h' where r: "os_Remove p h = (r, h')" by force
  then show ?thesis using q True os_Remove_Inl [of p h _ h' q] by (cases r) (auto dest: os_Remove_Inr)
qed (simp add: other_Remove)

lemma vacant_calls [keeps_rules]:
  "keeps (stays_vacant D) (on_net g)" "keeps (stays_vacant D) (modify (cache_update h))" "keeps (stays_vacant D) (cache_get D fd)"
  "keeps (stays_vacant D) (on_disk (os_Remove p))" "keeps (stays_vacant D) (on_disk (os_ReadFile p))"
proof -
  show "keeps (stays_vacant D) (cache_get D fd)"
    by (auto simp: keeps_def cache_get_def wp_def stays_vacant_def vacant_def apart_def pending_path_def split: prod.split)
  show "keeps (stays_vacant D) (on_disk (os_Remove p))"
    by (rule keeps_disk_vacant) (rule Remove_none)
  show "keeps (stays_vacant D) (on_disk (os_ReadFile p))"
    by (rule keeps_disk_vacant) (simp add: read_node)
qed (auto simp: keeps_def wp_modify wp_on_net stays_vacant_def vacant_def apart_def pending_path_def split: prod.split)

text \<open>Calls on the local directory: they touch it, its files and their temporary files, nothing else.\<close>

lemma MkdirAll_other:
  assumes "q \<notin> set (ancestors p)"
  shows "node_at (snd (os_MkdirAll p h)) q = node_at h q"
proof -
  have "node_at (fold (\<lambda>q g. if dir_exists g q then g else put_node q Dir g) ps h') q = node_at h' q" if "q \<notin> set ps" for ps h'
    using that by (induction ps arbitrary: h') auto
  from this [OF assms] show ?thesis
    by (auto simp: os_MkdirAll_def dest: next_fault_node split: prod.split)
qed

lemma Stat_none:
  assumes "node_at h p = None"
  shows "\<exists>e. fst (os_Stat p h) = Inl e"
proof -
  obtain f h1 where n: "next_fault h = (f, h1)" by force
  then have "node_at h1 p = None" using assms next_fault_node [OF n] by simp
  then show ?thesis by (simp add: os_Stat_def n)
qed

lemma ancestor_prefix: "q \<in> set (ancestors p) \<Longrightarrow> HasPrefix p q"
  by (auto simp: ancestors_def HasPrefix_def)

lemma HasPrefix_cut: "HasPrefix x (y @ z) \<Longrightarrow> HasPrefix x y"
  by (auto simp: HasPrefix_iff)

context storage_env
begin

abbreviation pend :: "('w, 'c) S3Storage \<Rightarrow> file_desc \<Rightarrow> string" where
  "pend s fd \<equiv> pending_path s (fdString D fd)"

lemma vacant_mkdir:
  assumes "apart s" and "valid_fd fd" and "plain_name n"
  shows "node_at (snd (os_MkdirAll (filepath_Dir (filepath_Join [localDir s, n])) h)) (pend s fd) = node_at h (pend s fd)"
proof (rule MkdirAll_other)
  have d: "filepath_Dir (filepath_Join [localDir s, n]) = localDir s"
    using assms by (simp add: apart_def Join_plain Dir_plain)
  have "pend s fd = dir_prefix (pendingDir s) @ fdString D fd"
    using assms name_plain by (simp add: pending_path_def Join_dir_prefix apart_def)
  then show "pend s fd \<notin> set (ancestors (filepath_Dir (filepath_Join [localDir s, n])))"
    unfolding d using assms(1) ancestor_prefix HasPrefix_cut by (metis apart_def)
qed

lemma vacant_atomic:
  assumes "apart s" and "valid_fd fd" and "plain_name n"
  shows "node_at (snd (atomicWriteFile (filepath_Join [localDir s, n]) d h)) (pend s fd) = node_at h (pend s fd)"
proof -
  let ?p = "filepath_Join [localDir s, n]"
  have ld: "filepath_Dir ?p = localDir s" using assms by (simp add: apart_def Join_plain Dir_plain)
  have other: "pend s fd \<noteq> filepath_Join [localDir s, m]" if "plain_name m" for m
    using clean_paths_differ [of "pendingDir s" "localDir s" "fdString D fd" m] assms name_plain that
    by (auto simp: apart_def pending_path_def)
  then have "\<not> temp_file (filepath_Dir ?p) (pend s fd)"
    using temp_path_plain by (auto simp: ld temp_file_def temp_path_def)
  from atomicWrite_other [OF this other [OF assms(3)]] show ?thesis by (simp add: keeps_at_def)
qed

lemma vacant_write:
  assumes "apart s" and "valid_fd fd" and "plain_name n"
  shows "node_at (snd (os_WriteFile (filepath_Join [localDir s, n]) d h)) (pend s fd) = node_at h (pend s fd)"
proof (rule other_WriteFile)
  show "pend s fd \<noteq> filepath_Join [localDir s, n]"
    using clean_paths_differ [of "pendingDir s" "localDir s" "fdString D fd" n] assms name_plain
    by (auto simp: apart_def pending_path_def)
qed

lemma wp_vacant_disk:
  assumes "stays_vacant D s t" and "\<And>h fd. apart t \<Longrightarrow> valid_fd fd \<Longrightarrow> node_at (snd (f h)) (pend t fd) = node_at h (pend t fd)"
    and "\<And>r u. stays_vacant D s u \<Longrightarrow> Q r u"
  shows "wp (on_disk f) Q t"
proof (simp only: wp_on_disk case_prod_beta, rule assms(3), rule vacancy.kept_trans [OF assms(1)], rule vacant_nodes)
  fix fd assume "apart t" "valid_fd fd" "node_at (disk t) (pend t fd) = None"
  then show "node_at (snd (f (disk t))) (pend t fd) = None" using assms(2) by simp
qed

text \<open>A successful upload only deletes files.\<close>

lemma vacant_upload: "wp (uploadFile D fd d) (\<lambda>r t. r = None \<longrightarrow> stays_vacant D s t) s"
proof -
  have "keeps (stays_vacant D) (upload_done D fd d)"
    unfolding upload_done_def remove_pending_def cleanShadow_def cache_add_def by (intro keeps_rules)
  then have fin: "wp (upload_done D fd d) (\<lambda>r t. r = None \<longrightarrow> stays_vacant D s t) u" if "stays_vacant D s u" for u
    using that unfolding keeps_def by (blast intro: wp_weaken vacancy.kept_trans)
  have fail: "wp (upload_failed D fd d e) (\<lambda>r t. r = None \<longrightarrow> stays_vacant D s t) u" for e u
    unfolding upload_failed_def by (auto simp: wp_simps intro!: wp_I split: option.split)
  have "stays_vacant D s (s\<lparr>net := w\<rparr>)" for w
    by (auto simp: stays_vacant_def vacant_def apart_def pending_path_def)
  then show ?thesis
    unfolding uploadFile_def by (auto simp: wp_simps wp_on_net Let_def fin fail split: prod.split option.split)
qed

end

text \<open>The writers that \<open>Create\<close> makes write to their local file at most.\<close>

definition local_writer :: "('w, 'c) storage_deps \<Rightarrow> ('w, 'c) S3Storage \<Rightarrow> file_desc \<Rightarrow> memWriter \<Rightarrow> bool" where
  "local_writer D s fd w = (mw_fd w = fd \<and> mw_localPath w \<in> {'''', local_path s (fdString D fd)}
     \<and> mw_syncFn w \<in> {Some UploadOnly, Some (LocalThenUpload (local_path s (fdString D fd)))})"

lemma stays_vacant_dirs: "stays_vacant D s t \<Longrightarrow> local_path t n = local_path s n"
  by (simp add: stays_vacant_def local_path_def)

lemma stays_vacant_cache [simp]: "stays_vacant D s (cache_update f t) = stays_vacant D s t"
  by (auto simp: stays_vacant_def vacant_def pending_path_def)

context storage_env
begin

lemma wp_vacant_atomic:
  assumes "valid_fd fd" and "stays_vacant D s t" and "\<And>r u. stays_vacant D s u \<Longrightarrow> Q r u"
  shows "wp (on_disk (atomicWriteFile (local_path s (fdString D fd)) d)) Q t"
proof (rule wp_vacant_disk [OF assms(2)])
  fix h fd' assume "apart t" "valid_fd fd'"
  then show "node_at (snd (atomicWriteFile (local_path s (fdString D fd)) d h)) (pend t fd') = node_at h (pend t fd')"
    using vacant_atomic [OF _ _ name_plain [OF assms(1)], of t fd' d h] stays_vacant_dirs [OF assms(2), of "fdString D fd"]
    by (simp add: local_path_def)
qed (rule assms(3))

lemma vacant_Create:
  assumes "valid_fd fd"
  shows "wp (Create D fd) (\<lambda>r t. stays_vacant D s t \<and> (\<forall>w. r = Inr w \<longrightarrow> local_writer D s fd w)) s"
proof -
  have mk: "wp (on_disk (os_MkdirAll (filepath_Dir (filepath_Join [d, fdString D fd])))) Q t"
    if "localDir t = d" "stays_vacant D s t" "\<And>r u. stays_vacant D s u \<Longrightarrow> Q r u" for d Q t
    unfolding that(1) [symmetric]
    by (rule wp_vacant_disk [OF that(2) vacant_mkdir [OF _ _ name_plain [OF assms]] that(3)])
  have "stays_vacant D s s" by (rule vacancy.kept_refl)
  then show ?thesis
    unfolding Create_def
    by (auto simp: wp_simps Let_def cache_add_def local_writer_def local_path_def intro!: wp_guarded mk split: sum.split)
qed

lemma vacant_Write:
  assumes "valid_fd fd" and "local_writer D s fd w" and "stays_vacant D s t"
  shows "wp (memWriter_Write w p) (\<lambda>r u. stays_vacant D s u \<and> local_writer D s fd (snd r)) t"
  using assms unfolding memWriter_Write_def
  by (auto simp: wp_simps Let_def local_writer_def intro!: wp_vacant_atomic)

lemma vacant_Close:
  assumes "valid_fd fd" and "local_writer D s fd w" and "stays_vacant D s t"
  shows "wp (memWriter_Close D w) (\<lambda>r u. fst r = None \<longrightarrow> stays_vacant D s u) t"
proof -
  have up: "wp (uploadFile D fd d) (\<lambda>r u. r = None \<longrightarrow> stays_vacant D s u) v" if "stays_vacant D s v" for d v
    by (rule wp_weaken [OF vacant_upload]) (use vacancy.kept_trans [OF that] in blast)
  have "wp (run_syncFn D w) (\<lambda>r u. r = None \<longrightarrow> stays_vacant D s u) t"
    using assms up unfolding run_syncFn_def
    by (auto simp: local_writer_def wp_simps intro!: wp_vacant_atomic split: sum.split)
  then show ?thesis unfolding memWriter_Close_def by (simp add: wp_simps wp_fun)
qed

lemma vacant_write_file:
  assumes "valid_fd fd"
  shows "wp (write_file D fd ps) (\<lambda>r t. r = None \<longrightarrow> stays_vacant D s t) s"
proof -
  let ?I = "\<lambda>w t. stays_vacant D s t \<and> local_writer D s fd w"
  have chunks: "wp (write_chunks w ps) ?I t" if "?I w t" for w t
    unfolding write_chunks_def
  proof (rule wp_fold_each [where I = ?I])
    fix p v u assume "?I v u"
    then show "wp (do { r \<leftarrow> memWriter_Write v p; ret (snd r) }) ?I u"
      using vacant_Write [OF assms] by (simp add: wp_simps wp_fun)
  qed (use that in auto)
  have rest: "wp (do { w' \<leftarrow> write_chunks w ps; c \<leftarrow> memWriter_Close D w'; ret (fst c) }) (\<lambda>r t. r = None \<longrightarrow> stays_vacant D s t) t"
    if "?I w t" for w t
    unfolding wp_bind wp_fun
    by (rule wp_weaken [OF chunks [OF that]]) (use vacant_Close [OF assms] in \<open>auto simp: wp_fun\<close>)
  show ?thesis
    unfolding write_file_def wp_bind
    by (rule wp_weaken [OF vacant_Create [OF assms]]) (use rest in \<open>auto simp: wp_return split: sum.split\<close>)
qed

lemma vacant_Remove: "keeps (stays_vacant D) (Remove D fd)"
  unfolding Remove_def guarded_def remove_local_def remove_pending_def cleanShadow_def cache_remove_def by (intro keeps_rules)

lemma vacant_Open: "keeps (stays_vacant D) (Open D fd)"
  unfolding Open_def open_pending_def cache_add_def by (intro keeps_rules)

lemma vacant_meta: "keeps (stays_vacant D) (SetMeta D fd)" "keeps (stays_vacant D) (GetMeta D)"
  unfolding SetMeta_def GetMeta_def guarded_def read_meta_def meta_target_def by (intro keeps_rules)+

lemma vacant_Rename:
  assumes "valid_fd a" and "valid_fd b"
  shows "wp (Rename D a b) (\<lambda>_. stays_vacant D s) s"
proof (cases "apart s \<and> vacant D s")
  case False
  have "wp (Rename D a b) (\<lambda>_. same_config s) s" using config_files(7) unfolding keeps_def by blast
  then show ?thesis by (rule wp_weaken) (use False in \<open>auto simp: stays_vacant_def same_config_def\<close>)
next
  case True
  have none: "wp (rename_pending D (fdString D a) (fdString D b)) (\<lambda>_. stays_vacant D s) t" if t: "stays_vacant D s t" for t
  proof -
    have "node_at (disk t) (pend t a) = None" using t True assms(1) by (auto simp: stays_vacant_def vacant_def)
    then have "\<exists>e. fst (os_Stat (pend t a) (disk t)) = Inl e" by (rule Stat_none)
    moreover have "stays_vacant D s (t\<lparr>disk := snd (os_Stat p (disk t))\<rparr>)" for p
      by (rule vacancy.kept_trans [OF t], rule vacant_nodes) (simp add: read_node)
    ultimately show ?thesis
      using t unfolding rename_pending_def
      by (auto simp: wp_simps wp_on_disk case_prod_beta Let_def pending_path_def intro: vacancy.kept_trans)
  qed
  have local: "wp (rename_local a (fdString D a) (fdString D b)) (\<lambda>_. stays_vacant D s) t" if t: "stays_vacant D s t" for t
  proof -
    have rd: "keeps (stays_vacant D) (on_disk (os_ReadFile p))" "keeps (stays_vacant D) (on_disk (os_Remove p))" for p
      by (intro keeps_rules)+
    have wr: "wp (on_disk (os_WriteFile (filepath_Join [d, fdString D b]) x)) Q u"
      if "localDir u = d" "stays_vacant D s u" "\<And>r v. stays_vacant D s v \<Longrightarrow> Q r v" for d x Q u
      unfolding that(1) [symmetric]
      by (rule wp_vacant_disk [OF that(2) vacant_write [OF _ _ name_plain [OF assms(2)]] that(3)])
    have seq: "wp f Q u" if "keeps (stays_vacant D) f" "stays_vacant D s u" "\<And>r v. stays_vacant D s v \<Longrightarrow> Q r v" for f Q u
      using that(1) unfolding keeps_def by (blast intro: wp_weaken that(3) vacancy.kept_trans [OF that(2)])
    have dirs: "stays_vacant D s u \<Longrightarrow> localDir u = localDir t" for u using t by (simp add: stays_vacant_def)
    have tail: "wp (do { on_disk (os_WriteFile (filepath_Join [localDir t, fdString D b]) x); on_disk (os_Remove p); ret () })
        (\<lambda>_. stays_vacant D s) v" if "stays_vacant D s v" for x p v
      unfolding wp_bind
      by (rule wr [OF dirs [OF that] that], rule seq [OF rd(2)], assumption) (simp add: wp_return)
    have "wp (on_disk (os_ReadFile p)) (\<lambda>r. wp (case r of Inl e \<Rightarrow> ret () | Inr x \<Rightarrow> do {
        on_disk (os_WriteFile (filepath_Join [localDir t, fdString D b]) x); on_disk (os_Remove q); ret () })
        (\<lambda>_. stays_vacant D s)) t" for p q
      by (rule seq [OF rd(1) t]) (use tail in \<open>auto simp: wp_return split: sum.split\<close>)
    then show ?thesis
      using t by (simp only: rename_local_def wp_bind wp_gets wp_if) (simp add: wp_return)
  qed
  have keep: "wp f (\<lambda>_. stays_vacant D s) t" if "keeps (stays_vacant D) f" "stays_vacant D s t" for f t
    using that(1) unfolding keeps_def by (blast intro: wp_weaken vacancy.kept_trans [OF that(2)])
  have cache: "keeps (stays_vacant D) (rename_cache D a b)" and source: "keeps (stays_vacant D) (remove_source D n)" for n
    unfolding rename_cache_def cache_remove_def cache_add_def remove_source_def by (intro keeps_rules)+
  have start: "stays_vacant D s s" by (rule vacancy.kept_refl)
  have net: "stays_vacant D s (s\<lparr>net := w\<rparr>)" for w by (auto simp: stays_vacant_def vacant_def apart_def pending_path_def)
  have body: "wp (do { rename_cache D a b; rename_pending D (fdString D a) (fdString D b); r \<leftarrow> remove_source D (fdString D a);
      case r of Some err \<Rightarrow> ret (Some err) | None \<Rightarrow> do { rename_local a (fdString D a) (fdString D b); ret None } })
      (\<lambda>_. stays_vacant D s) t" if "stays_vacant D s t" for t
    unfolding wp_bind
    by (rule wp_weaken [OF keep [OF cache that]], rule wp_weaken [OF none], assumption, rule wp_weaken [OF keep [OF source]], assumption)
      (auto simp: wp_simps wp_fun local split: option.split)
  show ?thesis
    unfolding Rename_def
    by (rule wp_guarded) (auto simp: start wp_simps wp_on_net Let_def net body [simplified wp_simps] split: prod.split option.split)
qed

end

section \<open>The operations take the abstract steps\<close>

lemma do_op_results:
  "run_state (do_op D (WriteFile fd ps)) s = (Inr a, t) \<Longrightarrow> run_state (write_file D fd ps) s = (None, t) \<and> a = Done"
  "run_state (do_op D (OpenFile fd)) s = (Inr a, t) \<Longrightarrow> \<exists>rd. run_state (Open D fd) s = (Inr rd, t) \<and> a = Contents (rd_data rd)"
  "run_state (do_op D (RemoveFile fd)) s = (Inr a, t) \<Longrightarrow> run_state (Remove D fd) s = (None, t) \<and> a = Done"
  "run_state (do_op D (RenameFile b c)) s = (Inr a, t) \<Longrightarrow> run_state (Rename D b c) s = (None, t) \<and> a = Done"
  "run_state (do_op D (SetCurrent fd)) s = (Inr a, t) \<Longrightarrow> run_state (SetMeta D fd) s = (None, t) \<and> a = Done"
  "run_state (do_op D GetCurrent) s = (Inr a, t) \<Longrightarrow> \<exists>fd. run_state (GetMeta D) s = (Inr fd, t) \<and> a = Current fd"
proof -
  show "run_state (do_op D (OpenFile fd)) s = (Inr a, t) \<Longrightarrow> \<exists>rd. run_state (Open D fd) s = (Inr rd, t) \<and> a = Contents (rd_data rd)"
    by (cases "run_state (Open D fd) s", cases "fst (run_state (Open D fd) s)") auto
  show "run_state (do_op D GetCurrent) s = (Inr a, t) \<Longrightarrow> \<exists>fd. run_state (GetMeta D) s = (Inr fd, t) \<and> a = Current fd"
    by (cases "run_state (GetMeta D) s", cases "fst (run_state (GetMeta D) s)") auto
qed (auto simp: answered_def split: prod.splits option.splits)

context storage_env
begin

lemma valid_keys:
  assumes "valid_fd fd"
  shows "fdString D fd \<noteq> ''CURRENT''" and "fdString D fd \<noteq> shadow_key s n" and "shadow_key s n \<noteq> ''CURRENT''"
proof -
  show "fdString D fd \<noteq> ''CURRENT''" using name_not_meta_file [OF assms] by simp
  show "fdString D fd \<noteq> shadow_key s n" by (rule shadow_key_not_name [OF assms])
  have "CHR ''/'' \<in> set (shadow_key s n)" by (simp add: shadow_key_def)
  then show "shadow_key s n \<noteq> ''CURRENT''" by auto
qed

text \<open>A call that touches the objects of one file changes the view there and nowhere else.\<close>

lemma other_object:
  assumes "valid_fd fd" and "valid_fd g" and "g \<noteq> fd"
    and "\<And>k. k \<noteq> fdString D fd \<Longrightarrow> k \<noteq> shadow_key s (fdString D fd) \<Longrightarrow> view (net t) k = view (net s) k"
  shows "view (net t) (fdString D g) = view (net s) (fdString D g)"
  using assms(4) valid_keys(2) [OF assms(2)] name_inj [OF assms(2,1)] assms(3) by blast

lemma view_of_one:
  assumes fd: "valid_fd fd"
    and rest: "\<And>k. k \<noteq> fdString D fd \<Longrightarrow> k \<noteq> shadow_key s (fdString D fd) \<Longrightarrow> view (net t) k = view (net s) k"
  shows "view_of D view t = (view_of D view s)\<lparr>fs_files := (fs_files (view_of D view s))(fd := view (net t) (fdString D fd))\<rparr>"
proof -
  have "current_fd (view (net t)) = current_fd (view (net s))"
    using rest [OF valid_keys(1,3) [OF fd, symmetric]] by (simp add: current_fd_def)
  then show ?thesis using other_object [OF fd _ _ rest] fd by (auto simp: view_of_def fun_eq_iff)
qed

lemma view_of_two:
  assumes ab: "valid_fd a" "valid_fd b" "a \<noteq> b"
    and rest: "\<And>k. k \<notin> {fdString D a, fdString D b, shadow_key s (fdString D a), shadow_key s (fdString D b)} \<Longrightarrow>
      view (net t) k = view (net s) k"
  shows "view_of D view t = (view_of D view s)\<lparr>fs_files := (fs_files (view_of D view s))
    (a := view (net t) (fdString D a), b := view (net t) (fdString D b))\<rparr>"
proof -
  have "view (net t) (fdString D g) = view (net s) (fdString D g)" if "valid_fd g" "g \<noteq> a" "g \<noteq> b" for g
    using rest valid_keys(2) [OF that(1)] name_inj [OF that(1) ab(1)] name_inj [OF that(1) ab(2)] that(2,3) by blast
  moreover have "current_fd (view (net t)) = current_fd (view (net s))"
    using rest [of "''CURRENT''"] valid_keys(1) [OF ab(1)] valid_keys(1) [OF ab(2)]
      valid_keys(3) [OF ab(1), of s "fdString D a"] valid_keys(3) [OF ab(1), of s "fdString D b"] by (simp add: current_fd_def)
  ultimately show ?thesis using ab by (auto simp: view_of_def fun_eq_iff)
qed

lemma session_write:
  assumes s: "in_session D view content s" and fd: "valid_fd fd" and r: "run_state (write_file D fd ps) s = (None, t)"
  shows "in_session D view content t \<and> spec_step (WriteFile fd ps) (view_of D view s) = Some (Done, view_of D view t)"
proof -
  let ?n = "fdString D fd"
  have wf: "wf_dirs s" using s by (simp add: in_session_def apart_def wf_dirs_def)
  have v: "stays_vacant D s t" using wp_run [OF vacant_write_file [OF fd] r] by simp
  obtain c0 where c0: "\<And>k f. content c0 k = Some f \<Longrightarrow> k \<noteq> ?n \<Longrightarrow> content (cache s) k = Some f"
    and t: "synced D view fd (concat ps) (s\<lparr>cache := c0\<rparr>) None t"
  proof -
    have "synced D view fd (concat ps) (s\<lparr>cache := cache_Add (lru D) ?n \<lparr>mf_fd = fd, mf_data = ''''\<rparr> (cache s)\<rparr>) None t"
      using wp_run [OF write_file_effect [OF fd wf] r] by auto
    moreover have "content (cache_Add (lru D) ?n f0 (cache s)) k = Some f \<Longrightarrow> k \<noteq> ?n \<Longrightarrow> content (cache s) k = Some f" for k f f0
      by (auto dest: add_cases)
    ultimately show ?thesis using that by blast
  qed
  have obj: "view (net t) ?n = Some (concat ps)" and c: "cache t = cache_Add (lru D) ?n \<lparr>mf_fd = fd, mf_data = concat ps\<rparr> c0"
    and rest: "\<And>k. k \<noteq> ?n \<Longrightarrow> k \<noteq> shadow_key s ?n \<Longrightarrow> view (net t) k = view (net s) k"
    using t by (simp_all add: synced_def within_def Let_def shadow_key_def)
  note other = other_object [OF fd _ _ rest] and v' = view_of_one [OF fd rest]
  have cur: "current_fd (view (net t)) = current_fd (view (net s))"
    using arg_cong [OF v', of fs_current] by (simp add: view_of_def)
  have "coherent D view content t"
    unfolding coherent_def
  proof (intro allI impI)
    fix g f assume g: "valid_fd g" "content (cache t) (fdString D g) = Some f"
    show "view (net t) (fdString D g) = Some (mf_data f)"
    proof (cases "g = fd")
      case True
      then show ?thesis using g(2) c obj by (auto simp: add_same)
    next
      case False
      then have "fdString D g \<noteq> ?n" using name_inj [OF g(1) fd] by blast
      then have "content (cache s) (fdString D g) = Some f" using g(2) c c0 by (auto dest: add_cases)
      then show ?thesis using s g(1) other [OF g(1) False] by (simp add: in_session_def coherent_def)
    qed
  qed
  then have "in_session D view content t"
    using s v cur by (auto simp: in_session_def stays_vacant_def apart_def)
  then show ?thesis using v' obj by simp
qed

end

context storage_env
begin

text \<open>Reading changes nothing but what is cached.\<close>

lemma session_read:
  assumes s: "in_session D view content s" and v: "stays_vacant D s t" and net: "view (net t) = view (net s)"
    and c: "\<And>g f. valid_fd g \<Longrightarrow> content (cache t) (fdString D g) = Some f \<Longrightarrow>
      content (cache s) (fdString D g) = Some f \<or> view (net s) (fdString D g) = Some (mf_data f)"
  shows "in_session D view content t" and "view_of D view t = view_of D view s"
proof -
  have "coherent D view content t"
    unfolding coherent_def net using c s by (auto simp: in_session_def coherent_def)
  then show "in_session D view content t" using s v net by (auto simp: in_session_def stays_vacant_def apart_def)
  show "view_of D view t = view_of D view s" unfolding view_of_def net ..
qed

lemma session_open:
  assumes s: "in_session D view content s" and fd: "valid_fd fd" and r: "run_state (Open D fd) s = (Inr rd, t)"
  shows "in_session D view content t \<and> spec_step (OpenFile fd) (view_of D view s) = Some (Contents (rd_data rd), view_of D view t)"
proof -
  have v: "stays_vacant D s t" using vacant_Open r by (rule keeps_run)
  have o: "view (net t) = view (net s)"
    "\<And>k f. content (cache t) k = Some f \<Longrightarrow> content (cache s) k = Some f \<or> k = fdString D fd \<and> view (net s) k = Some (mf_data f)"
    "case content (cache s) (fdString D fd) of
            Some f \<Rightarrow> rd_data rd = mf_data f
          | None \<Rightarrow> view (net s) (fdString D fd) = Some (rd_data rd)
             \<or> pendingDir s \<noteq> '''' \<and> data_at (disk s) (pend s fd) = Some (rd_data rd)"
    using wp_run [OF Open_effect r] by (auto simp: fun_eq_iff)
  have "data_at (disk s) (pend s fd) = None"
    using s fd by (simp add: in_session_def vacant_def data_at_def)
  then have "view (net s) (fdString D fd) = Some (rd_data rd)"
    using o(3) s fd by (auto simp: in_session_def coherent_def split: option.splits)
  moreover have "in_session D view content t" "view_of D view t = view_of D view s"
    by (rule session_read [OF s v o(1)]; use o(2) in blast)+
  ultimately show ?thesis using fd by (simp add: view_of_def)
qed

lemma session_current:
  assumes s: "in_session D view content s" and r: "run_state (GetMeta D) s = (Inr fd, t)"
  shows "in_session D view content t \<and> spec_step GetCurrent (view_of D view s) = Some (Current fd, view_of D view t)"
proof -
  have v: "stays_vacant D s t" using vacant_meta(2) r by (rule keeps_run)
  have o: "view (net t) = view (net s)" "cache t = cache s" "current_fd (view (net s)) = Some fd" "view (net s) (fdString D fd) \<noteq> None"
    using wp_run [OF GetMeta_effect r] by (auto simp: within_def fun_eq_iff)
  have "valid_fd fd" using s o(3) by (simp add: in_session_def)
  moreover have "in_session D view content t" "view_of D view t = view_of D view s"
    by (rule session_read [OF s v o(1)]; use o(2) in simp)+
  ultimately show ?thesis using o(3,4) by (simp add: view_of_def)
qed

lemma session_set_current:
  assumes s: "in_session D view content s" and fd: "valid_fd fd" and r: "run_state (SetMeta D fd) s = (None, t)"
  shows "in_session D view content t \<and> spec_step (SetCurrent fd) (view_of D view s) = Some (Done, view_of D view t)"
proof -
  have v: "stays_vacant D s t" using vacant_meta(1) r by (rule keeps_run)
  have o: "cache t = cache s" "view (net t) ''CURRENT'' = Some (fdString D fd @ [CHR 0x0A])"
    and rest: "\<And>k. k \<noteq> ''CURRENT'' \<Longrightarrow> view (net t) k = view (net s) k"
    using wp_run [OF SetMeta_effect r] by (auto simp: within_def)
  have other: "view (net t) (fdString D g) = view (net s) (fdString D g)" if "valid_fd g" for g
    using rest valid_keys(1) [OF that] by blast
  have cur: "current_fd (view (net t)) = Some fd" using current_fd_written [of fd "view (net t)"] fd o(2) by simp
  have "coherent D view content t" using s o(1) other by (auto simp: in_session_def coherent_def)
  moreover have "fs_files (view_of D view t) = fs_files (view_of D view s)" using other by (simp add: view_of_def fun_eq_iff)
  ultimately show ?thesis
    using s v cur fd by (auto simp: in_session_def stays_vacant_def apart_def view_of_def)
qed

lemma session_remove:
  assumes s: "in_session D view content s" and fd: "valid_fd fd" and r: "run_state (Remove D fd) s = (None, t)"
  shows "in_session D view content t \<and> spec_step (RemoveFile fd) (view_of D view s) = Some (Done, view_of D view t)"
proof -
  let ?n = "fdString D fd"
  have v: "stays_vacant D s t" using vacant_Remove r by (rule keeps_run)
  have o: "cache t = cache_Remove (lru D) ?n (cache s)" "view (net t) ?n = None"
    and rest: "\<And>k. k \<noteq> ?n \<Longrightarrow> k \<noteq> shadow_key s ?n \<Longrightarrow> view (net t) k = view (net s) k"
    using wp_run [OF Remove_effect [OF fd] r] by (auto simp: within_def)
  note other = other_object [OF fd _ _ rest] and v' = view_of_one [OF fd rest]
  have cur: "current_fd (view (net t)) = current_fd (view (net s))"
    using arg_cong [OF v', of fs_current] by (simp add: view_of_def)
  have "coherent D view content t"
    using s o(1) other name_inj [OF _ fd] by (auto simp: in_session_def coherent_def remove_cases) metis
  then have "in_session D view content t"
    using s v cur by (auto simp: in_session_def stays_vacant_def apart_def)
  then show ?thesis using v' o(2) by simp
qed

lemma session_rename:
  assumes s: "in_session D view content s" and ab: "valid_fd a" "valid_fd b" "a \<noteq> b"
    and ok: "\<not> isl (rename_read D a b (net s)) \<or> content (cache s) (fdString D a) = None \<and> content (cache s) (fdString D b) = None"
    and r: "run_state (Rename D a b) s = (None, t)"
  shows "in_session D view content t \<and> spec_step (RenameFile a b) (view_of D view s) = Some (Done, view_of D view t)"
proof -
  let ?m = "fdString D a" and ?n = "fdString D b"
  have ne: "?n \<noteq> ?m" using name_inj [OF ab(2,1)] ab(3) by blast
  have v: "stays_vacant D s t" using wp_run [OF vacant_Rename [OF ab(1,2)] r] .
  obtain d where d: "view (net s) ?m = Some d" and o: "view (net t) ?m = None" "view (net t) ?n = Some d"
    and rest: "\<And>k. k \<notin> {?m, ?n, shadow_key s ?m, shadow_key s ?n} \<Longrightarrow> view (net t) k = view (net s) k"
    using wp_run [OF Rename_effect [OF ab(1,2)] r] ne by (auto simp: renamed_def Let_def)
  have c: "cache t = cache s \<and> content (cache s) ?m = None \<and> content (cache s) ?n = None
      \<or> cache t = cache_Add (lru D) ?n \<lparr>mf_fd = b, mf_data = d\<rparr> (cache_Remove (lru D) ?m (cache s))"
    using wp_run [OF Rename_cache_effect r] ok d by (cases "rename_read D a b (net s)") auto
  have other: "view (net t) (fdString D g) = view (net s) (fdString D g)" if "valid_fd g" "g \<noteq> a" "g \<noteq> b" for g
    using rest valid_keys(2) [OF that(1)] name_inj [OF that(1) ab(1)] name_inj [OF that(1) ab(2)] that(2,3) by blast
  note v' = view_of_two [OF ab rest]
  have cur: "current_fd (view (net t)) = current_fd (view (net s))"
    using arg_cong [OF v', of fs_current] by (simp add: view_of_def)
  have "coherent D view content t"
    unfolding coherent_def
  proof (intro allI impI)
    fix g f assume g: "valid_fd g" "content (cache t) (fdString D g) = Some f"
    have old: "view (net t) (fdString D g) = Some (mf_data f)" if "content (cache s) (fdString D g) = Some f" "g \<noteq> a" "g \<noteq> b"
      using s g(1) other [OF g(1)] that by (auto simp: in_session_def coherent_def)
    show "view (net t) (fdString D g) = Some (mf_data f)"
      using c
    proof
      assume "cache t = cache s \<and> content (cache s) ?m = None \<and> content (cache s) ?n = None"
      then show ?thesis using old g(2) by (cases "g = a"; cases "g = b") auto
    next
      assume "cache t = cache_Add (lru D) ?n \<lparr>mf_fd = b, mf_data = d\<rparr> (cache_Remove (lru D) ?m (cache s))"
      then have "fdString D g = ?n \<and> f = \<lparr>mf_fd = b, mf_data = d\<rparr>
          \<or> fdString D g \<noteq> ?n \<and> fdString D g \<noteq> ?m \<and> content (cache s) (fdString D g) = Some f"
        using g(2) by (auto dest!: add_cases simp: remove_cases)
      then show ?thesis using old o(2) by auto
    qed
  qed
  then have "in_session D view content t"
    using s v cur by (auto simp: in_session_def stays_vacant_def apart_def)
  then show ?thesis using v' o d ab(1) by (simp add: view_of_def)
qed

end

section \<open>Refinement\<close>

context storage_env
begin

lemma step_refines:
  assumes "in_session D view content s" and "call_ok D content s op" and "run_state (do_op D op) s = (Inr a, t)"
  shows "in_session D view content t \<and> spec_step op (view_of D view s) = Some (a, view_of D view t)"
proof (cases op)
  case (WriteFile fd ps)
  then show ?thesis using assms do_op_results(1) [of D fd ps s a t] session_write [of s fd ps t] by auto
next
  case (OpenFile fd)
  then show ?thesis using assms do_op_results(2) [of D fd s a t] session_open [of s fd _ t] by fastforce
next
  case (RemoveFile fd)
  then show ?thesis using assms do_op_results(3) [of D fd s a t] session_remove [of s fd t] by auto
next
  case (RenameFile b c)
  then show ?thesis using assms do_op_results(4) [of D b c s a t] session_rename [of s b c t] by auto
next
  case (SetCurrent fd)
  then show ?thesis using assms do_op_results(5) [of D fd s a t] session_set_current [of s fd t] by auto
next
  case GetCurrent
  then show ?thesis using assms do_op_results(6) [of D s a t] session_current [of s _ t] by fastforce
qed

end

text \<open>
  C1: The storage implements the map that it promises. From a state without pending files whose cache
  agrees with the bucket, every sequence of successful calls (writes, reads, removals, renames of cached and
  of other files, the pointer to the manifest) gives the answers of the abstract store, ends
  in the state that represents the abstract result, and leads to such a state again. A \<open>Rename\<close> of a cached file counts as
  one of these calls when its read of the renamed object succeeds, any other \<open>Rename\<close> always.
\<close>

theorem session_refines_map:
  assumes "storage_env D view content" and "in_session D view content s" and "session D content s ops as t"
  shows "spec_run ops (view_of D view s) = Some (as, view_of D view t) \<and> in_session D view content t"
  using assms(3,2)
proof induction
  case (next_call s op a t ops as u)
  from storage_env.step_refines [OF assms(1) next_call.prems next_call.hyps(1,2)] next_call.IH
  show ?case by simp
qed simp

lemma demo_in_session: "in_session demo_deps sim_objs lru_list_content (demo_storage [] [] [])"
proof -
  have "vacant demo_deps (demo_storage [] [] [])"
    unfolding vacant_def
  proof (intro allI impI)
    fix fd assume "valid_fd fd"
    then have "plain_name (fdString demo_deps fd)" unfolding demo_deps_simps by (rule ldb.name_plain)
    then show "node_at (disk (demo_storage [] [] [])) (pending_path (demo_storage [] [] []) (fdString demo_deps fd)) = None"
      by (auto simp: pending_path_def Join_plain demo_storage_def node_at_def plain_name_def)
  qed
  moreover have "coherent demo_deps sim_objs lru_list_content (demo_storage [] [] [])"
    by (simp add: coherent_def demo_storage_def lru_list_content_def)
  moreover have "apart (demo_storage [] [] [])"
    by (simp add: apart_def dir_prefix_def HasPrefix_def)
  ultimately show ?thesis by (simp add: in_session_def current_fd_def demo_storage_def sim_objs_def)
qed

text \<open>A session that writes a file, renames it while it is cached, and reads it under its new name.\<close>

theorem session_refines_map_witness:
  "\<exists>t. session demo_deps lru_list_content (demo_storage [] [] []) [WriteFile (FileDesc TypeTable 1) [''ab'', ''c''],
       RenameFile (FileDesc TypeTable 1) (FileDesc TypeTable 3), OpenFile (FileDesc TypeTable 3)] [Done, Done, Contents ''abc''] t
     \<and> spec_run [WriteFile (FileDesc TypeTable 1) [''ab'', ''c''],
         RenameFile (FileDesc TypeTable 1) (FileDesc TypeTable 3), OpenFile (FileDesc TypeTable 3)]
         (view_of demo_deps sim_objs (demo_storage [] [] [])) = Some ([Done, Done, Contents ''abc''], view_of demo_deps sim_objs t)"
proof -
  let ?a = "FileDesc TypeTable 1" and ?b = "FileDesc TypeTable 3" and ?s = "demo_storage [] [] []"
  let ?O = "\<lambda>r t. r = (Inr \<lparr>rd_data = ''abc'', rd_closed = False\<rparr> :: error + memReader)"
  have "wp (write_file demo_deps ?a [''ab'', ''c'']) (\<lambda>r t. r = None \<and> \<not> isl (rename_read demo_deps ?a ?b (net t))
      \<and> wp (Rename demo_deps ?a ?b) (\<lambda>r u. r = None \<and> wp (Open demo_deps ?b) ?O u) t) ?s"
    by (simp add: demo_storage_def rename_exec rename_read_def cache_get_def [THEN wp_unfold] wp_def [of "State _"] demo_option_def lru_list_ops_def isMetadataKey_def HasPrefix_def
        wp_exec mem_eval host_eval path_eval demo_fd del: leveldb_String.simps cong: wp_state_cong)
  then obtain t u v where t: "run_state (write_file demo_deps ?a [''ab'', ''c'']) ?s = (None, t)"
    and ok: "\<not> isl (rename_read demo_deps ?a ?b (net t))" and u: "run_state (Rename demo_deps ?a ?b) t = (None, u)"
    and v: "run_state (Open demo_deps ?b) u = (Inr \<lparr>rd_data = ''abc'', rd_closed = False\<rparr>, v)"
    by (auto simp: wp_def split: prod.splits)
  have "session demo_deps lru_list_content ?s [WriteFile ?a [''ab'', ''c''], RenameFile ?a ?b, OpenFile ?b] [Done, Done, Contents ''abc''] v"
    by (rule next_call, simp add: demo_fd, simp add: t answered_def, rule next_call, simp add: demo_fd ok, simp add: u answered_def,
        rule next_call, simp add: demo_fd, simp add: v, rule no_call)
  with session_refines_map [OF demo_env demo_in_session this] show ?thesis by blast
qed

section \<open>Calls that fail\<close>

lemma do_op_errors:
  "run_state (do_op D (WriteFile fd ps)) s = (Inl e, t) \<Longrightarrow> run_state (write_file D fd ps) s = (Some e, t)"
  "run_state (do_op D (OpenFile fd)) s = (Inl e, t) \<Longrightarrow> run_state (Open D fd) s = (Inl e, t)"
  "run_state (do_op D (RemoveFile fd)) s = (Inl e, t) \<Longrightarrow> run_state (Remove D fd) s = (Some e, t)"
  "run_state (do_op D (RenameFile b c)) s = (Inl e, t) \<Longrightarrow> run_state (Rename D b c) s = (Some e, t)"
  "run_state (do_op D (SetCurrent fd)) s = (Inl e, t) \<Longrightarrow> run_state (SetMeta D fd) s = (Some e, t)"
  "run_state (do_op D GetCurrent) s = (Inl e, t) \<Longrightarrow> run_state (GetMeta D) s = (Inl e, t)"
proof -
  show "run_state (do_op D (OpenFile fd)) s = (Inl e, t) \<Longrightarrow> run_state (Open D fd) s = (Inl e, t)"
    by (cases "run_state (Open D fd) s", cases "fst (run_state (Open D fd) s)") auto
  show "run_state (do_op D GetCurrent) s = (Inl e, t) \<Longrightarrow> run_state (GetMeta D) s = (Inl e, t)"
    by (cases "run_state (GetMeta D) s", cases "fst (run_state (GetMeta D) s)") auto
qed (auto simp: answered_def split: prod.splits option.splits)

context storage_env
begin

lemma view_of_same: "view (net t) = view (net s) \<Longrightarrow> view_of D view t = view_of D view s"
  by (simp only: view_of_def)

lemma write_failed:
  assumes fd: "valid_fd fd" and wf: "wf_dirs s" and r: "run_state (write_file D fd ps) s = (Some e, t)"
  shows "view_of D view t \<in> spec_failures (WriteFile fd ps) (view_of D view s)"
proof (cases "closed s \<or> lockLost s")
  case True
  then show ?thesis using wp_run [OF write_file_effect [OF fd wf] r] by auto
next
  case False
  then have t: "\<And>k. k \<noteq> fdString D fd \<Longrightarrow> k \<noteq> shadow_key s (fdString D fd) \<Longrightarrow> view (net t) k = view (net s) k"
    and o: "view (net t) (fdString D fd) \<in> {view (net s) (fdString D fd), Some (concat ps)}"
    using wp_run [OF write_file_effect [OF fd wf] r] by (auto simp: synced_def within_def Let_def shadow_key_def)
  have "fs_files (view_of D view s) fd = view (net s) (fdString D fd)" using fd by (simp add: view_of_def)
  with o show ?thesis using view_of_one [OF fd t] by (auto simp: fun_upd_idem)
qed

lemma remove_failed:
  assumes fd: "valid_fd fd" and r: "run_state (Remove D fd) s = (Some e, t)"
  shows "view_of D view t \<in> spec_failures (RemoveFile fd) (view_of D view s)"
proof (cases "closed s \<or> lockLost s")
  case True
  then show ?thesis using wp_run [OF Remove_effect [OF fd] r] by auto
next
  case False
  then have t: "\<And>k. k \<noteq> fdString D fd \<Longrightarrow> k \<noteq> shadow_key s (fdString D fd) \<Longrightarrow> view (net t) k = view (net s) k"
    and o: "view (net t) (fdString D fd) \<in> {view (net s) (fdString D fd), None}"
    using wp_run [OF Remove_effect [OF fd] r] by (auto simp: within_def)
  have "fs_files (view_of D view s) fd = view (net s) (fdString D fd)" using fd by (simp add: view_of_def)
  with o show ?thesis using view_of_one [OF fd t] by (auto simp: fun_upd_idem)
qed

lemma rename_failed:
  assumes ab: "valid_fd a" "valid_fd b" "a \<noteq> b" and r: "run_state (Rename D a b) s = (Some e, t)"
  shows "view_of D view t \<in> spec_failures (RenameFile a b) (view_of D view s)"
proof -
  let ?m = "fdString D a" and ?n = "fdString D b"
  have ne: "?n \<noteq> ?m" using name_inj [OF ab(2,1)] ab(3) by blast
  have o: "(view (net t) ?m, view (net t) ?n) \<in> {(view (net s) ?m, view (net s) ?n), (view (net s) ?m, view (net s) ?m),
        (None, view (net s) ?m)}"
    and t: "\<And>k. k \<notin> {?m, ?n, shadow_key s ?m, shadow_key s ?n} \<Longrightarrow> view (net t) k = view (net s) k"
    using wp_run [OF Rename_effect [OF ab(1,2)] r] ne by (auto simp: renamed_def Let_def)
  have "fs_files (view_of D view s) a = view (net s) ?m" "fs_files (view_of D view s) b = view (net s) ?n"
    using ab by (simp_all add: view_of_def)
  with o ab(3) show ?thesis using view_of_two [OF ab t] by (auto simp: fun_upd_idem)
qed

lemma set_current_failed:
  assumes fd: "valid_fd fd" and r: "run_state (SetMeta D fd) s = (Some e, t)"
  shows "view_of D view t \<in> spec_failures (SetCurrent fd) (view_of D view s)"
proof -
  have rest: "view (net t) k = view (net s) k" if "k \<noteq> ''CURRENT''" for k
    using wp_run [OF SetMeta_effect r] that by (simp add: within_def)
  then have f: "fs_files (view_of D view t) = fs_files (view_of D view s)"
    using valid_keys(1) by (auto simp: view_of_def fun_eq_iff)
  consider "view (net t) ''CURRENT'' = view (net s) ''CURRENT''" | "view (net t) ''CURRENT'' = Some (fdString D fd @ [CHR 0x0A])"
    using wp_run [OF SetMeta_effect r] by auto
  then show ?thesis
  proof cases
    case 1
    have "view (net t) = view (net s)"
    proof
      fix k show "view (net t) k = view (net s) k" using 1 rest by (cases "k = ''CURRENT''") auto
    qed
    from view_of_same [OF this] show ?thesis by simp
  next
    case 2
    then have "current_fd (view (net t)) = Some fd" using current_fd_written [of fd "view (net t)"] fd by simp
    then show ?thesis using f by (simp add: view_of_def)
  qed
qed

end

text \<open>
  C3: A call that returns an error has had its whole effect or none, except that a rename may have made
  the copy and left the old file: nothing is torn, and no other file and not the pointer to the manifest
  change. This holds in every state with proper directories, also on a closed storage or after the lock is lost.
\<close>

theorem failed_call_effect:
  assumes "storage_env D view content" and "proper op" and "wf_dirs s" and "run_state (do_op D op) s = (Inl e, t)"
  shows "view_of D view t \<in> spec_failures op (view_of D view s)"
proof (cases op)
  case (WriteFile fd ps)
  with assms(4) have "run_state (write_file D fd ps) s = (Some e, t)" by (blast intro: do_op_errors(1))
  then show ?thesis using WriteFile assms(2,3) storage_env.write_failed [OF assms(1)] by simp
next
  case (OpenFile fd)
  with assms(4) have "run_state (Open D fd) s = (Inl e, t)" by (blast intro: do_op_errors(2))
  then have "view (net t) = view (net s)" using wp_run [OF storage_env.Open_effect [OF assms(1)]] by blast
  from storage_env.view_of_same [OF assms(1) this] show ?thesis using OpenFile by simp
next
  case (RemoveFile fd)
  with assms(4) have "run_state (Remove D fd) s = (Some e, t)" by (blast intro: do_op_errors(3))
  then show ?thesis using RemoveFile assms(2,3) storage_env.remove_failed [OF assms(1)] by simp
next
  case (RenameFile a b)
  with assms(4) have "run_state (Rename D a b) s = (Some e, t)" by (blast intro: do_op_errors(4))
  then show ?thesis using RenameFile assms(2,3) storage_env.rename_failed [OF assms(1)] by simp
next
  case (SetCurrent fd)
  with assms(4) have "run_state (SetMeta D fd) s = (Some e, t)" by (blast intro: do_op_errors(5))
  then show ?thesis using SetCurrent assms(2,3) storage_env.set_current_failed [OF assms(1)] by simp
next
  case GetCurrent
  with assms(4) have "run_state (GetMeta D) s = (Inl e, t)" by (blast intro: do_op_errors(6))
  then have "view (net t) = view (net s)"
    using wp_run [OF storage_env.GetMeta_effect [OF assms(1)]] by (auto simp: within_def fun_eq_iff)
  from storage_env.view_of_same [OF assms(1) this] show ?thesis using GetCurrent by simp
qed


text \<open>A removal whose answer is lost: the object is gone, the call returns an error.\<close>

theorem failed_call_effect_witness:
  "\<exists>e t. run_state (do_op demo_deps (RemoveFile (FileDesc TypeTable 1))) (demo_storage [(''000001.ldb'', ''x'')] [Answered, AnswerLost] [])
       = (Inl e, t) \<and> fs_files (view_of demo_deps sim_objs t) (FileDesc TypeTable 1) = None
     \<and> view_of demo_deps sim_objs t \<in> spec_failures (RemoveFile (FileDesc TypeTable 1))
         (view_of demo_deps sim_objs (demo_storage [(''000001.ldb'', ''x'')] [Answered, AnswerLost] []))"
proof -
  let ?fd = "FileDesc TypeTable 1" and ?s = "demo_storage [(''000001.ldb'', ''x'')] [Answered, AnswerLost] []"
  have "wp (Remove demo_deps ?fd) (\<lambda>r t. r \<noteq> None \<and> sim_objs (net t) ''000001.ldb'' = None) ?s"
    by (simp add: demo_storage_def rename_exec demo_option_def lru_list_ops_def wp_exec mem_eval host_eval path_eval
        demo_fd del: leveldb_String.simps cong: wp_state_cong)
  then obtain e t where r: "run_state (Remove demo_deps ?fd) ?s = (Some e, t)" and gone: "sim_objs (net t) ''000001.ldb'' = None"
    by (auto simp: wp_def split: prod.splits)
  then have run: "run_state (do_op demo_deps (RemoveFile ?fd)) ?s = (Inl e, t)" by (simp add: answered_def)
  have "proper (RemoveFile ?fd)" "wf_dirs ?s" by (simp_all add: demo_fd wf_dirs_def)
  from failed_call_effect [OF demo_env this run] run gone show ?thesis
    by (auto simp: view_of_def demo_fd simp del: leveldb_String.simps)
qed

end
