(* ===== verification/Sequential_Recovery.thy ===== *)
theory Sequential_Recovery
  imports Upload_Pool
begin

text \<open>
  The recovery of \<^verbatim>\<open>syncPendingToS3\<close> with a semaphore of size one. One goroutine runs at a time, so
  every schedule gives what a plain loop over the sorted files gives; with a larger semaphore the priority of a
  file fixes only the order in which the goroutines start.
\<close>

section \<open>The loop without goroutines\<close>

text \<open>The body of one goroutine, from the upload to the result that it sends.\<close>

definition recover_file ::
  "('w, 'c) storage_deps \<Rightarrow> pendingFileEntry \<Rightarrow> (('w, 'c) S3Storage, string \<times> error option) state"
where
  "recover_file D f = do {
     e \<leftarrow> on_net (api_PutBytes (api D) StorageCtx (pe_name f) (pe_data f));
     case e of
       Some err \<Rightarrow> ret (pe_name f, Some err)
     | None \<Rightarrow> do {
         on_disk (os_Remove (pe_localPath f));
         on_disk (os_Remove (pe_localPath f @ ''.cksum''));
         cleanShadow D (pe_name f);
         maxSize \<leftarrow> gets (\<lambda>s. MaxFileSize (opt s));
         (if int (length (pe_data f)) \<le> maxSize then cache_add D (pe_fd f) (pe_data f) else ret ());
         ret (pe_name f, None) } }"

primrec recover_in_order ::
  "('w, 'c) storage_deps \<Rightarrow> pendingFileEntry list \<Rightarrow> (('w, 'c) S3Storage, (string \<times> error option) list) state"
where
  "recover_in_order D [] = ret []"
| "recover_in_order D (f # gs) = do { r \<leftarrow> recover_file D f; rs \<leftarrow> recover_in_order D gs; ret (r # rs) }"

section \<open>A pool with one slot\<close>

text \<open>At most one goroutine runs, and while it runs no other is started.\<close>

abbreviation idle :: "pendingFileEntry list \<Rightarrow> (string \<times> error option) list \<Rightarrow> 'st pool" where
  "idle gs rs \<equiv> \<lparr>waiting = gs, running = [], results = rs\<rparr>"

abbreviation busy :: "pendingFileEntry \<Rightarrow> 'st \<Rightarrow> pendingFileEntry list \<Rightarrow> (string \<times> error option) list \<Rightarrow> 'st pool" where
  "busy f st gs rs \<equiv> \<lparr>waiting = gs, running = [(f, st)], results = rs\<rparr>"

lemma run_idle: "pool_run task init cap n sched (idle [] rs) = ret (idle [] rs)"
  by (induction n arbitrary: sched) (simp_all add: pool_step_def pool_done_def)

lemma run_start: "pool_run task init 1 (Suc n) sched (idle (f # gs) rs) = pool_run task init 1 n (tl sched) (busy f init gs rs)"
  by (simp add: pool_step_def pool_done_def can_start_def start_next_def)

lemma run_busy:
  "pool_run task init 1 (Suc n) sched (busy f st gs rs) = do {
     r \<leftarrow> task f st;
     pool_run task init 1 n (tl sched) (case r of Running st' \<Rightarrow> busy f st' gs rs | Finished e \<Rightarrow> idle gs (rs @ [(pe_name f, e)])) }"
  by (simp add: pool_step_def pool_done_def can_start_def advance_def cong: progress.case_cong)

text \<open>Five steps upload one file; a failed upload ends after the first, so fuel is left over.\<close>

lemma recover_step:
  "\<exists>sch. pool_run (recover_task D) RecPut 1 (Suc (Suc (Suc (Suc (Suc (Suc k)))))) sched (idle (f # gs) rs) =
    State_Monad.bind (recover_file D f)
      (\<lambda>r. pool_run (recover_task D) RecPut 1 (if snd r = None then k else k + 4) (sch r) (idle gs (rs @ [r])))"
    (is "\<exists>sch. ?run = State_Monad.bind _ (?rest sch)")
proof (intro exI)
  let ?s = "\<lambda>r :: string \<times> error option. if snd r = None then tl (tl (tl (tl (tl (tl sched))))) else tl (tl sched)"
  have put: "State_Monad.bind (recover_task D f RecPut) g = State_Monad.bind
      (on_net (api_PutBytes (api D) StorageCtx (pe_name f) (pe_data f)))
      (\<lambda>e. g (case e of Some err \<Rightarrow> Finished (Some err) | None \<Rightarrow> Running RecRemove))" for g :: "recover_stage progress \<Rightarrow> _"
    by simp
  show "?run = State_Monad.bind (recover_file D f) (?rest ?s)"
    unfolding run_start run_busy put recover_file_def bind_assoc
  proof (rule arg_cong [of _ _ "State_Monad.bind _"], rule ext)
    fix e
    show "pool_run (recover_task D) RecPut 1 (Suc (Suc (Suc (Suc k)))) (tl (tl sched))
        (case case e of Some err \<Rightarrow> Finished (Some err) | None \<Rightarrow> Running RecRemove of
           Running st' \<Rightarrow> busy f st' gs rs | Finished e \<Rightarrow> idle gs (rs @ [(pe_name f, e)])) =
      State_Monad.bind (case e of
         Some err \<Rightarrow> ret (pe_name f, Some err)
       | None \<Rightarrow> do {
           on_disk (os_Remove (pe_localPath f));
           on_disk (os_Remove (pe_localPath f @ ''.cksum''));
           cleanShadow D (pe_name f);
           maxSize \<leftarrow> gets (\<lambda>s. MaxFileSize (opt s));
           (if int (length (pe_data f)) \<le> maxSize then cache_add D (pe_fd f) (pe_data f) else ret ());
           ret (pe_name f, None) }) (?rest ?s)"
      by (cases e) (simp_all add: run_busy numeral_eq_Suc del: pool_run.simps)
  qed
qed

lemma recover_sequential:
  assumes "6 * length gs \<le> n"
  shows "run_state (pool_run (recover_task D) RecPut 1 n sched (idle gs rs)) s =
    (case run_state (recover_in_order D gs) s of (rs', t) \<Rightarrow> (idle [] (rs @ rs'), t))"
  using assms
proof (induction gs arbitrary: n sched rs s)
  case (Cons f gs)
  obtain k where k: "n = 6 + k" using Cons.prems le_Suc_ex [of 6 n] by auto
  then have n: "n = Suc (Suc (Suc (Suc (Suc (Suc k)))))" "6 * length gs \<le> k" using Cons.prems by simp_all
  obtain sch where run: "pool_run (recover_task D) RecPut 1 n sched (idle (f # gs) rs) = State_Monad.bind (recover_file D f)
      (\<lambda>r. pool_run (recover_task D) RecPut 1 (if snd r = None then k else k + 4) (sch r) (idle gs (rs @ [r])))"
    using recover_step [of D k sched f gs rs] unfolding n(1) by blast
  obtain r t where r: "run_state (recover_file D f) s = (r, t)" by (cases "run_state (recover_file D f) s")
  show ?case
    using n(2) Cons.IH [of k] Cons.IH [of "k + 4"]
    by (simp only: run run_state_bind r prod.case recover_in_order.simps) (simp split: prod.split)
qed (simp add: run_idle)

section \<open>Equivalence\<close>

text \<open>
  C28: With \<open>PendingMaxConcurrency = 1\<close> the concurrent recovery is the sequential one: whatever the scheduler
  does, the goroutines leave the state and send the results of a loop that uploads the sorted files one after the
  other, so the priorities of the files are the order in which the bucket sees them.
\<close>

theorem single_slot_recovery_is_sequential:
  assumes "PendingMaxConcurrency (opt s) = 1"
  shows "run_state (recover_files sched D files) s =
    (case run_state (recover_in_order D files) s of (rs, t) \<Rightarrow> (\<lparr>waiting = [], running = [], results = rs\<rparr>, t))"
  using assms recover_sequential [of files "6 * length files" D sched "[]" s]
  by (simp add: recover_files_def start_pool_def upload_concurrency_def gets_def)

theorem single_slot_recovery_is_sequential_witness:
  "run_state (recover_files [7, 3, 2] demo_deps [\<lparr>pe_name = ''000001.ldb'', pe_data = ''z'', pe_fd = FileDesc TypeTable 1,
       pe_localPath = ''/c/db/pending_uploads/000001.ldb''\<rparr>])
     ((demo_storage [] [] [])\<lparr>opt := demo_option\<lparr>PendingMaxConcurrency := 1\<rparr>\<rparr>) =
   (case run_state (recover_in_order demo_deps [\<lparr>pe_name = ''000001.ldb'', pe_data = ''z'', pe_fd = FileDesc TypeTable 1,
       pe_localPath = ''/c/db/pending_uploads/000001.ldb''\<rparr>])
     ((demo_storage [] [] [])\<lparr>opt := demo_option\<lparr>PendingMaxConcurrency := 1\<rparr>\<rparr>) of
     (rs, t) \<Rightarrow> (\<lparr>waiting = [], running = [], results = rs\<rparr>, t))"
  by (rule single_slot_recovery_is_sequential) simp

end
