(* ===== verification/Programs.thy ===== *)
theory Programs
  imports Session
begin

text \<open>
  The programs of \<^verbatim>\<open>src/cmd\<close>: how \<^verbatim>\<open>cmd/example\<close> and \<^verbatim>\<open>cmd/leveldb_print\<close> configure and open a storage and
  hand it to goleveldb, and the loops of the three programs. goleveldb is not part of the repository: it is the record
  \<open>goleveldb\<close>, a parameter. Log lines are left out; \<^verbatim>\<open>log.Fatalf\<close> ends the program at once, without the
  deferred calls.
\<close>

section \<open>Configuration\<close>

definition envOrDefault :: "(string \<Rightarrow> string) \<Rightarrow> string \<Rightarrow> string \<Rightarrow> string" where
  "envOrDefault getenv key defaultVal = (if getenv key \<noteq> '''' then getenv key else defaultVal)"

definition program_options :: "(string \<Rightarrow> string) \<Rightarrow> OpenOption" where
  "program_options getenv = \<lparr>
     Bucket = envOrDefault getenv ''S3_BUCKET'' ''data-1251933044'',
     Path = envOrDefault getenv ''S3_PATH'' ''new-test-db'',
     Ak = getenv ''S3_ACCESS_KEY'',
     Sk = getenv ''S3_SECRET_KEY'',
     Region = envOrDefault getenv ''S3_REGION'' ''ap-shanghai'',
     Endpoint = envOrDefault getenv ''S3_ENDPOINT'' ''https://cos.ap-shanghai.myqcloud.com'',
     LocalCacheDir = envOrDefault getenv ''S3_CACHE_DIR'' ''/tmp/levels3-cache'',
     MaxCacheSize = 500, MaxFileSize = 0, RetryMaxAttempts = 0, RetryBaseDelay = 0,
     RequestTimeout = 60 * 10 ^ 9, LeaseDuration = 0, LeaseRenewal = 0, EnableLocalPersistence = False,
     LocalPersistenceDir = '''', RetryMaxDuration = 0, RetryFlushInterval = 0, PendingShadowPrefix = '''',
     PendingMaxConcurrency = 0, MaxPendingSize = 0, OnPendingWarning = False\<rparr>"

text \<open>A message and the error that \<^verbatim>\<open>log.Fatalf\<close> prints, or the results of the program.\<close>

type_synonym fatal = "string \<times> error option"

definition start_storage ::
  "'w s3_sdk \<Rightarrow> 'w platform \<Rightarrow> 'c lru_ops \<Rightarrow> (file_desc \<Rightarrow> string) \<Rightarrow> (file_type \<Rightarrow> int) \<Rightarrow> (string \<Rightarrow> string)
     \<Rightarrow> 'w machine \<Rightarrow> fatal + ('w, 'c) storage_deps \<times> ('w, 'c) S3Storage"
where
  "start_storage sdk p l names bits getenv m =
     (let opt = program_options getenv
      in if Ak opt = '''' \<or> Sk opt = ''''
         then Inl (''S3_ACCESS_KEY and S3_SECRET_KEY environment variables must be set'', None)
         else case NewS3Client (plat_rt p) sdk opt (net m) of
           (Inl err, _) \<Rightarrow> Inl (''Failed to create S3 client'', Some err)
         | (Inr client, w) \<Rightarrow>
             (let D = \<lparr>api = client, plat = p, lru = l, fdString = names, typeBits = bits\<rparr>
              in case run_state (NewS3Storage D opt) \<lparr>net = w, disk = disk m, s3Lock = NewS3Lock opt\<rparr> of
                (Inl err, _) \<Rightarrow> Inl (''Failed to create S3 storage'', Some err)
              | (Inr s, _) \<Rightarrow> Inr (D, s)))"

section \<open>goleveldb\<close>

text \<open>The options that the example sets; the multiplier is a float in the source.\<close>

record leveldb_options =
  CompactionTableSize :: int
  CompactionTableSizeMultiplier :: int
  CompactionTotalSize :: int

text \<open>
  The calls of the programs, on a state \<^typ>\<open>'s\<close> (the storage, when the database is on one).
  \<open>ldb_Scan\<close> is an iterator read to its end: its pairs and its error.
\<close>

record ('s, 'd) goleveldb =
  ldb_Open :: "leveldb_options option \<Rightarrow> ('s, error + 'd) state"
  ldb_Recover :: "leveldb_options option \<Rightarrow> ('s, error + 'd) state"
  IsCorrupted :: "error \<Rightarrow> bool"
  ldb_Write :: "'d \<Rightarrow> (bytes \<times> bytes) list \<Rightarrow> ('s, error option) state"
  ldb_Put :: "'d \<Rightarrow> bytes \<Rightarrow> bytes \<Rightarrow> ('s, error option) state"
  ldb_Scan :: "'d \<Rightarrow> ('s, (bytes \<times> bytes) list \<times> error option) state"
  ldb_Close :: "'d \<Rightarrow> ('s, unit) state"

definition open_database :: "('s, 'd) goleveldb \<Rightarrow> leveldb_options option \<Rightarrow> ('s, fatal + 'd) state" where
  "open_database G opts = do {
     r \<leftarrow> ldb_Open G opts;
     r' \<leftarrow> (case r of Inl err \<Rightarrow> if IsCorrupted G err then ldb_Recover G opts else ret (Inl err) | Inr db \<Rightarrow> ret (Inr db));
     ret (case r' of Inl err \<Rightarrow> Inl (''Failed to open leveldb'', Some err) | Inr db \<Rightarrow> Inr db) }"

section \<open>cmd/example\<close>

definition key_value :: "nat \<Rightarrow> nat \<Rightarrow> bytes \<times> bytes" where
  "key_value j i = (''key_'' @ fmt_d (int j) @ ''_'' @ fmt_d (int i), ''hello3'')"

text \<open>The inner loop over the numbers that are left, with the batch that is filled and written.\<close>

primrec fill_batches ::
  "('s, 'd) goleveldb \<Rightarrow> 'd \<Rightarrow> nat \<Rightarrow> nat \<Rightarrow> nat \<Rightarrow> nat list \<Rightarrow> (bytes \<times> bytes) list \<Rightarrow> ('s, error option) state"
where
  "fill_batches G db batchSize totalKeys j [] batch = ret None"
| "fill_batches G db batchSize totalKeys j (i # is) batch =
     (let batch = batch @ [key_value j i]
      in if i mod batchSize = 0 \<or> i = totalKeys
         then do {
           e \<leftarrow> ldb_Write G db batch;
           case e of Some err \<Rightarrow> ret (Some err) | None \<Rightarrow> fill_batches G db batchSize totalKeys j is [] }
         else fill_batches G db batchSize totalKeys j is batch)"

definition write_round :: "('s, 'd) goleveldb \<Rightarrow> 'd \<Rightarrow> nat \<Rightarrow> nat \<Rightarrow> nat \<Rightarrow> ('s, error option) state" where
  "write_round G db batchSize totalKeys j = fill_batches G db batchSize totalKeys j [1..<Suc totalKeys] []"

definition leveldbOpts :: leveldb_options where
  "leveldbOpts = \<lparr>CompactionTableSize = 16 * 1024 * 1024, CompactionTableSizeMultiplier = 2,
     CompactionTotalSize = 80 * 1024 * 1024\<rparr>"

definition example_run ::
  "slice_sorter \<Rightarrow> nat list \<Rightarrow> nat \<Rightarrow> loop_position \<Rightarrow> ('w, 'c) storage_deps \<Rightarrow> (('w, 'c) S3Storage, 'd) goleveldb
     \<Rightarrow> (('w, 'c) S3Storage, fatal option) state"
where
  "example_run sorter sched fuel at D G = do {
     r \<leftarrow> open_database G (Some leveldbOpts);
     case r of
       Inl f \<Rightarrow> ret (Some f)
     | Inr db \<Rightarrow> do {
         f \<leftarrow> for_return [1, 2, 3] (\<lambda>j. do {
           e \<leftarrow> write_round G db 100000 100000000 j;
           ret (case e of Some err \<Rightarrow> Some (''Failed to write batch '' @ fmt_d (int j), Some err) | None \<Rightarrow> None) });
         case f of
           Some x \<Rightarrow> ret (Some x)
         | None \<Rightarrow> do { ldb_Close G db; Storage_Close sorter sched fuel D at; ret None } } }"

text \<open>The whole program: its fatal error, if any, and the storage unless it was never opened.\<close>

definition example_main ::
  "'w s3_sdk \<Rightarrow> 'w platform \<Rightarrow> 'c lru_ops \<Rightarrow> (file_desc \<Rightarrow> string) \<Rightarrow> (file_type \<Rightarrow> int) \<Rightarrow> slice_sorter \<Rightarrow> nat list \<Rightarrow> nat
     \<Rightarrow> loop_position \<Rightarrow> (('w, 'c) storage_deps \<Rightarrow> (('w, 'c) S3Storage, 'd) goleveldb) \<Rightarrow> (string \<Rightarrow> string) \<Rightarrow> 'w machine
     \<Rightarrow> fatal option \<times> ('w, 'c) S3Storage option"
where
  "example_main sdk p l names bits sorter sched fuel at G getenv m =
     (case start_storage sdk p l names bits getenv m of
        Inl f \<Rightarrow> (Some f, None)
      | Inr (D, s) \<Rightarrow> (case run_state (example_run sorter sched fuel at D (G D)) s of (r, t) \<Rightarrow> (r, Some t)))"

section \<open>cmd/leveldb\_print\<close>

definition print_line :: "bytes \<times> bytes \<Rightarrow> string" where
  "print_line kv = fst kv @ '' -> '' @ snd kv @ [CHR 0x0A]"

text \<open>The lines printed, and the fatal error or \<open>None\<close>.\<close>

definition print_run ::
  "slice_sorter \<Rightarrow> nat list \<Rightarrow> nat \<Rightarrow> loop_position \<Rightarrow> ('w, 'c) storage_deps \<Rightarrow> (('w, 'c) S3Storage, 'd) goleveldb
     \<Rightarrow> (('w, 'c) S3Storage, string list \<times> fatal option) state"
where
  "print_run sorter sched fuel at D G = do {
     r \<leftarrow> open_database G None;
     case r of
       Inl f \<Rightarrow> ret ([], Some f)
     | Inr db \<Rightarrow> do {
         (kvs, e) \<leftarrow> ldb_Scan G db;
         case e of
           Some err \<Rightarrow> ret (map print_line kvs, Some (''Iterator error'', Some err))
         | None \<Rightarrow> do { ldb_Close G db; Storage_Close sorter sched fuel D at; ret (map print_line kvs, None) } } }"

text \<open>The whole program: its fatal error, if any, and the storage unless it was never opened.\<close>

definition print_main ::
  "'w s3_sdk \<Rightarrow> 'w platform \<Rightarrow> 'c lru_ops \<Rightarrow> (file_desc \<Rightarrow> string) \<Rightarrow> (file_type \<Rightarrow> int) \<Rightarrow> slice_sorter \<Rightarrow> nat list \<Rightarrow> nat
     \<Rightarrow> loop_position \<Rightarrow> (('w, 'c) storage_deps \<Rightarrow> (('w, 'c) S3Storage, 'd) goleveldb) \<Rightarrow> (string \<Rightarrow> string) \<Rightarrow> 'w machine
     \<Rightarrow> (string list \<times> fatal option) \<times> ('w, 'c) S3Storage option"
where
  "print_main sdk p l names bits sorter sched fuel at G getenv m =
     (case start_storage sdk p l names bits getenv m of
        Inl f \<Rightarrow> (([], Some f), None)
      | Inr (D, s) \<Rightarrow> (case run_state (print_run sorter sched fuel at D (G D)) s of (r, t) \<Rightarrow> (r, Some t)))"

section \<open>cmd/leveldb\<close>

definition fmt_08d :: "nat \<Rightarrow> string" where
  "fmt_08d n = pad0 8 (digits10 n)"

text \<open>Failed puts are only logged; the result is the number of pairs that the iterator meets.\<close>

definition put_keys :: "('s, 'd) goleveldb \<Rightarrow> 'd \<Rightarrow> nat \<Rightarrow> ('s, unit) state" where
  "put_keys G db totalKeys = for_each [1..<Suc totalKeys] (\<lambda>i. do {
     ldb_Put G db (''key_'' @ fmt_08d i) (''value_'' @ fmt_08d i @ ''_hello_world'');
     ret () })"

definition bench_main :: "('s, 'd) goleveldb \<Rightarrow> ('s, fatal + nat) state" where
  "bench_main G = do {
     r \<leftarrow> ldb_Open G None;
     case r of
       Inl err \<Rightarrow> ret (Inl (''Failed to open LevelDB'', Some err))
     | Inr db \<Rightarrow> do {
         put_keys G db 1000000;
         (kvs, e) \<leftarrow> ldb_Scan G db;
         ldb_Close G db;
         ret (Inr (length kvs)) } }"

section \<open>The batches\<close>

fun chunks :: "nat \<Rightarrow> 'a list \<Rightarrow> 'a list list" where
  "chunks n xs = (if n = 0 \<or> xs = [] then [] else take n xs # chunks n (drop n xs))"

declare chunks.simps [simp del]

lemma chunks_Nil [simp]: "chunks n [] = []"
  by (simp add: chunks.simps)

lemma chunks_split: "0 < n \<Longrightarrow> length xs = n \<Longrightarrow> chunks n (xs @ ys) = xs # chunks n ys"
  by (subst chunks.simps) auto

lemma chunks_last: "xs \<noteq> [] \<Longrightarrow> length xs \<le> n \<Longrightarrow> chunks n xs = [xs]"
  by (subst chunks.simps) (cases xs, auto)

lemma chunks_concat: "0 < n \<Longrightarrow> concat (chunks n xs) = xs"
proof (induction n xs rule: chunks.induct)
  case (1 n xs)
  then show ?case by (cases "xs = []") (auto simp: chunks.simps [of n xs])
qed

lemma chunks_sizes: "b \<in> set (chunks n xs) \<Longrightarrow> b \<noteq> [] \<and> length b \<le> n"
proof (induction n xs rule: chunks.induct)
  case (1 n xs)
  then show ?case by (cases "n = 0 \<or> xs = []") (auto simp: chunks.simps [of n xs])
qed

lemma fill_batches_chunks:
  assumes "0 < n" and "1 \<le> a" and "a \<le> i" and "i - a < n" and "i + k = Suc m"
    and "0 < k \<Longrightarrow> (a - 1) mod n = 0" and "k = 0 \<Longrightarrow> a = i"
  shows "fill_batches G db n m j [i..<Suc m] (map (key_value j) [a..<i]) =
    for_return (chunks n (map (key_value j) [a..<Suc m])) (ldb_Write G db)"
  using assms
proof (induction k arbitrary: a i)
  case 0
  then show ?case by simp
next
  case (Suc k)
  let ?kv = "map (key_value j)"
  have list: "[i..<Suc m] = i # [Suc i..<Suc m]" using Suc.prems by (simp add: upt_conv_Cons)
  have batch: "?kv [a..<i] @ [key_value j i] = ?kv [a..<Suc i]" using Suc.prems(3) by simp
  have rest: "?kv [a..<Suc m] = ?kv [a..<Suc i] @ ?kv [Suc i..<Suc m]"
    using upt_add_eq_append [of a "Suc i" k] Suc.prems(3,5) by (simp flip: map_append)
  obtain q where q: "a = n * q + 1"
    using Suc.prems(2,6) by (metis add.commute le_add_diff_inverse mod_0_imp_dvd dvdE zero_less_Suc)
  have full: "i mod n = 0 \<longleftrightarrow> Suc i - a = n"
  proof
    assume "i mod n = 0"
    then obtain p where p: "i = n * p" by (auto simp: mod_eq_0_iff_dvd)
    with q Suc.prems(3,4) have "n * q < n * p" "n * p < n * (q + 2)" by (simp_all only: add_mult_distrib2)
    then have "q < p" "p < q + 2" using mult_less_cancel1 by blast+
    then have "p = q + 1" by simp
    then show "Suc i - a = n" using p q by simp
  next
    assume "Suc i - a = n"
    then have "i = n * q + n" using q Suc.prems(3) by simp
    then show "i mod n = 0" by simp
  qed
  show ?case
  proof (cases "i mod n = 0 \<or> i = m")
    case True
    have split: "chunks n (?kv [a..<Suc m]) = ?kv [a..<Suc i] # chunks n (?kv [Suc i..<Suc m])"
    proof (cases "i mod n = 0")
      case True
      then show ?thesis unfolding rest using full Suc.prems(1) by (intro chunks_split) auto
    next
      case False
      with \<open>i mod n = 0 \<or> i = m\<close> have "i = m" by blast
      then show ?thesis using Suc.prems(3,4) by (simp add: chunks_last)
    qed
    have "(Suc i - 1) mod n = 0" if "0 < k" using True that Suc.prems(5) by auto
    then have IH: "fill_batches G db n m j [Suc i..<Suc m] [] = for_return (chunks n (?kv [Suc i..<Suc m])) (ldb_Write G db)"
      using Suc.IH [of "Suc i" "Suc i"] Suc.prems(1,5) by simp
    show ?thesis
      using True by (simp only: list fill_batches.simps batch split for_return.simps Let_def if_True IH)
  next
    case False
    then have "k \<noteq> 0" and "Suc i - a < n" using Suc.prems full by auto
    then have "fill_batches G db n m j [Suc i..<Suc m] (?kv [a..<Suc i]) =
        for_return (chunks n (?kv [a..<Suc m])) (ldb_Write G db)"
      using Suc.prems by (intro Suc.IH) auto
    then show ?thesis using False by (simp only: list fill_batches.simps batch Let_def if_False)
  qed
qed


section \<open>The keys\<close>

lemma fmt_d_no_underscore: "CHR ''_'' \<notin> set (fmt_d (int n))"
  by (auto simp: fmt_d_def is_digit_def dest: digits10_digits)

lemma fmt_d_inject: "fmt_d (int m) = fmt_d (int n) \<longleftrightarrow> m = n"
  by (auto simp: fmt_d_def) (metis dec_value_digits10)

lemma split_at_char:
  assumes "c \<notin> set xs" and "c \<notin> set ys" and "xs @ c # us = ys @ c # vs"
  shows "xs = ys \<and> us = vs"
  using assms by (induction xs arbitrary: ys) (auto simp: append_eq_Cons_conv Cons_eq_append_conv)

lemma key_value_inject: "fst (key_value j i) = fst (key_value j' i') \<longleftrightarrow> j = j' \<and> i = i'"
  using split_at_char [of "CHR ''_''" "fmt_d (int j)" "fmt_d (int j')" "fmt_d (int i)" "fmt_d (int i')"] fmt_d_no_underscore
  by (auto simp: key_value_def fmt_d_inject)

section \<open>Properties\<close>

text \<open>
  C40: A round of \<^verbatim>\<open>cmd/example\<close> hands every pair to goleveldb exactly once and in order, in batches that
  are never empty and never larger than \<open>batchSize\<close> (the last one may be shorter), and stops at the first batch
  that is refused. No two keys are equal, also between rounds.
\<close>

theorem write_round_batches:
  assumes "0 < batchSize"
  shows "write_round G db batchSize totalKeys j =
      for_return (chunks batchSize (map (key_value j) [1..<Suc totalKeys])) (ldb_Write G db)
    \<and> concat (chunks batchSize (map (key_value j) [1..<Suc totalKeys])) = map (key_value j) [1..<Suc totalKeys]
    \<and> (\<forall>b \<in> set (chunks batchSize (map (key_value j) [1..<Suc totalKeys])). b \<noteq> [] \<and> length b \<le> batchSize)
    \<and> (\<forall>j' i i'. fst (key_value j i) = fst (key_value j' i') \<longrightarrow> j = j' \<and> i = i')"
  using fill_batches_chunks [of batchSize 1 1 totalKeys totalKeys G db j] assms
  by (auto simp: write_round_def chunks_concat key_value_inject dest: chunks_sizes)

text \<open>A database that keeps what it is given: three keys in batches of two.\<close>

definition demo_db :: "(bytes list list, unit) goleveldb" where
  "demo_db = \<lparr>ldb_Open = (\<lambda>_. ret (Inr ())), ldb_Recover = (\<lambda>_. ret (Inr ())), IsCorrupted = (\<lambda>_. False),
     ldb_Write = (\<lambda>_ b. State (\<lambda>s. (None, s @ [map fst b]))), ldb_Put = (\<lambda>_ _ _. ret None),
     ldb_Scan = (\<lambda>_. ret ([], None)), ldb_Close = (\<lambda>_. ret ())\<rparr>"

theorem write_round_batches_witness:
  "run_state (write_round demo_db () 2 3 1) [] = (None, [[''key_1_1'', ''key_1_2''], [''key_1_3'']])"
proof -
  have "chunks 2 (map (key_value 1) [1..<Suc 3]) = [[key_value 1 1, key_value 1 2], [key_value 1 3]]"
    by (simp add: chunks.simps upt_rec numeral_eq_Suc)
  moreover have "fst (key_value 1 1) = ''key_1_1''" "fst (key_value 1 2) = ''key_1_2''" "fst (key_value 1 3) = ''key_1_3''"
    by (simp_all add: key_value_def fmt_eval)
  ultimately show ?thesis
    using write_round_batches [of 2 demo_db "()" 3 1] by (simp add: demo_db_def)
qed

text \<open>The configuration that the programs build is valid exactly when both keys are set, so no other check fails.\<close>

lemma program_options_valid:
  "Validate (ApplyDefaults (program_options getenv)) = None \<longleftrightarrow> getenv ''S3_ACCESS_KEY'' \<noteq> '''' \<and> getenv ''S3_SECRET_KEY'' \<noteq> ''''"
  by (simp add: Validate_def ApplyDefaults_def program_options_def envOrDefault_def)

end
