(* ===== verification/Delivery.thy ===== *)
theory Delivery
  imports Background_Retry
begin

text \<open>
  Progress of the background retry (\<^verbatim>\<open>retryPendingFilesOnce\<close> of \<^verbatim>\<open>s3/storage.go\<close>). While the bucket
  answers, nobody closes the storage and the lock is held, a pass delivers: every interleaving of its
  goroutines ends, with every intact pending file in the bucket and out of the pending directory.
\<close>

section \<open>While the bucket answers\<close>

text \<open>
  \<open>well w\<close> says that the service is in good health in the world \<open>w\<close>: uploads succeed, and the health
  outlasts the requests that a goroutine makes.
\<close>

locale healthy_env = storage_env D view content for D :: "('w, 'c) storage_deps" and view and content +
  fixes well :: "'w \<Rightarrow> bool"
  assumes put_well: "\<And>k d w. well w \<Longrightarrow>
      fst (api_PutBytes (api D) StorageCtx k d w) = None \<and> well (snd (api_PutBytes (api D) StorageCtx k d w))"
    and remove_well: "\<And>k w. well w \<Longrightarrow> well (snd (api_Remove (api D) StorageCtx k w))"

definition served :: "('w \<Rightarrow> bool) \<Rightarrow> ('w, 'c) S3Storage \<Rightarrow> bool" where
  "served well s = (well (net s) \<and> faults (disk s) = [] \<and> \<not> retryStopped s \<and> \<not> lockLost s \<and> RetryMaxDuration (opt s) \<le> 0)"

fun going :: "retry_stage \<Rightarrow> bool" where
  "going (RetWait a n d) = False"
| "going _ = True"

text \<open>Six steps bring a file into the bucket, and one starts it.\<close>

fun deliver_rank :: "retry_stage \<Rightarrow> nat" where
  "deliver_rank RetStart = 6"
| "deliver_rank (RetCheck a n) = 5"
| "deliver_rank (RetPut a n) = 4"
| "deliver_rank (RetWait a n d) = 1"
| "deliver_rank RetRemove = 3"
| "deliver_rank RetRemoveCksum = 2"
| "deliver_rank RetShadow = 1"

text \<open>The stages after the pending copy has been deleted.\<close>

fun cleared :: "retry_stage \<Rightarrow> bool" where
  "cleared RetRemoveCksum = True"
| "cleared RetShadow = True"
| "cleared _ = False"

context healthy_env
begin

text \<open>A step keeps the health, never waits, never fails, deletes files only, and deletes the pending copy.\<close>

lemma served_task:
  assumes "served well s" and "going st"
  shows "wp (retry_task D f st) (\<lambda>r t. served well t
     \<and> (\<forall>q. data_at (disk s) q = None \<longrightarrow> data_at (disk t) q = None)
     \<and> (case r of
          Running st' \<Rightarrow> going st' \<and> deliver_rank st' < deliver_rank st
            \<and> (cleared st' \<longrightarrow> cleared st \<and> data_at (disk s) (pe_localPath f) \<noteq> None \<or> data_at (disk t) (pe_localPath f) = None)
        | Finished e \<Rightarrow> e = None \<and> cleared st)) s"
proof (cases st)
  case (RetCheck a n)
  then show ?thesis using assms by (auto simp: wp_def run_upload_stage served_def)
next
  case (RetPut a n)
  then show ?thesis
    using assms put_well [of "net s" "fdString D (pe_fd f)" "pe_data f"]
    by (auto simp: wp_def run_upload_stage served_def split: prod.split)
next
  case RetRemove
  then show ?thesis using assms
    by (auto simp: retry_task.simps wp_simps wp_fun served_def intro!: wp_Remove_ok)
next
  case RetRemoveCksum
  then show ?thesis using assms
    by (auto simp: retry_task.simps wp_simps wp_fun served_def intro!: wp_Remove_ok)
next
  case RetShadow
  then show ?thesis
    using assms remove_well [of "net s" "shadowPrefix s @ ''/'' @ pe_name f"]
    by (auto simp: retry_task.simps cleanShadow_def wp_simps wp_fun wp_on_net served_def split: prod.split)
qed (use assms in \<open>auto simp: wp_def run_upload_stage\<close>)

lemma deliver_ranked: "ranked_task (retry_task D) RetStart deliver_rank 7 (served well) going"
proof
  fix s :: "('w, 'c) S3Storage" and st f assume "served well s" "going st"
  from served_task [OF this, of f] show "wp (retry_task D f st) (\<lambda>r t. served well t
      \<and> (\<forall>st'. r = Running st' \<longrightarrow> going st' \<and> deliver_rank st' < deliver_rank st)) s"
    by (rule wp_weaken) auto
next
  fix st show "0 < deliver_rank st" by (cases st) simp_all
qed simp_all

end

section \<open>The whole pool\<close>

text \<open>
  Every goroutine under way is on its path, every result is nil, and a file that has been cleared or
  finished is no longer in the pending directory \<open>pre\<close>.
\<close>

definition delivering :: "('w \<Rightarrow> bool) \<Rightarrow> string \<Rightarrow> retry_stage pool \<Rightarrow> ('w, 'c) S3Storage \<Rightarrow> bool" where
  "delivering well pre p t = (served well t
     \<and> (\<forall>f \<in> set (waiting p). pe_localPath f = pre @ pe_name f)
     \<and> (\<forall>x \<in> set (running p). pe_localPath (fst x) = pre @ pe_name (fst x) \<and> going (snd x)
          \<and> (cleared (snd x) \<longrightarrow> data_at (disk t) (pe_localPath (fst x)) = None))
     \<and> (\<forall>r \<in> set (results p). snd r = None \<and> data_at (disk t) (pre @ fst r) = None))"

context healthy_env
begin

lemma delivering_step:
  assumes I: "delivering well pre p s" and "\<not> pool_done p" and "1 \<le> cap"
  shows "wp (pool_step (retry_task D) RetStart cap c p) (delivering well pre) s"
proof (rule wp_pool_step [OF assms(2,3)], goal_cases)
  case (1 i)
  obtain f st where f: "running p ! i = (f, st)" by force
  then have mem: "(f, st) \<in> set (running p)" using 1 nth_mem by metis
  then have st: "served well s" "going st" "cleared st \<Longrightarrow> data_at (disk s) (pe_localPath f) = None" "pe_localPath f = pre @ pe_name f"
    using I by (auto simp: delivering_def)
  show ?case
    unfolding f fst_conv snd_conv
  proof (rule wp_weaken [OF served_task [OF st(1,2)]])
    fix r t
    assume t: "served well t \<and> (\<forall>q. data_at (disk s) q = None \<longrightarrow> data_at (disk t) q = None)
      \<and> (case r of
          Running st' \<Rightarrow> going st' \<and> deliver_rank st' < deliver_rank st
            \<and> (cleared st' \<longrightarrow> cleared st \<and> data_at (disk s) (pe_localPath f) \<noteq> None \<or> data_at (disk t) (pe_localPath f) = None)
        | Finished e \<Rightarrow> e = None \<and> cleared st)"
    then have old: "delivering well pre p t" using I by (auto simp: delivering_def)
    have sub: "x \<in> set (running p)" if "x \<in> set (others i (running p))" for x using that by (rule set_others)
    show "delivering well pre (advance i r p) t"
    proof (cases r)
      case (Running st')
      then have "running (advance i r p) = (running p)[i := (f, st')]" "waiting (advance i r p) = waiting p"
        "results (advance i r p) = results p" by (simp_all add: advance_def f)
      moreover have "set ((running p)[i := (f, st')]) \<subseteq> insert (f, st') (set (running p))" by (rule set_update_subset_insert)
      ultimately show ?thesis using old t st Running unfolding delivering_def by fastforce
    next
      case (Finished e)
      then have "running (advance i r p) = others i (running p)" "waiting (advance i r p) = waiting p"
        "results (advance i r p) = results p @ [(pe_name f, e)]" by (simp_all add: advance_def f)
      then show ?thesis using old t st Finished sub unfolding delivering_def by auto
    qed
  qed
next
  case 2
  then show ?case using I
    by (cases "waiting p") (auto simp: delivering_def start_next_def can_start_def)
qed

lemma delivery:
  assumes "served well s" and "good_files s files" and "1 \<le> cap" and "7 * length files \<le> n"
  shows "wp (pool_run (retry_task D) RetStart cap n sched (start_pool files))
    (\<lambda>p t. pool_done p \<and> delivering well (dir_prefix (pendingDir s)) p t) s"
proof -
  have start: "delivering well (dir_prefix (pendingDir s)) (start_pool files) s"
    using assms(1,2) by (simp add: delivering_def start_pool_def good_files_def)
  have "wp (pool_run (retry_task D) RetStart cap n sched (start_pool files)) (delivering well (dir_prefix (pendingDir s))) s"
    by (rule wp_pool_run [OF delivering_step [OF _ _ assms(3)] start])
  moreover have "wp (pool_run (retry_task D) RetStart cap n sched (start_pool files)) (\<lambda>p t. pool_done p) s"
    by (rule ranked_task.started_pool_ends [OF deliver_ranked assms(4,3,1)])
  ultimately show ?thesis by (simp add: wp_conj)
qed

end

section \<open>A pass\<close>

lemma finite_pending_names:
  assumes "clean_dir (pendingDir s)"
  shows "finite (pending_names s)"
proof (rule finite_subset)
  let ?p = "dir_prefix (pendingDir s)"
  show "pending_names s \<subseteq> drop (length ?p) ` dom (map_of (fs (disk s)))"
  proof
    fix n assume n: "n \<in> pending_names s"
    then have "data_at (disk s) (?p @ n) \<noteq> None"
      using pending_name_path(1) [OF assms n] by (simp add: pending_names_def pending_data_def)
    then have "?p @ n \<in> dom (map_of (fs (disk s)))"
      by (auto simp: data_at_def node_at_def split: option.splits)
    then show "n \<in> drop (length ?p) ` dom (map_of (fs (disk s)))" by (rule rev_image_eqI) simp
  qed
qed (simp add: finite_dom_map_of)

context recovery_env
begin

text \<open>What a pass does once it has read the directory.\<close>

lemma wp_pass:
  assumes dir: "clean_dir (pendingDir s)" and ok: "faults (disk s) = []" and ex: "dir_exists (disk s) (pendingDir s)"
    and held: "lockHeld s" and "\<not> lockLost s"
    and pool: "\<And>es t. reading s UNIV es t \<Longrightarrow>
      wp (pool_run (retry_task D) RetStart (upload_concurrency t) fuel sched (start_pool es)) Q t"
  shows "wp (retryPendingFilesOnce sorter sched fuel D) Q s"
proof -
  have ne: "pendingDir s \<noteq> ''''" using dir clean_dir_not_Nil by auto
  have no: "\<not> unread s t" for t using ex ok ne by (simp add: unread_def)
  have "wp (readPendingFiles sorter) (\<lambda>r. wp (case r of Inl x \<Rightarrow> ret (start_pool [])
       | Inr files \<Rightarrow> State_Monad.bind (gets upload_concurrency)
           (\<lambda>cap. pool_run (retry_task D) RetStart cap fuel sched (start_pool files))) Q) s"
  proof (rule wp_weaken [OF readPendingFiles_effect [OF disjI2 [OF dir]]])
    fix r t assume "files_read s r t"
    with no obtain es where "r = Inr es" and "reading s UNIV es t" by (cases r) (auto simp: files_read_def)
    then show "wp (case r of Inl x \<Rightarrow> ret (start_pool [])
       | Inr files \<Rightarrow> State_Monad.bind (gets upload_concurrency)
           (\<lambda>cap. pool_run (retry_task D) RetStart cap fuel sched (start_pool files))) Q t"
      using pool by (simp add: wp_simps)
  qed
  then show ?thesis
    using assms(4,5) ne by (simp add: retryPendingFilesOnce_def wp_bind wp_gets wp_if)
qed

end

locale delivery_env = recovery_env D view content sorter + healthy_env D view content well
  for D :: "('w, 'c) storage_deps" and view and content and sorter and well +
  assumes wait_quiet: "\<And>d w. view (snd (SelectAfter (plat_rt (plat D)) Background d w)) = view w"
begin

lemma pass_delivers:
  assumes dir: "clean_dir (pendingDir s)" and ex: "dir_exists (disk s) (pendingDir s)"
    and names: "\<forall>m \<in> pending_names s. fdString D (pe_fd (pending_entry s m)) = m"
    and served: "served well s" and held: "lockHeld s" and fuel: "7 * card (pending_names s) \<le> fuel"
  shows "wp (retryPendingFilesOnce sorter sched fuel D) (\<lambda>p t. pool_done p
     \<and> (\<forall>n \<in> pending_names s. intact s n \<longrightarrow> view (net t) n = pending_data s n \<and> pending_data t n = None)) s"
proof -
  have ok: "faults (disk s) = []" "\<not> lockLost s" using served by (simp_all add: served_def)
  show ?thesis
  proof (rule wp_pass [OF dir ok(1) ex held ok(2)])
    fix es t assume rd: "reading s UNIV es t"
    have good: "good_files t es" "\<forall>f \<in> set es. kept t f" using reading_good [OF rd dir] by auto
    have disk: "disk_only s t" using rd by (simp add: reading_def)
    have "served well t"
      using served rd disk disk_only_fields [OF disk] by (auto simp: served_def reading_def same_config_def)
    moreover have "pe_name ` set es \<subseteq> pending_names s" "distinct (map pe_name es)" using rd by (auto simp: reading_def)
    then have "length es \<le> card (pending_names s)"
      using card_mono [OF finite_pending_names [OF dir]] by (metis distinct_card length_map list.set_map)
    then have "7 * length es \<le> fuel" using fuel by simp
    ultimately have deliver: "wp (pool_run (retry_task D) RetStart (upload_concurrency t) fuel sched (start_pool es))
        (\<lambda>p u. pool_done p \<and> delivering well (dir_prefix (pendingDir t)) p u) t"
      by (rule delivery [OF _ good(1) upload_concurrency_pos])
    have "\<forall>f \<in> set es. fdString D (pe_fd f) = pe_name f"
    proof
      fix g assume "g \<in> set es"
      then have "pe_name g \<in> pending_names s" "g = pending_entry s (pe_name g)" using rd by (auto simp: reading_def)
      then show "fdString D (pe_fd g) = pe_name g" using names by metis
    qed
    then have "\<forall>f \<in> set es. kept t f \<and> fdString D (pe_fd f) = pe_name f" using good(2) by blast
    from upload_task.pool_effect [OF retry_upload_task [OF wait_quiet] good(1) this upload_concurrency_pos] deliver
    have "wp (pool_run (retry_task D) RetStart (upload_concurrency t) fuel sched (start_pool es))
        (\<lambda>p u. recovering uploading view t es p u \<and> pool_done p \<and> delivering well (dir_prefix (pendingDir t)) p u) t"
      by (simp add: wp_conj)
    then show "wp (pool_run (retry_task D) RetStart (upload_concurrency t) fuel sched (start_pool es)) (\<lambda>p u. pool_done p
        \<and> (\<forall>n \<in> pending_names s. intact s n \<longrightarrow> view (net u) n = pending_data s n \<and> pending_data u n = None)) t"
    proof (rule wp_weaken, intro conjI ballI impI)
      fix p u n assume u: "recovering uploading view t es p u \<and> pool_done p \<and> delivering well (dir_prefix (pendingDir t)) p u"
        and n: "n \<in> pending_names s" "intact s n"
      obtain f where f: "f \<in> set es" "pe_name f = n" and at: "stored view u f = (view (net u) n = pending_data s n)"
        by (rule read_back [OF rd dir ok(1) n, where view = view], rule that, simp_all)
      have "first_error (results p) = None" using u by (simp add: delivering_def first_error_None)
      then have "stored view u f" using recovering_done(2) [of uploading view t es p u f] u f(1) by blast
      then show "view (net u) n = pending_data s n" using at by simp
      have "mset (map fst (results p)) = mset (map pe_name es)"
        using u by (auto simp: recovering_def all_names_def pool_done_def)
      then have "n \<in> fst ` set (results p)" using f mset_eq_setD by fastforce
      then have "data_at (disk u) (dir_prefix (pendingDir t) @ n) = None" using u by (auto simp: delivering_def)
      moreover have "pendingDir u = pendingDir t" "pendingDir t = pendingDir s"
        using u disk_only_fields [OF disk] by (simp_all add: recovering_def same_config_def)
      ultimately show "pending_data u n = None"
        using pending_name_path(1) [OF dir n(1)] by (simp add: pending_data_def)
    qed simp
  qed
qed

end

interpretation demo_healthy: healthy_env demo_deps sim_objs lru_list_content "\<lambda>w. sim_outcomes w = [] \<and> \<not> sim_canceled w"
  by unfold_locales (auto simp: sim_write_def sim_outcome_def sim_rt_def)

interpretation demo_delivery: delivery_env demo_deps sim_objs lru_list_content slice_insertion
    "\<lambda>w. sim_outcomes w = [] \<and> \<not> sim_canceled w"
  by unfold_locales (simp add: sim_platform_def sim_rt_def sim_objs_def)

section \<open>Properties\<close>



end
